(* ===== verification/Go_Prelude.thy ===== *)
theory Go_Prelude
  imports Main "HOL-Library.Word" "HOL-Library.Multiset"
    "HOL-Library.Char_ord" "HOL-Library.List_Lexorder"
begin

text \<open>
  The prelude of the development: Go's error values, the result type every fallible
  operation returns, the integer types, and the generic facts on lists, maps and sorting
  that the component theories share.

  A Go string is a sequence of bytes, which is what HOL's \<open>string\<close> (a list of 8-bit
  characters) is; Go's \<open><\<close> on strings is the byte-wise lexicographic order, the
  \<open>linorder\<close> instance of \<open>List_Lexorder\<close> and \<open>Char_ord\<close>.
\<close>

named_theorems go_defs \<open>definitions of the Go library model, unfolded together\<close>
named_theorems closed_intro \<open>facts by which an affirmative answer is refused\<close>

type_synonym uint64 = "64 word"

subsection \<open>Errors\<close>

text \<open>
  \<open>errors.New\<close> makes a sentinel that \<open>errors.Is\<close> recognises; \<open>fmt.Errorf\<close> with
  \<open>%w\<close> wraps an error behind a prefix, and \<open>errors.Is\<close> looks through the wrapping;
  \<open>fmt.Errorf\<close> without \<open>%w\<close> is a plain message.
\<close>

datatype go_error = Sentinel string | Wrap string go_error | Msg string

type_synonym 'a result = "go_error + 'a"

fun errors_Is :: "go_error \<Rightarrow> go_error \<Rightarrow> bool" where
  "errors_Is (Wrap p e) t = (Wrap p e = t \<or> errors_Is e t)"
| "errors_Is e t = (e = t)"

fun error_text :: "go_error \<Rightarrow> string" where
  "error_text (Sentinel s) = s"
| "error_text (Wrap p e) = p @ error_text e"
| "error_text (Msg s) = s"

lemma errors_Is_refl [simp]: "errors_Is e e"
  by (cases e) auto

lemma errors_Is_Wrap_Sentinel [simp]:
  "errors_Is (Wrap p e) (Sentinel s) = errors_Is e (Sentinel s)"
  by simp

subsection \<open>Lists\<close>

lemma foldl_option_None: "foldl (\<lambda>a x. case a of None \<Rightarrow> None | Some y \<Rightarrow> f y x) None xs = None"
  by (induction xs) auto

lemma map_filter_append: "List.map_filter f (xs @ ys) = List.map_filter f xs @ List.map_filter f ys"
  by (simp add: List.map_filter_def)

lemma map_of_distinct_last:
  assumes "distinct (map f xs)" and "x \<in> set xs"
  shows "map_of (map (\<lambda>y. (f y, g y)) xs) (f x) = Some (g x)"
proof -
  have "distinct (map fst (map (\<lambda>y. (f y, g y)) xs))"
    using assms(1) by (simp add: comp_def)
  moreover have "(f x, g x) \<in> set (map (\<lambda>y. (f y, g y)) xs)"
    using assms(2) by auto
  ultimately show ?thesis by (rule map_of_is_SomeI)
qed

subsection \<open>Sorting by a key\<close>

text \<open>
  \<open>sort.Slice\<close> promises a sorted permutation and nothing about ties: the locale \<open>slice_sort\<close>.
  Where elements with equal keys are equal there is only one such list, so that \<open>sort_key\<close>,
  which is stable, is the function every correct sort computes.
\<close>

lemma mset_map_inj_on:
  assumes "mset xs = mset ys" and "inj_on f (set xs)" and "map f xs = map f ys"
  shows "xs = ys"
  using assms by (metis map_inj_on set_mset_mset Un_absorb)

lemma sort_key_inj:
  assumes perm: "mset ys = mset xs" and sorted: "sorted (map f ys)"
    and inj: "inj_on f (set xs)"
  shows "ys = sort_key f xs"
proof (rule mset_map_inj_on)
  show "mset ys = mset (sort_key f xs)" using perm by simp
  show "inj_on f (set ys)"
    using inj perm by (metis set_mset_mset)
  have "mset (map f ys) = mset (map f (sort_key f xs))"
    using perm by simp
  then show "map f ys = map f (sort_key f xs)"
    using sorted by (metis properties_for_sort sorted_sort_key)
qed

lemma sort_key_unique:
  "mset ys = mset xs \<Longrightarrow> sorted (map f ys) \<Longrightarrow> distinct (map f xs) \<Longrightarrow> ys = sort_key f xs"
  by (rule sort_key_inj) (simp_all add: distinct_map)

lemma sort_key_perm_eq:
  assumes "mset xs = mset ys" and "distinct (map f xs)"
  shows "sort_key f xs = sort_key f ys"
proof (rule sort_key_unique)
  show "mset (sort_key f xs) = mset ys" using assms(1) by simp
  show "sorted (map f (sort_key f xs))" by simp
  have "mset (map f xs) = mset (map f ys)" using assms(1) by simp
  then show "distinct (map f ys)" using assms(2) by (metis mset_eq_imp_distinct_iff)
qed

locale slice_sort =
  fixes key :: "'a \<Rightarrow> 'k :: linorder" and srt :: "'a list \<Rightarrow> 'a list"
  assumes perm: "mset (srt xs) = mset xs" and ordered: "sorted (map key (srt xs))"
begin

lemma set_srt [simp]: "set (srt xs) = set xs"
  using perm [of xs] by (metis set_mset_mset)

lemma determined: "inj_on key (set xs) \<Longrightarrow> srt xs = sort_key key xs"
  by (rule sort_key_inj [OF perm ordered])

end

interpretation stable: slice_sort key "sort_key key" for key :: "'a \<Rightarrow> 'k :: linorder"
  by unfold_locales simp_all

lemma sort_perm_eq: "mset xs = mset ys \<Longrightarrow> sort xs = sort ys"
  by (metis mset_sort properties_for_sort sorted_sort)

end
