(* ===== verification/Go_Strings.thy ===== *)
theory Go_Strings
  imports Go_Prelude
begin

text \<open>
  What the program uses of Go's \<open>strings\<close>, \<open>strconv\<close>, \<open>unicode/utf8\<close> and
  \<open>net/url\<close> packages, on byte strings: splitting and trimming, decimal numbers,
  percent-decoding, rune decoding, and the Go quoting of \<open>%q\<close>.
\<close>

abbreviation byte_of :: "char \<Rightarrow> nat" where
  "byte_of c \<equiv> of_char c"

abbreviation (input) LF :: char where "LF \<equiv> CHR 0x0A"
abbreviation (input) CR :: char where "CR \<equiv> CHR 0x0D"
abbreviation (input) TAB :: char where "TAB \<equiv> CHR 0x09"

subsection \<open>Definitions\<close>

subsubsection \<open>strings.TrimRight, strings.TrimPrefix-style helpers, strings.Split\<close>

definition TrimRight :: "string \<Rightarrow> string \<Rightarrow> string" where
  "TrimRight s cutset = rev (dropWhile (\<lambda>c. c \<in> set cutset) (rev s))"

fun Split :: "string \<Rightarrow> char \<Rightarrow> string list" where
  "Split [] sep = [[]]"
| "Split (c # s) sep =
     (if c = sep then [] # Split s sep
      else (case Split s sep of [] \<Rightarrow> [[c]] | f # fs \<Rightarrow> (c # f) # fs))"

fun Join :: "string list \<Rightarrow> string \<Rightarrow> string" where
  "Join [] sep = []"
| "Join [f] sep = f"
| "Join (f # g # fs) sep = f @ sep @ Join (g # fs) sep"

subsubsection \<open>unicode.IsSpace, strings.TrimSpace, strings.Fields\<close>

text \<open>
  \<open>unicode.IsSpace\<close> holds for TAB, LF, VT, FF, CR, space, U+0085, U+00A0, U+1680,
  U+2000 to U+200A, U+2028, U+2029, U+202F, U+205F and U+3000. \<open>space_len s\<close> is the
  length of the UTF-8 encoding of such a rune at the front of \<open>s\<close>, 0 if there is none.
  The encodings start with a byte that never continues another rune, so scanning byte by
  byte finds exactly the white space that rune decoding finds, from either end.
\<close>

definition ascii_space :: "char \<Rightarrow> bool" where
  "ascii_space c \<longleftrightarrow> byte_of c \<in> {9, 10, 11, 12, 13, 32}"

definition space_len :: "string \<Rightarrow> nat" where
  "space_len s =
     (case s of
        [] \<Rightarrow> 0
      | c # t \<Rightarrow>
          if ascii_space c then 1
          else (case t of
              [] \<Rightarrow> 0
            | d # u \<Rightarrow>
                if byte_of c = 0xC2 then (if byte_of d \<in> {0x85, 0xA0} then 2 else 0)
                else (case u of
                    [] \<Rightarrow> 0
                  | e # _ \<Rightarrow>
                      if (byte_of c, byte_of d, byte_of e) \<in> {(0xE1, 0x9A, 0x80), (0xE2, 0x81, 0x9F), (0xE3, 0x80, 0x80)}
                       \<or> byte_of c = 0xE2 \<and> byte_of d = 0x80
                         \<and> (0x80 \<le> byte_of e \<and> byte_of e \<le> 0x8A \<or> byte_of e \<in> {0xA8, 0xA9, 0xAF})
                      then 3 else 0)))"

text \<open>The string cut into white-space runes (marked) and single other bytes.\<close>

function space_tokens :: "string \<Rightarrow> (bool \<times> string) list" where
  "space_tokens s =
     (case s of
        [] \<Rightarrow> []
      | c # t \<Rightarrow>
          if space_len s = 0 then (False, [c]) # space_tokens t
          else (True, take (space_len s) s) # space_tokens (drop (space_len s) s))"
  by pat_completeness auto
termination
  by (relation "measure length") auto

declare space_tokens.simps [simp del]

definition TrimSpace :: "string \<Rightarrow> string" where
  "TrimSpace s =
     concat (map snd (rev (dropWhile fst (rev (dropWhile fst (space_tokens s))))))"

fun collect_fields :: "string \<Rightarrow> (bool \<times> string) list \<Rightarrow> string list" where
  "collect_fields cur [] = (if cur = [] then [] else [cur])"
| "collect_fields cur ((sp, b) # ts) =
     (if sp then (if cur = [] then collect_fields [] ts else cur # collect_fields [] ts)
      else collect_fields (cur @ b) ts)"

definition Fields :: "string \<Rightarrow> string list" where
  "Fields s = collect_fields [] (space_tokens s)"

subsubsection \<open>strconv: decimal numbers\<close>

datatype num_error = ErrSyntax | ErrRange

definition is_digit :: "char \<Rightarrow> bool" where
  "is_digit c \<longleftrightarrow> 48 \<le> byte_of c \<and> byte_of c \<le> 57"

definition digit_val :: "char \<Rightarrow> nat" where
  "digit_val c = byte_of c - 48"

definition dec_val :: "string \<Rightarrow> nat" where
  "dec_val s = foldl (\<lambda>n c. 10 * n + digit_val c) 0 s"

text \<open>\<open>strconv.ParseUint(s, 10, 64)\<close>: digits only, the value below \<open>2^64\<close>.\<close>

definition ParseUint :: "string \<Rightarrow> num_error + uint64" where
  "ParseUint s =
     (if s = [] \<or> \<not> list_all is_digit s then Inl ErrSyntax
      else if 2 ^ 64 \<le> dec_val s then Inl ErrRange
      else Inr (of_nat (dec_val s)))"

text \<open>
  \<open>strconv.ParseInt(s, 10, 64)\<close> and, on a 64-bit platform, \<open>strconv.Atoi\<close>: an
  optional sign, digits, the value in the range of \<open>int64\<close>.
\<close>

definition ParseInt :: "string \<Rightarrow> num_error + int" where
  "ParseInt s =
     (let neg = (case s of c # _ \<Rightarrow> c = CHR ''-'' | [] \<Rightarrow> False);
          ds = (case s of c # t \<Rightarrow> if c = CHR ''+'' \<or> c = CHR ''-'' then t else s | [] \<Rightarrow> s)
      in if ds = [] \<or> \<not> list_all is_digit ds then Inl ErrSyntax
         else if \<not> neg \<and> 2 ^ 63 \<le> dec_val ds then Inl ErrRange
         else if neg \<and> 2 ^ 63 < dec_val ds then Inl ErrRange
         else Inr (if neg then - int (dec_val ds) else int (dec_val ds)))"

definition Atoi :: "string \<Rightarrow> num_error + int" where
  "Atoi s = ParseInt s"

fun show_nat :: "nat \<Rightarrow> string" where
  "show_nat n = (if n < 10 then [char_of (48 + n)] else show_nat (n div 10) @ [char_of (48 + n mod 10)])"

declare show_nat.simps [simp del]

definition show_int :: "int \<Rightarrow> string" where
  "show_int i = (if i < 0 then CHR ''-'' # show_nat (nat (- i)) else show_nat (nat i))"

subsubsection \<open>net/url: PathUnescape\<close>

definition hex_val :: "char \<Rightarrow> nat option" where
  "hex_val c =
     (if 48 \<le> byte_of c \<and> byte_of c \<le> 57 then Some (byte_of c - 48)
      else if 97 \<le> byte_of c \<and> byte_of c \<le> 102 then Some (byte_of c - 87)
      else if 65 \<le> byte_of c \<and> byte_of c \<le> 70 then Some (byte_of c - 55)
      else None)"

text \<open>\<open>None\<close> is \<open>url.EscapeError\<close>: a \<open>%\<close> not followed by two hexadecimal digits.\<close>

fun PathUnescape :: "string \<Rightarrow> string option" where
  "PathUnescape [] = Some []"
| "PathUnescape (c # s) =
     (if c = CHR ''%'' then
        (case s of
           h # l # t \<Rightarrow>
             (case (hex_val h, hex_val l) of
                (Some a, Some b) \<Rightarrow> map_option (\<lambda>r. char_of (16 * a + b) # r) (PathUnescape t)
              | _ \<Rightarrow> None)
         | _ \<Rightarrow> None)
      else map_option (\<lambda>r. c # r) (PathUnescape s))"

subsubsection \<open>unicode/utf8: runes\<close>

abbreviation RuneError :: nat where "RuneError \<equiv> 0xFFFD"

definition cont_byte :: "nat \<Rightarrow> nat \<Rightarrow> char \<Rightarrow> bool" where
  "cont_byte lo hi c \<longleftrightarrow> lo \<le> byte_of c \<and> byte_of c \<le> hi"

text \<open>
  \<open>utf8.DecodeRuneInString\<close> on a non-empty string: the rune and its width. An invalid
  encoding is \<open>RuneError\<close> of width 1.
\<close>

definition DecodeRune :: "string \<Rightarrow> nat \<times> nat" where
  "DecodeRune s =
     (case s of
        [] \<Rightarrow> (RuneError, 0)
      | b0 # t \<Rightarrow>
          let x = byte_of b0 in
          if x < 0x80 then (x, 1)
          else if 0xC2 \<le> x \<and> x \<le> 0xDF then
            (case t of
               b1 # _ \<Rightarrow> if cont_byte 0x80 0xBF b1 then ((x - 0xC0) * 64 + (byte_of b1 - 0x80), 2)
                         else (RuneError, 1)
             | [] \<Rightarrow> (RuneError, 1))
          else if 0xE0 \<le> x \<and> x \<le> 0xEF then
            (case t of
               b1 # b2 # _ \<Rightarrow>
                 if cont_byte (if x = 0xE0 then 0xA0 else 0x80) (if x = 0xED then 0x9F else 0xBF) b1
                    \<and> cont_byte 0x80 0xBF b2
                 then ((x - 0xE0) * 4096 + (byte_of b1 - 0x80) * 64 + (byte_of b2 - 0x80), 3)
                 else (RuneError, 1)
             | _ \<Rightarrow> (RuneError, 1))
          else if 0xF0 \<le> x \<and> x \<le> 0xF4 then
            (case t of
               b1 # b2 # b3 # _ \<Rightarrow>
                 if cont_byte (if x = 0xF0 then 0x90 else 0x80) (if x = 0xF4 then 0x8F else 0xBF) b1
                    \<and> cont_byte 0x80 0xBF b2 \<and> cont_byte 0x80 0xBF b3
                 then ((x - 0xF0) * 262144 + (byte_of b1 - 0x80) * 4096
                       + (byte_of b2 - 0x80) * 64 + (byte_of b3 - 0x80), 4)
                 else (RuneError, 1)
             | _ \<Rightarrow> (RuneError, 1))
          else (RuneError, 1))"

text \<open>The runes a \<open>for range\<close> loop over a string visits, each with the bytes it covers.\<close>

function runes :: "string \<Rightarrow> (nat \<times> string) list" where
  "runes s =
     (case s of
        [] \<Rightarrow> []
      | c # t \<Rightarrow> (fst (DecodeRune s), take (snd (DecodeRune s)) s)
                # runes (drop (snd (DecodeRune s) - 1) t))"
  by pat_completeness auto
termination
  by (relation "measure length") auto

declare runes.simps [simp del]

subsubsection \<open>strconv.Quote (the verb %q)\<close>

definition hex_digit :: "nat \<Rightarrow> char" where
  "hex_digit n = (if n < 10 then char_of (48 + n) else char_of (87 + n))"

text \<open>
  \<open>strconv.IsPrint\<close>: the printable ASCII and Latin-1 runes are spelled out; for the rest
  of Unicode the table of the Go distribution is the parameter \<open>wide\<close>.
\<close>

definition IsPrint :: "(nat \<Rightarrow> bool) \<Rightarrow> nat \<Rightarrow> bool" where
  "IsPrint wide r =
     (if r < 0x80 then 0x20 \<le> r \<and> r < 0x7F
      else if r < 0x100 then 0xA1 \<le> r \<and> r \<noteq> 0xAD
      else wide r)"

definition escape_code :: "nat \<Rightarrow> char option" where
  "escape_code r =
     (if r = 7 then Some (CHR ''a'') else if r = 8 then Some (CHR ''b'')
      else if r = 12 then Some (CHR ''f'') else if r = 10 then Some (CHR ''n'')
      else if r = 13 then Some (CHR ''r'') else if r = 9 then Some (CHR ''t'')
      else if r = 11 then Some (CHR ''v'') else None)"

definition escape_rune :: "(nat \<Rightarrow> bool) \<Rightarrow> nat \<times> string \<Rightarrow> string" where
  "escape_rune wide rb =
     (let r = fst rb; bs = snd rb in
      if length bs = 1 \<and> r = RuneError then
        (let x = byte_of (hd bs) in [CHR 0x5C, CHR ''x'', hex_digit (x div 16), hex_digit (x mod 16)])
      else if r = 0x22 \<or> r = 0x5C then [CHR 0x5C, char_of r]
      else if IsPrint wide r then bs
      else case escape_code r of
          Some c \<Rightarrow> [CHR 0x5C, c]
        | None \<Rightarrow>
            if r < 0x20 \<or> r = 0x7F then
              [CHR 0x5C, CHR ''x'', hex_digit (r div 16), hex_digit (r mod 16)]
            else if r < 0x10000 then
              [CHR 0x5C, CHR ''u'', hex_digit (r div 4096), hex_digit (r div 256 mod 16),
               hex_digit (r div 16 mod 16), hex_digit (r mod 16)]
            else
              [CHR 0x5C, CHR ''U'', hex_digit (r div 268435456), hex_digit (r div 16777216 mod 16),
               hex_digit (r div 1048576 mod 16), hex_digit (r div 65536 mod 16),
               hex_digit (r div 4096 mod 16), hex_digit (r div 256 mod 16),
               hex_digit (r div 16 mod 16), hex_digit (r mod 16)])"

definition Quote :: "(nat \<Rightarrow> bool) \<Rightarrow> string \<Rightarrow> string" where
  "Quote wide s = [CHR 0x22] @ concat (map (escape_rune wide) (runes s)) @ [CHR 0x22]"

subsection \<open>Splitting and joining\<close>

lemma Split_not_Nil [simp]: "Split s c \<noteq> []"
  by (induction s) (auto split: list.splits)

lemma Split_no_sep: "f \<in> set (Split s c) \<Longrightarrow> c \<notin> set f"
  by (induction s arbitrary: f) (auto split: list.splits if_splits)

lemma Split_single: "c \<notin> set s \<Longrightarrow> Split s c = [s]"
  by (induction s) auto

lemma Split_append: "c \<notin> set a \<Longrightarrow> Split (a @ c # b) c = a # Split b c"
  by (induction a) auto

lemma Split_lines:
  "(\<And>l. l \<in> set ls \<Longrightarrow> c \<notin> set l) \<Longrightarrow> Split (concat (map (\<lambda>l. l @ [c]) ls)) c = ls @ [[]]"
  by (induction ls) (auto simp: Split_append)

lemma Join_Cons: "fs \<noteq> [] \<Longrightarrow> Join (f # fs) sep = f @ sep @ Join fs sep"
  by (cases fs) auto

lemma Join_push: "Join ((c # f) # fs) sep = c # Join (f # fs) sep"
  by (cases fs) auto

lemma Join_Split: "Join (Split s c) [c] = s"
  by (induction s) (auto simp: Join_Cons Join_push split: list.splits)

lemma Split_Join:
  assumes "fs \<noteq> []" and "\<And>f. f \<in> set fs \<Longrightarrow> c \<notin> set f"
  shows "Split (Join fs [c]) c = fs"
  using assms
proof (induction fs)
  case Nil
  then show ?case by simp
next
  case (Cons f fs)
  show ?case
  proof (cases fs)
    case Nil
    with Cons.prems show ?thesis by (simp add: Split_single)
  next
    case (Cons g gs)
    with Cons.IH Cons.prems show ?thesis by (simp add: Join_Cons Split_append)
  qed
qed

lemma TrimRight_append:
  assumes "\<And>c. c \<in> set t \<Longrightarrow> c \<in> set cutset" and "s = [] \<or> last s \<notin> set cutset"
  shows "TrimRight (s @ t) cutset = s"
proof -
  have "dropWhile (\<lambda>c. c \<in> set cutset) (rev t @ rev s) = dropWhile (\<lambda>c. c \<in> set cutset) (rev s)"
    using assms(1) by (induction t rule: rev_induct) auto
  also have "\<dots> = rev s"
    using assms(2) by (cases s rule: rev_cases) auto
  finally show ?thesis by (simp add: TrimRight_def)
qed

lemma TrimRight_id: "s = [] \<or> last s \<notin> set cutset \<Longrightarrow> TrimRight s cutset = s"
  using TrimRight_append [of "[]" cutset s] by simp

subsection \<open>White space\<close>

text \<open>A visible ASCII character is never part of a white-space rune.\<close>

definition visible :: "char \<Rightarrow> bool" where
  "visible c \<longleftrightarrow> 0x20 < byte_of c \<and> byte_of c < 0x7F"

abbreviation visible_string :: "string \<Rightarrow> bool" where
  "visible_string s \<equiv> list_all visible s"

lemma space_len_visible [simp]: "visible c \<Longrightarrow> space_len (c # s) = 0"
  by (auto simp: space_len_def visible_def ascii_space_def split: list.splits)

lemma space_len_ascii: "ascii_space c \<Longrightarrow> space_len (c # s) = 1"
  by (simp add: space_len_def)

lemma space_len_Nil [simp]: "space_len [] = 0"
  by (simp add: space_len_def)

lemma space_tokens_Nil [simp]: "space_tokens [] = []"
  by (simp add: space_tokens.simps)

lemma space_tokens_visible [simp]:
  "visible c \<Longrightarrow> space_tokens (c # s) = (False, [c]) # space_tokens s"
  by (simp add: space_tokens.simps [of "c # s"])

lemma space_tokens_ascii:
  "ascii_space c \<Longrightarrow> space_tokens (c # s) = (True, [c]) # space_tokens s"
  by (simp add: space_tokens.simps [of "c # s"] space_len_ascii)

lemma space_tokens_visible_append:
  "visible_string a \<Longrightarrow> space_tokens (a @ s) = map (\<lambda>c. (False, [c])) a @ space_tokens s"
  by (induction a) auto

lemma space_tokens_visible_string:
  "visible_string a \<Longrightarrow> space_tokens a = map (\<lambda>c. (False, [c])) a"
  using space_tokens_visible_append [of a "[]"] by simp

lemma space_tokens_other:
  "space_len (c # t) = 0 \<Longrightarrow> space_tokens (c # t) = (False, [c]) # space_tokens t"
  by (simp add: space_tokens.simps [of "c # t"])

lemma space_tokens_space:
  "space_len s \<noteq> 0 \<Longrightarrow>
     space_tokens s = (True, take (space_len s) s) # space_tokens (drop (space_len s) s)"
  by (subst space_tokens.simps) (auto split: list.split)

lemma space_tokens_induct [case_names Nil Other Space]:
  assumes "P []"
    and "\<And>c t. space_len (c # t) = 0 \<Longrightarrow> P t \<Longrightarrow> P (c # t)"
    and "\<And>s. space_len s \<noteq> 0 \<Longrightarrow> P (drop (space_len s) s) \<Longrightarrow> P s"
  shows "P s"
proof (induction s rule: space_tokens.induct)
  case (1 s)
  show ?case
  proof (cases "space_len s = 0")
    case True
    with "1.IH"(1) assms(1,2) show ?thesis by (cases s) auto
  next
    case False
    then obtain c t where "s = c # t" by (cases s) auto
    with False "1.IH"(2) have "P (drop (space_len s) s)" by blast
    with False show ?thesis by (rule assms(3))
  qed
qed

lemma concat_space_tokens: "concat (map snd (space_tokens s)) = s"
  by (induction s rule: space_tokens_induct) (simp_all add: space_tokens_other space_tokens_space)

lemma ascii_space_not_visible: "ascii_space c \<Longrightarrow> \<not> visible c"
  by (auto simp: ascii_space_def visible_def)

lemma space_prefix_not_visible: "\<forall>d \<in> set (take (space_len s) s). \<not> visible d"
proof (cases s)
  case (Cons c t)
  show ?thesis
  proof (cases "ascii_space c")
    case True
    then show ?thesis using Cons ascii_space_not_visible by (simp add: space_len_def)
  next
    case nc: False
    have high: "\<not> visible x" if "0x7F \<le> byte_of x" for x using that by (simp add: visible_def)
    show ?thesis
    proof (cases t)
      case Nil
      then show ?thesis using Cons nc by (simp add: space_len_def)
    next
      case t: (Cons d u)
      show ?thesis
      proof (cases "byte_of c = 0xC2")
        case True
        then show ?thesis using nc Cons t by (auto simp: space_len_def intro!: high)
      next
        case nc2: False
        show ?thesis
        proof (cases "space_len s = 0")
          case False
          then obtain e v where u: "u = e # v" and b: "0x7F \<le> byte_of c" "0x7F \<le> byte_of d" "0x7F \<le> byte_of e"
            using nc nc2 Cons t unfolding space_len_def by (cases u) (simp_all split: if_splits, linarith+)
          have "space_len s \<le> 3" using nc nc2 Cons t u by (simp add: space_len_def)
          then have "set (take (space_len s) s) \<subseteq> set (take 3 s)" by (rule set_take_subset_set_take)
          moreover have "set (take 3 s) = {c, d, e}" using Cons t u by simp
          ultimately show ?thesis using high [OF b(1)] high [OF b(2)] high [OF b(3)] by (metis empty_iff insert_iff subsetD)
        qed simp
      qed
    qed
  qed
qed simp

lemma space_token_not_visible:
  "t \<in> set (space_tokens s) \<Longrightarrow> fst t \<Longrightarrow> d \<in> set (snd t) \<Longrightarrow> \<not> visible d"
proof (induction s rule: space_tokens_induct)
  case (Space s)
  have "\<forall>d \<in> set (take (space_len s) s). \<not> visible d" by (rule space_prefix_not_visible)
  with Space show ?case by (auto simp: space_tokens_space)
qed (auto simp: space_tokens_other)

lemma set_dropWhile_keep: "t \<in> set ts \<Longrightarrow> \<not> P t \<Longrightarrow> t \<in> set (dropWhile P ts)"
  by (induction ts) auto

lemma dropWhile_map_False [simp]:
  "dropWhile fst (map (\<lambda>c. (False, f c)) s) = map (\<lambda>c. (False, f c)) s"
  by (cases s) auto

lemma TrimSpace_visible [simp]: "visible_string s \<Longrightarrow> TrimSpace s = s"
  by (simp add: TrimSpace_def space_tokens_visible_string rev_map comp_def)

lemma TrimSpace_ascii_Cons: "ascii_space c \<Longrightarrow> TrimSpace (c # s) = TrimSpace s"
  by (simp add: TrimSpace_def space_tokens_ascii)

lemma TrimSpace_Nil [simp]: "TrimSpace [] = []"
  by (simp add: TrimSpace_def)

lemma TrimSpace_blank: "list_all ascii_space s \<Longrightarrow> TrimSpace s = []"
  by (induction s) (auto simp: TrimSpace_ascii_Cons)

lemma TrimSpace_keeps_visible:
  assumes "c \<in> set s" and "visible c"
  shows "c \<in> set (TrimSpace s)"
proof -
  have "c \<in> set (concat (map snd (space_tokens s)))"
    using assms(1) by (simp add: concat_space_tokens)
  then obtain t where t: "t \<in> set (space_tokens s)" "c \<in> set (snd t)" by auto
  with assms(2) have "\<not> fst t" using space_token_not_visible by blast
  with t(1) have "t \<in> set (rev (dropWhile fst (rev (dropWhile fst (space_tokens s)))))"
    by (simp add: set_dropWhile_keep)
  with t(2) show ?thesis unfolding TrimSpace_def by auto
qed

lemma space_len_append: "space_len s \<noteq> 0 \<Longrightarrow> space_len (s @ v) = space_len s \<and> space_len s \<le> length s"
  by (cases s rule: remdups_adj.cases) (auto simp: space_len_def split: list.splits if_splits)

lemma space_tokens_blank_append:
  "list_all fst (space_tokens u) \<Longrightarrow> list_all ascii_space v \<Longrightarrow> list_all fst (space_tokens (u @ v))"
proof (induction u rule: space_tokens_induct)
  case Nil
  then show ?case by simp (induction v, simp_all add: space_tokens_ascii)
next
  case (Space s)
  have "space_len (s @ v) = space_len s" "space_len s \<le> length s" using space_len_append [OF Space(1)] by simp_all
  then show ?case using Space by (simp add: space_tokens_space)
qed (simp add: space_tokens_other)

lemma space_token_not_Nil: "t \<in> set (space_tokens s) \<Longrightarrow> snd t \<noteq> []"
  by (induction s rule: space_tokens_induct) (auto simp: space_tokens_other space_tokens_space)

lemma TrimSpace_eq_Nil: "TrimSpace s = [] \<longleftrightarrow> list_all fst (space_tokens s)"
proof
  assume none: "TrimSpace s = []"
  show "list_all fst (space_tokens s)"
    unfolding list_all_iff
  proof (rule ballI, rule ccontr)
    fix t assume t: "t \<in> set (space_tokens s)" "\<not> fst t"
    then have "t \<in> set (rev (dropWhile fst (rev (dropWhile fst (space_tokens s)))))" by (simp add: set_dropWhile_keep)
    then have "snd t = []" using none unfolding TrimSpace_def by auto
    then show False using space_token_not_Nil [OF t(1)] by simp
  qed
next
  assume "list_all fst (space_tokens s)"
  then have "dropWhile fst (space_tokens s) = []" by (simp only: dropWhile_eq_Nil_conv list_all_iff)
  then show "TrimSpace s = []" by (simp only: TrimSpace_def rev.simps dropWhile.simps list.map concat.simps)
qed

lemma TrimSpace_append_blank: "list_all ascii_space v \<Longrightarrow> TrimSpace (u @ v) \<noteq> [] \<Longrightarrow> TrimSpace u \<noteq> []"
  using space_tokens_blank_append by (auto simp: TrimSpace_eq_Nil)

lemma collect_fields_word:
  "collect_fields cur (map (\<lambda>c. (False, [c])) a @ ts) = collect_fields (cur @ a) ts"
  by (induction a arbitrary: cur) auto

lemma Fields_word: "visible_string a \<Longrightarrow> a \<noteq> [] \<Longrightarrow> Fields a = [a]"
  using collect_fields_word [of "[]" a "[]"]
  by (simp add: Fields_def space_tokens_visible_string)

lemma Fields_word_Cons:
  "visible_string a \<Longrightarrow> a \<noteq> [] \<Longrightarrow> ascii_space c \<Longrightarrow> Fields (a @ c # s) = a # Fields s"
  by (simp add: Fields_def space_tokens_visible_append collect_fields_word space_tokens_ascii)

lemma Fields_space_Cons: "ascii_space c \<Longrightarrow> Fields (c # s) = Fields s"
  by (simp add: Fields_def space_tokens_ascii)

lemma Fields_Nil [simp]: "Fields [] = []"
  by (simp add: Fields_def)

lemma Fields_nonempty: "f \<in> set (Fields s) \<Longrightarrow> f \<noteq> []"
proof -
  have "\<And>cur. (\<forall>t \<in> set ts. snd t \<noteq> []) \<Longrightarrow> f \<in> set (collect_fields cur ts) \<Longrightarrow> f \<noteq> []" for ts
    by (induction ts) (auto split: if_splits)
  moreover have "\<forall>t \<in> set (space_tokens s). snd t \<noteq> []"
    by (induction s rule: space_tokens_induct)
      (auto simp: space_tokens_other space_tokens_space space_len_def)
  moreover assume "f \<in> set (Fields s)"
  ultimately show ?thesis by (simp add: Fields_def)
qed

subsection \<open>Decimal numbers\<close>

lemma dec_val_snoc: "dec_val (s @ [c]) = 10 * dec_val s + digit_val c"
  by (simp add: dec_val_def)

lemma is_digit_char_of: "(n :: nat) < 10 \<Longrightarrow> is_digit (char_of (48 + n))"
  by (simp add: is_digit_def)

lemma digit_val_char_of: "(n :: nat) < 10 \<Longrightarrow> digit_val (char_of (48 + n)) = n"
  by (simp add: digit_val_def)

lemma show_nat_digits: "list_all is_digit (show_nat n)"
proof (induction n rule: show_nat.induct)
  case (1 n)
  then show ?case
    by (cases "n < 10") (simp_all add: show_nat.simps [of n] is_digit_char_of)
qed

lemma show_nat_not_Nil [simp]: "show_nat n \<noteq> []"
  by (simp add: show_nat.simps [of n])

lemma dec_val_show_nat [simp]: "dec_val (show_nat n) = n"
proof (induction n rule: show_nat.induct)
  case (1 n)
  then show ?case
    by (cases "n < 10")
      (simp_all add: show_nat.simps [of n] dec_val_snoc digit_val_char_of dec_val_def [of "[_]"])
qed

lemma is_digit_visible: "is_digit c \<Longrightarrow> visible c"
  by (simp add: is_digit_def visible_def)

lemma digits_visible: "list_all is_digit s \<Longrightarrow> visible_string s"
  by (auto simp: list_all_iff is_digit_visible)

lemma visible_show_nat [simp]: "visible_string (show_nat n)"
  by (rule digits_visible [OF show_nat_digits])

lemma ParseUint_show_nat: "n < 2 ^ 64 \<Longrightarrow> ParseUint (show_nat n) = Inr (of_nat n)"
  by (simp add: ParseUint_def show_nat_digits)

lemma ParseUint_show_word [simp]: "ParseUint (show_nat (unat w)) = Inr (w :: uint64)"
  using unsigned_less [of w, where ?'a = nat] by (simp add: ParseUint_show_nat)

lemma show_nat_hd: "show_nat n = c # t \<Longrightarrow> is_digit c"
  using show_nat_digits [of n] by simp

lemma ParseInt_show_nat: "n < 2 ^ 63 \<Longrightarrow> ParseInt (show_nat n) = Inr (int n)"
proof -
  assume n: "n < 2 ^ 63"
  obtain c t where ct: "show_nat n = c # t" by (cases "show_nat n") auto
  then have "c \<noteq> CHR ''+''" "c \<noteq> CHR ''-''"
    using show_nat_hd [OF ct] by (auto simp: is_digit_def)
  moreover have "list_all is_digit (c # t)" using show_nat_digits [of n] ct by simp
  moreover have "dec_val (c # t) = n" using dec_val_show_nat [of n] ct by simp
  ultimately show ?thesis using n by (simp add: ParseInt_def ct)
qed

lemma ParseInt_range: "ParseInt s = Inr i \<Longrightarrow> - (2 ^ 63) \<le> i \<and> i < 2 ^ 63"
  by (auto simp: ParseInt_def Let_def split: if_splits list.splits)

lemma visible_not_space: "visible_string s \<Longrightarrow> c \<in> set s \<Longrightarrow> \<not> ascii_space c"
  by (auto simp: list_all_iff visible_def ascii_space_def)

lemma visible_last: "visible_string s \<Longrightarrow> s \<noteq> [] \<Longrightarrow> visible (last s)"
  by (simp add: list_all_iff)

lemma not_visible_control [simp]: "\<not> visible CR" "\<not> visible LF" "\<not> visible TAB"
  by (simp_all add: visible_def)

lemma visible_string_no_control:
  "visible_string s \<Longrightarrow> CR \<notin> set s" "visible_string s \<Longrightarrow> LF \<notin> set s"
  "visible_string s \<Longrightarrow> TAB \<notin> set s"
  by (auto simp: list_all_iff visible_def)

subsection \<open>Percent-decoding\<close>

text \<open>
  An encoder may write any byte as itself (but for the percent sign) or as \<open>%XX\<close> with
  hexadecimal digits of either case; \<open>encodes r s\<close> says that \<open>r\<close> is such a spelling
  of \<open>s\<close>. Decoding undoes every one of them.
\<close>

inductive encodes :: "string \<Rightarrow> string \<Rightarrow> bool" where
  enc_nil: "encodes [] []"
| enc_lit: "c \<noteq> CHR ''%'' \<Longrightarrow> encodes r s \<Longrightarrow> encodes (c # r) (c # s)"
| enc_hex: "hex_val h = Some a \<Longrightarrow> hex_val l = Some b \<Longrightarrow> byte_of c = 16 * a + b \<Longrightarrow>
     encodes r s \<Longrightarrow> encodes (CHR ''%'' # h # l # r) (c # s)"

lemma PathUnescape_encodes: "encodes r s \<Longrightarrow> PathUnescape r = Some s"
proof (induction rule: encodes.induct)
  case (enc_hex h a l b c r s)
  have "char_of (16 * a + b) = c"
    using enc_hex.hyps(3) by (metis char_of_char)
  with enc_hex show ?case by simp
qed auto

lemma PathUnescape_plain: "CHR ''%'' \<notin> set s \<Longrightarrow> PathUnescape s = Some s"
  by (induction s) auto

end
