(* ===== verification/Go_Time.thy ===== *)
theory Go_Time
  imports Go_Prelude
begin

text \<open>
  Go's \<open>time.Time\<close> and \<open>time.Duration\<close> as the program uses them. An instant is the
  number of nanoseconds since January 1 of year 1, 00:00 UTC, which is Go's zero time, so
  \<open>IsZero\<close> is equality with 0. A duration is a number of nanoseconds in the range of
  \<open>int64\<close>; \<open>Sub\<close> saturates at the ends of that range, as Go's does. Every instant of
  the program is made by \<open>time.Now().UTC()\<close> or \<open>time.Unix\<close>, so none carries a
  monotonic reading or a location.
\<close>

type_synonym time = int
type_synonym Duration = int

abbreviation minDuration :: Duration where "minDuration \<equiv> - (2 ^ 63)"
abbreviation maxDuration :: Duration where "maxDuration \<equiv> 2 ^ 63 - 1"

definition Second :: Duration where "Second = 1000000000"

definition IsZero :: "time \<Rightarrow> bool" where
  "IsZero t \<longleftrightarrow> t = 0"

definition Sub :: "time \<Rightarrow> time \<Rightarrow> Duration" where
  "Sub t u = (if t - u < minDuration then minDuration
              else if maxDuration < t - u then maxDuration else t - u)"

definition After :: "time \<Rightarrow> time \<Rightarrow> bool" where
  "After t u \<longleftrightarrow> u < t"

definition wrap_int64 :: "int \<Rightarrow> int" where
  "wrap_int64 x = (x + 2 ^ 63) mod 2 ^ 64 - 2 ^ 63"

text \<open>\<open>time.Unix(sec, 0)\<close>: the seconds since year 1 are an \<open>int64\<close> that wraps.\<close>

definition Unix :: "int \<Rightarrow> time" where
  "Unix sec = wrap_int64 (sec + 62135596800) * Second"

lemma Sub_nonneg [simp]: "0 \<le> Sub t u \<longleftrightarrow> u \<le> t"
  by (auto simp: Sub_def)

lemma Sub_neg [simp]: "Sub t u < 0 \<longleftrightarrow> t < u"
  by (auto simp: Sub_def)

lemma Sub_le: "d < maxDuration \<Longrightarrow> minDuration \<le> d \<Longrightarrow> Sub t u \<le> d \<longleftrightarrow> t \<le> u + d"
  by (auto simp: Sub_def)

lemma Sub_less: "minDuration \<le> d \<Longrightarrow> d < maxDuration \<Longrightarrow> d < Sub t u \<longleftrightarrow> u + d < t"
  by (auto simp: Sub_def)

lemma Sub_self [simp]: "Sub t t = 0"
  by (simp add: Sub_def)

lemma Unix_pos:
  assumes "0 < sec" and "sec < 2 ^ 63 - 62135596800"
  shows "0 < Unix sec" and "Unix sec = (sec + 62135596800) * Second"
proof -
  have "wrap_int64 (sec + 62135596800) = sec + 62135596800"
    using assms by (simp add: wrap_int64_def)
  then show "Unix sec = (sec + 62135596800) * Second" and "0 < Unix sec"
    using assms(1) by (simp_all add: Unix_def Second_def)
qed

end
