(* ===== verification/Store_Types.thy ===== *)
theory Store_Types
  imports Go_Strings Go_Time
begin

text \<open>
  \<open>control-plane/internal/store/store.go\<close>: the row types of the data model. Empty
  strings stand for SQL NULL in the nullable columns, as the file documents.
\<close>

subsection \<open>Definitions\<close>

type_synonym VPNType = string

definition VPNTypeWireGuard :: VPNType where "VPNTypeWireGuard = ''wireguard''"
definition VPNTypeOpenVPN :: VPNType where "VPNTypeOpenVPN = ''openvpn''"
definition VPNTypeLegacy :: VPNType where "VPNTypeLegacy = ''legacy''"

record VPNProfile =
  vp_ID :: string
  vp_Name :: string
  vp_Type :: VPNType
  vp_Config :: string
  vp_SecretRef :: string
  vp_Enabled :: bool
  vp_Created :: time
  vp_Updated :: time

record TargetHost =
  th_ID :: string
  th_PublicAlias :: string
  th_PrivateIP :: string
  th_Port :: int
  th_Protocol :: string
  th_VPNProfileID :: string
  th_HealthCheck :: string
  th_Enabled :: bool
  th_Created :: time
  th_Updated :: time

record ProxyRule =
  pr_ID :: string
  pr_Priority :: int
  pr_MatchHost :: string
  pr_MatchPath :: string
  pr_TargetHostID :: string
  pr_Enabled :: bool
  pr_Created :: time
  pr_Updated :: time

record TargetTunnelTier =
  tt_TargetID :: string
  tt_VPNProfileID :: string
  tt_Tier :: int
  tt_Created :: time

record ProxyUser =
  pu_ID :: string
  pu_Username :: string
  pu_SecretRef :: string
  pu_Role :: string
  pu_Enabled :: bool
  pu_Created :: time
  pu_Updated :: time

record AuditLogEntry =
  au_ID :: int
  au_TS :: time
  au_Actor :: string
  au_Action :: string
  au_Detail :: string

end
