(* ===== verification/Go_Time_Text.thy ===== *)
theory Go_Time_Text
  imports Go_Strings Go_Time
begin

text \<open>
  The RFC 3339 text of an instant, the form in which \<open>encoding/json\<close> writes and reads a
  \<open>time.Time\<close>: \<open>formatRFC3339Nano\<close> (years 0 to 9999, else an error) and
  \<open>parseRFC3339\<close>. The main fact is that parsing undoes formatting.
\<close>

subsection \<open>The calendar\<close>

definition is_leap :: "int \<Rightarrow> bool" where
  "is_leap y \<longleftrightarrow> y mod 4 = 0 \<and> (y mod 100 \<noteq> 0 \<or> y mod 400 = 0)"

definition days_before_year :: "int \<Rightarrow> int" where
  "days_before_year y = 365 * (y - 1) + (y - 1) div 4 - (y - 1) div 100 + (y - 1) div 400"

text \<open>Year and day of the year (from 0) of a day number, by cycles of 400, 100, 4 and 1 years.\<close>

definition split_days :: "int \<Rightarrow> int \<times> int" where
  "split_days d =
     (let n400 = d div 146097; d1 = d mod 146097;
          n100 = min 3 (d1 div 36524); d2 = d1 - 36524 * n100;
          n4 = d2 div 1461; d3 = d2 mod 1461;
          n1 = min 3 (d3 div 365)
      in (400 * n400 + 100 * n100 + 4 * n4 + n1 + 1, d3 - 365 * n1))"

definition month_lengths :: "int \<Rightarrow> int list" where
  "month_lengths y = [31, if is_leap y then 29 else 28, 31, 30, 31, 30, 31, 31, 30, 31, 30, 31]"

text \<open>Month (from 1) and day of the month (from 1), walking the months of a year.\<close>

fun split_yday :: "int list \<Rightarrow> nat \<Rightarrow> int \<Rightarrow> nat \<times> int" where
  "split_yday [] m d = (m, d + 1)"
| "split_yday (l # ls) m d = (if d < l \<or> ls = [] then (m, d + 1) else split_yday ls (Suc m) (d - l))"

definition days_before_month :: "int \<Rightarrow> nat \<Rightarrow> int" where
  "days_before_month y m = sum_list (take (m - 1) (month_lengths y))"

subsection \<open>Text\<close>

fun digits :: "nat \<Rightarrow> nat \<Rightarrow> string" where
  "digits 0 n = []"
| "digits (Suc w) n = digits w (n div 10) @ [char_of (48 + n mod 10)]"

definition frac_text :: "nat \<Rightarrow> string" where
  "frac_text ns = (if ns = 0 then [] else CHR ''.'' # TrimRight (digits 9 ns) ''0'')"

definition formatRFC3339Nano :: "time \<Rightarrow> string option" where
  "formatRFC3339Nano t =
     (let secs = t div 1000000000; ns = nat (t mod 1000000000);
          (y, yd) = split_days (secs div 86400); sod = nat (secs mod 86400);
          (m, d) = split_yday (month_lengths y) 1 yd
      in if y < 0 \<or> 9999 < y then None
         else Some (digits 4 (nat y) @ ''-'' @ digits 2 m @ ''-'' @ digits 2 (nat d) @ ''T''
           @ digits 2 (sod div 3600) @ '':'' @ digits 2 (sod div 60 mod 60) @ '':''
           @ digits 2 (sod mod 60) @ frac_text ns @ ''Z''))"

text \<open>A fixed-width number within bounds, and the text after it.\<close>

definition take_num :: "nat \<Rightarrow> nat \<Rightarrow> nat \<Rightarrow> string \<Rightarrow> (nat \<times> string) option" where
  "take_num w lo hi s =
     (let ds = take w s in
      if length ds = w \<and> list_all is_digit ds \<and> lo \<le> dec_val ds \<and> dec_val ds \<le> hi
      then Some (dec_val ds, drop w s) else None)"

definition take_chr :: "char \<Rightarrow> string \<Rightarrow> string option" where
  "take_chr c s = (case s of d # t \<Rightarrow> if d = c then Some t else None | [] \<Rightarrow> None)"

definition take_frac :: "string \<Rightarrow> nat \<times> string" where
  "take_frac s =
     (case s of
        p # q # t \<Rightarrow>
          if p = CHR ''.'' \<and> is_digit q then
            (let ds = take 9 (takeWhile is_digit (q # t))
             in (dec_val ds * 10 ^ (9 - length ds), dropWhile is_digit (q # t)))
          else (0, s)
      | _ \<Rightarrow> (0, s))"

definition take_zone :: "string \<Rightarrow> int option" where
  "take_zone s =
     (if s = ''Z'' then Some 0
      else if length s \<noteq> 6 \<or> (hd s \<noteq> CHR ''-'' \<and> hd s \<noteq> CHR ''+'') then None
      else Option.bind (take_num 2 0 23 (tl s)) (\<lambda>(h, s1).
           Option.bind (take_chr (CHR '':'') s1) (\<lambda>s2.
           Option.bind (take_num 2 0 59 s2) (\<lambda>(mi, _).
           Some ((if hd s = CHR ''-'' then -1 else 1) * int ((h * 60 + mi) * 60))))))"

definition parseRFC3339 :: "string \<Rightarrow> time option" where
  "parseRFC3339 s =
     Option.bind (take_num 4 0 9999 s) (\<lambda>(y, s).
     Option.bind (take_chr (CHR ''-'') s) (\<lambda>s.
     Option.bind (take_num 2 1 12 s) (\<lambda>(m, s).
     Option.bind (take_chr (CHR ''-'') s) (\<lambda>s.
     Option.bind (take_num 2 1 (nat (month_lengths (int y) ! (m - 1))) s) (\<lambda>(d, s).
     Option.bind (take_chr (CHR ''T'') s) (\<lambda>s.
     Option.bind (take_num 2 0 23 s) (\<lambda>(h, s).
     Option.bind (take_chr (CHR '':'') s) (\<lambda>s.
     Option.bind (take_num 2 0 59 s) (\<lambda>(mi, s).
     Option.bind (take_chr (CHR '':'') s) (\<lambda>s.
     Option.bind (take_num 2 0 59 s) (\<lambda>(sec, s).
     let (ns, s) = take_frac s in
     Option.bind (take_zone s) (\<lambda>off.
     Some ((((days_before_year (int y) + days_before_month (int y) m + int d - 1) * 86400
             + int (h * 3600 + mi * 60 + sec)) - off) * 1000000000 + int ns)))))))))))))"

subsection \<open>The calendar is consistent\<close>

lemma is_leap_cycle:
  assumes "y = 400 * a + 100 * b + 4 * (c + 1)" and "c = 24 \<longrightarrow> b = 3" and "0 \<le> c" and "c \<le> 24"
  shows "is_leap y"
proof (cases "c = 24")
  case True
  with assms(1,2) have "y = 400 * (a + 1)" by simp
  then show ?thesis by (simp add: is_leap_def)
next
  case False
  then have "4 * (c + 1) < 100" using assms(4) by simp
  moreover have "y = 4 * (c + 1) + (4 * a + b) * 100" using assms(1) by simp
  then have "y mod 100 = 4 * (c + 1) mod 100" by (metis mod_mult_self1)
  ultimately have "y mod 100 = 4 * (c + 1)" using assms(3) by simp
  then show ?thesis using assms by (simp add: is_leap_def)
qed

lemma split_days_days:
  assumes "split_days d = (y, yd)"
  shows "days_before_year y + yd = d" and "0 \<le> yd" and "yd < (if is_leap y then 366 else 365)"
proof -
  define a where "a = d div 146097"
  define d1 where "d1 = d mod 146097"
  define b where "b = min 3 (d1 div 36524)"
  define d2 where "d2 = d1 - 36524 * b"
  define c where "c = d2 div 1461"
  define d3 where "d3 = d2 mod 1461"
  define e where "e = min 3 (d3 div 365)"
  have "split_days d = (400 * a + 100 * b + 4 * c + e + 1, d3 - 365 * e)"
    unfolding split_days_def Let_def a_def d1_def b_def d2_def c_def d3_def e_def by (rule refl)
  then have y: "y - 1 = 400 * a + 100 * b + 4 * c + e" and yd: "yd = d3 - 365 * e" using assms by simp_all
  have d: "d = 146097 * a + d1" "0 \<le> d1" "d1 < 146097"
    by (simp_all add: a_def d1_def)
  have b: "0 \<le> b" "b \<le> 3" "0 \<le> d2" "d2 < 36525" "b < 3 \<Longrightarrow> d2 < 36524"
    using d(2,3) by (auto simp: b_def d2_def min_def)
  have d2: "d2 = 1461 * c + d3" "0 \<le> d3" "d3 < 1461" by (simp_all add: c_def d3_def)
  have c: "0 \<le> c" "c \<le> 24" "b < 3 \<Longrightarrow> c = 24 \<Longrightarrow> d3 < 1460" using b d2 by auto
  have e: "0 \<le> e" "e \<le> 3" "0 \<le> yd" "yd < 366" "e < 3 \<Longrightarrow> yd < 365"
    using d2 yd by (auto simp: e_def min_def)
  have q4: "(y - 1) div 4 = 100 * a + 25 * b + c" using y e by simp
  have q100: "(y - 1) div 100 = 4 * a + b" using y c e by simp
  have q400: "(y - 1) div 400 = a" using y b c e by simp
  show "days_before_year y + yd = d"
    unfolding days_before_year_def q4 q100 q400 using y yd d d2 by (simp add: d2_def)
  show "0 \<le> yd" by (rule e(3))
  show "yd < (if is_leap y then 366 else 365)"
  proof (cases "e < 3 \<or> c = 24 \<and> b < 3")
    case True
    then have "yd < 365" using e(5) c(3) yd e(2) by fastforce
    then show ?thesis by simp
  next
    case False
    then have "y = 400 * a + 100 * b + 4 * (c + 1)" "c = 24 \<longrightarrow> b = 3" using y e b by auto
    from is_leap_cycle [OF this c(1,2)] show ?thesis using e(4) by simp
  qed
qed

lemma split_yday_sum:
  assumes "split_yday ls m d = (m', d')" and "0 \<le> d" and "d < sum_list ls" and "ls \<noteq> []"
  shows "m \<le> m' \<and> m' < m + length ls \<and> sum_list (take (m' - m) ls) + d' = d + 1
    \<and> 1 \<le> d' \<and> d' \<le> ls ! (m' - m)"
  using assms
proof (induction ls m d arbitrary: m' d' rule: split_yday.induct)
  case (1 m d)
  then show ?case by simp
next
  case (2 l ls m d)
  show ?case
  proof (cases "d < l \<or> ls = []")
    case True
    with 2 show ?thesis by auto
  next
    case False
    with 2 have "Suc m \<le> m' \<and> m' < Suc m + length ls \<and> sum_list (take (m' - Suc m) ls) + d' = d - l + 1
      \<and> 1 \<le> d' \<and> d' \<le> ls ! (m' - Suc m)"
      by auto
    moreover from this have "m' - m = Suc (m' - Suc m)" by linarith
    ultimately show ?thesis by auto
  qed
qed

lemma sum_month_lengths: "sum_list (month_lengths y) = (if is_leap y then 366 else 365)"
  by (simp add: month_lengths_def)

subsection \<open>Numbers in fixed width\<close>

lemma length_digits [simp]: "length (digits w n) = w"
  by (induction w arbitrary: n) auto

lemma digits_are_digits: "list_all is_digit (digits w n)"
  by (induction w arbitrary: n) (auto simp: is_digit_char_of)

lemma dec_val_digits: "dec_val (digits w n) = n mod 10 ^ w"
proof (induction w arbitrary: n)
  case 0
  then show ?case by (simp add: dec_val_def)
next
  case (Suc w)
  have "dec_val (digits (Suc w) n) = 10 * (n div 10 mod 10 ^ w) + n mod 10"
    by (simp add: dec_val_snoc Suc.IH digit_val_char_of)
  also have "\<dots> = n mod 10 ^ Suc w"
    by (simp add: mod_mult2_eq)
  finally show ?case .
qed

lemma take_num_digits:
  "n < 10 ^ w \<Longrightarrow> lo \<le> n \<Longrightarrow> n \<le> hi \<Longrightarrow> take_num w lo hi (digits w n @ s) = Some (n, s)"
  by (simp add: take_num_def digits_are_digits dec_val_digits)

lemma take_chr_Cons [simp]: "take_chr c (c # s) = Some s"
  by (simp add: take_chr_def)

lemma dec_val_trim_zeros:
  "dec_val (TrimRight s ''0'') * 10 ^ (length s - length (TrimRight s ''0'')) = dec_val s"
proof (induction s rule: rev_induct)
  case Nil
  then show ?case by (simp add: TrimRight_def)
next
  case (snoc c s)
  show ?case
  proof (cases "c = CHR ''0''")
    case True
    then have t: "TrimRight (s @ [c]) ''0'' = TrimRight s ''0''" by (simp add: TrimRight_def)
    have le: "length (TrimRight s ''0'') \<le> length s"
      by (simp add: TrimRight_def) (metis length_dropWhile_le length_rev)
    have "dec_val (TrimRight s ''0'') * 10 ^ (length (s @ [c]) - length (TrimRight s ''0''))
        = 10 * dec_val s"
      using snoc.IH le by (simp add: Suc_diff_le mult.left_commute)
    then show ?thesis using True t by (simp add: dec_val_snoc digit_val_def)
  next
    case False
    then show ?thesis by (simp add: TrimRight_def)
  qed
qed

lemma TrimRight_prefix: "\<exists>t. s = TrimRight s cs @ t"
proof -
  have "rev s = takeWhile (\<lambda>c. c \<in> set cs) (rev s) @ dropWhile (\<lambda>c. c \<in> set cs) (rev s)"
    by simp
  then have "s = rev (dropWhile (\<lambda>c. c \<in> set cs) (rev s)) @ rev (takeWhile (\<lambda>c. c \<in> set cs) (rev s))"
    by (metis rev_append rev_rev_ident)
  then show ?thesis unfolding TrimRight_def by blast
qed

lemma take_frac_text:
  assumes "ns < 10 ^ 9"
  shows "take_frac (frac_text ns @ ''Z'') = (ns, ''Z'')"
proof (cases "ns = 0")
  case True
  then show ?thesis by (simp add: frac_text_def take_frac_def)
next
  case False
  define ds where "ds = TrimRight (digits 9 ns) ''0''"
  obtain t where t: "digits 9 ns = ds @ t" using TrimRight_prefix unfolding ds_def by blast
  have all: "list_all is_digit ds"
    using digits_are_digits [of 9 ns] t by (simp add: list_all_append)
  have len: "length ds \<le> 9" using t by (metis length_digits length_append le_add1)
  have val: "dec_val ds * 10 ^ (9 - length ds) = ns"
    using dec_val_trim_zeros [of "digits 9 ns"] assms by (simp add: dec_val_digits ds_def)
  have ne: "ds \<noteq> []"
    using val False by (auto simp: dec_val_def)
  then obtain q u where qu: "ds = q # u" by (cases ds) auto
  have z: "\<not> is_digit (CHR ''Z'')" by (simp add: is_digit_def)
  have tw: "takeWhile is_digit (ds @ ''Z'') = ds" "dropWhile is_digit (ds @ ''Z'') = ''Z''"
    using all z by (simp_all add: takeWhile_append dropWhile_append list_all_iff)
  show ?thesis
    using False all tw len val qu
    by (simp add: frac_text_def take_frac_def ds_def [symmetric] Let_def)
qed

subsection \<open>Parsing undoes formatting\<close>

lemma month_lengths_31: "1 \<le> m \<Longrightarrow> m < 13 \<Longrightarrow> month_lengths y ! (m - 1) \<le> 31"
proof -
  assume "1 \<le> m" "m < 13"
  then have "month_lengths y ! (m - 1) \<in> set (month_lengths y)"
    by (intro nth_mem) (simp add: month_lengths_def)
  moreover have "\<forall>l \<in> set (month_lengths y). l \<le> 31" by (simp add: month_lengths_def)
  ultimately show ?thesis by blast
qed

lemma hours_minutes_seconds: "(s div 3600) * 3600 + (s div 60 mod 60) * 60 + s mod 60 = (s :: nat)"
proof -
  have "s div 3600 = s div 60 div 60" by (simp add: div_mult2_eq [symmetric])
  then have "(s div 3600) * 60 + s div 60 mod 60 = s div 60" by (simp add: mult.commute)
  then have "((s div 3600) * 60 + s div 60 mod 60) * 60 + s mod 60 = s" by simp
  then show ?thesis by (simp add: algebra_simps)
qed

lemma parse_formatRFC3339Nano:
  assumes "formatRFC3339Nano t = Some s"
  shows "parseRFC3339 s = Some t"
proof -
  define secs where "secs = t div 1000000000"
  define ns where "ns = nat (t mod 1000000000)"
  define sod where "sod = nat (secs mod 86400)"
  obtain y yd where sd: "split_days (secs div 86400) = (y, yd)" by fastforce
  obtain m d where sm: "split_yday (month_lengths y) 1 yd = (m, d)" by fastforce
  have y: "0 \<le> y" "y \<le> 9999"
    and s: "s = digits 4 (nat y) @ ''-'' @ digits 2 m @ ''-'' @ digits 2 (nat d) @ ''T''
           @ digits 2 (sod div 3600) @ '':'' @ digits 2 (sod div 60 mod 60) @ '':''
           @ digits 2 (sod mod 60) @ frac_text ns @ ''Z''"
    using assms
    by (auto simp: formatRFC3339Nano_def secs_def [symmetric] ns_def [symmetric] sod_def [symmetric]
        sd sm [simplified] Let_def split: if_splits)
  have yd: "days_before_year y + yd = secs div 86400" "0 \<le> yd" "yd < sum_list (month_lengths y)"
    using split_days_days [OF sd] by (simp_all add: sum_month_lengths)
  have md: "1 \<le> m" "m < 13" "sum_list (take (m - 1) (month_lengths y)) + d = yd + 1"
    "1 \<le> d" "d \<le> month_lengths y ! (m - 1)"
    using split_yday_sum [OF sm yd(2,3)] by (auto simp: month_lengths_def)
  have d31: "d \<le> 31" using md(5) month_lengths_31 [OF md(1,2), of y] by simp
  have sod: "sod < 86400" "int sod = secs mod 86400" by (simp_all add: sod_def nat_less_iff)
  have ns: "ns < 10 ^ 9" "int ns = t mod 1000000000" by (simp_all add: ns_def nat_less_iff)
  have hms: "(sod div 3600) * 3600 + (sod div 60 mod 60) * 60 + sod mod 60 = sod" by (rule hours_minutes_seconds)
  have day: "days_before_year y + days_before_month y m + d - 1 = secs div 86400"
    using yd(1) md(3) by (simp add: days_before_month_def)
  have "parseRFC3339 s =
      Some (((days_before_year y + days_before_month y m + d - 1) * 86400
        + int ((sod div 3600) * 3600 + (sod div 60 mod 60) * 60 + sod mod 60)) * 1000000000 + int ns)"
    using y md d31 sod(1) ns(1)
    by (simp add: s parseRFC3339_def take_num_digits take_frac_text take_zone_def nat_less_iff nat_le_iff)
  also have "\<dots> = Some ((secs div 86400 * 86400 + secs mod 86400) * 1000000000 + t mod 1000000000)"
    by (simp only: day hms sod(2) ns(2))
  also have "\<dots> = Some t"
    by (simp add: secs_def)
  finally show ?thesis .
qed

end
