(* ===== verification/Go_Json.thy ===== *)
theory Go_Json
  imports Go_Strings Go_Time_Text
begin

text \<open>
  What the program uses of \<open>encoding/json\<close>: the parser of JSON text, the compact
  printer with Go's escaping, and the rules by which a document fills a struct (fields
  matched exactly, else without case; unknown fields skipped or refused; \<open>null\<close> leaves
  a field alone; a value of the wrong kind is an error). Number literals are kept as text,
  as \<open>json.Number\<close> does, and converted where a field is decoded. The limit of 10000
  nested values that Go's scanner has is not modelled.
\<close>

subsection \<open>Definitions\<close>

datatype json =
    JNull
  | JBool bool
  | JNum string
  | JStr string
  | JArr "json list"
  | JObj "(string \<times> json) list"

subsubsection \<open>Strings\<close>

definition encode_rune :: "nat \<Rightarrow> string" where
  "encode_rune r =
     (if r < 0x80 then [char_of r]
      else if r < 0x800 then [char_of (0xC0 + r div 64), char_of (0x80 + r mod 64)]
      else if r < 0x10000 then
        [char_of (0xE0 + r div 4096), char_of (0x80 + r div 64 mod 64), char_of (0x80 + r mod 64)]
      else
        [char_of (0xF0 + r div 262144), char_of (0x80 + r div 4096 mod 64),
         char_of (0x80 + r div 64 mod 64), char_of (0x80 + r mod 64)])"

definition getu4 :: "string \<Rightarrow> nat option" where
  "getu4 s =
     (case s of
        a # b # c # d # _ \<Rightarrow>
          (case (hex_val a, hex_val b, hex_val c, hex_val d) of
             (Some w, Some x, Some y, Some z) \<Rightarrow> Some (4096 * w + 256 * x + 16 * y + z)
           | _ \<Rightarrow> None)
      | _ \<Rightarrow> None)"

definition is_surrogate :: "nat \<Rightarrow> bool" where
  "is_surrogate r \<longleftrightarrow> 0xD800 \<le> r \<and> r < 0xE000"

text \<open>
  The rune of a \<open>\u\<close> escape whose hexadecimal digits start \<open>s\<close>, and how many bytes of
  \<open>s\<close> it takes: a surrogate joins the escape after it, and is U+FFFD when it cannot.
\<close>

definition unescape_u :: "string \<Rightarrow> (nat \<times> nat) option" where
  "unescape_u s =
     (case getu4 s of
        None \<Rightarrow> None
      | Some r \<Rightarrow>
          if \<not> is_surrogate r then Some (r, 4)
          else (case drop 4 s of
              c # d # t \<Rightarrow>
                (case getu4 t of
                   Some r1 \<Rightarrow>
                     if c = CHR 0x5C \<and> d = CHR ''u'' \<and> r < 0xDC00 \<and> 0xDC00 \<le> r1 \<and> r1 < 0xE000
                     then Some (0x10000 + (r - 0xD800) * 1024 + (r1 - 0xDC00), 10)
                     else Some (RuneError, 4)
                 | None \<Rightarrow> Some (RuneError, 4))
            | _ \<Rightarrow> Some (RuneError, 4)))"

definition simple_escape :: "char \<Rightarrow> char option" where
  "simple_escape c =
     (if c = CHR 0x22 \<or> c = CHR 0x5C \<or> c = CHR ''/'' then Some c
      else if c = CHR ''b'' then Some (CHR 0x08) else if c = CHR ''f'' then Some (CHR 0x0C)
      else if c = CHR ''n'' then Some (CHR 0x0A) else if c = CHR ''r'' then Some (CHR 0x0D)
      else if c = CHR ''t'' then Some (CHR 0x09) else None)"

text \<open>The characters of a string literal after its opening quote, and the text after it.\<close>

function (sequential) parse_chars :: "string \<Rightarrow> (string \<times> string) option" where
  "parse_chars [] = None"
| "parse_chars (c # s) =
     (if c = CHR 0x22 then Some ([], s)
      else if byte_of c < 0x20 then None
      else if c = CHR 0x5C then
        (case s of
           [] \<Rightarrow> None
         | e # t \<Rightarrow>
             if e = CHR ''u'' then
               (case unescape_u t of
                  None \<Rightarrow> None
                | Some (r, n) \<Rightarrow>
                    map_option (\<lambda>(str, rest). (encode_rune r @ str, rest)) (parse_chars (drop n t)))
             else (case simple_escape e of
                  None \<Rightarrow> None
                | Some d \<Rightarrow> map_option (\<lambda>(str, rest). (d # str, rest)) (parse_chars t)))
      else
        (let (r, n) = DecodeRune (c # s) in
         map_option (\<lambda>(str, rest). ((if r = RuneError \<and> n = 1 then encode_rune RuneError
                                    else take n (c # s)) @ str, rest))
           (parse_chars (drop (n - 1) s))))"
  by pat_completeness auto
termination
  by (relation "measure length") auto

definition print_rune :: "nat \<times> string \<Rightarrow> string" where
  "print_rune rb =
     (let r = fst rb; bs = snd rb in
      if r < 0x80 then
        (if r = 0x22 \<or> r = 0x5C then [CHR 0x5C, char_of r]
         else if r = 8 then [CHR 0x5C, CHR ''b''] else if r = 12 then [CHR 0x5C, CHR ''f'']
         else if r = 10 then [CHR 0x5C, CHR ''n''] else if r = 13 then [CHR 0x5C, CHR ''r'']
         else if r = 9 then [CHR 0x5C, CHR ''t'']
         else if r < 0x20 \<or> r = 0x3C \<or> r = 0x3E \<or> r = 0x26 then
           [CHR 0x5C, CHR ''u'', CHR ''0'', CHR ''0'', hex_digit (r div 16), hex_digit (r mod 16)]
         else [char_of r])
      else if r = RuneError \<and> length bs = 1 then
        [CHR 0x5C, CHR ''u'', CHR ''f'', CHR ''f'', CHR ''f'', CHR ''d'']
      else if r = 0x2028 \<or> r = 0x2029 then
        [CHR 0x5C, CHR ''u'', CHR ''2'', CHR ''0'', CHR ''2'', hex_digit (r mod 16)]
      else bs)"

definition print_string :: "string \<Rightarrow> string" where
  "print_string s = [CHR 0x22] @ concat (map print_rune (runes s)) @ [CHR 0x22]"

subsubsection \<open>Numbers\<close>

definition lex_int :: "string \<Rightarrow> (string \<times> string) option" where
  "lex_int s =
     (case s of
        [] \<Rightarrow> None
      | c # t \<Rightarrow> if c = CHR ''0'' then Some ([c], t)
                else if is_digit c then Some (takeWhile is_digit s, dropWhile is_digit s) else None)"

definition lex_digits :: "string \<Rightarrow> (string \<times> string) option" where
  "lex_digits s =
     (if takeWhile is_digit s = [] then None else Some (takeWhile is_digit s, dropWhile is_digit s))"

definition lex_frac :: "string \<Rightarrow> (string \<times> string) option" where
  "lex_frac s =
     (case s of
        c # t \<Rightarrow> if c = CHR ''.'' then map_option (\<lambda>(ds, r). (c # ds, r)) (lex_digits t) else Some ([], s)
      | [] \<Rightarrow> Some ([], s))"

definition lex_exp :: "string \<Rightarrow> (string \<times> string) option" where
  "lex_exp s =
     (case s of
        c # t \<Rightarrow>
          if c = CHR ''e'' \<or> c = CHR ''E'' then
            (case t of
               d # u \<Rightarrow> if d = CHR ''+'' \<or> d = CHR ''-''
                        then map_option (\<lambda>(ds, r). (c # d # ds, r)) (lex_digits u)
                        else map_option (\<lambda>(ds, r). (c # ds, r)) (lex_digits t)
             | [] \<Rightarrow> None)
          else Some ([], s)
      | [] \<Rightarrow> Some ([], s))"

definition lex_number :: "string \<Rightarrow> (string \<times> string) option" where
  "lex_number s =
     (let (sg, s0) = (case s of c # t \<Rightarrow> if c = CHR ''-'' then ([c], t) else ([], s) | [] \<Rightarrow> ([], s)) in
      Option.bind (lex_int s0) (\<lambda>(i, s1).
      Option.bind (lex_frac s1) (\<lambda>(f, s2).
      Option.bind (lex_exp s2) (\<lambda>(e, s3).
      Some (sg @ i @ f @ e, s3)))))"

subsubsection \<open>Values\<close>

definition json_space :: "char \<Rightarrow> bool" where
  "json_space c \<longleftrightarrow> byte_of c \<in> {9, 10, 13, 32}"

definition skip_ws :: "string \<Rightarrow> string" where
  "skip_ws s = dropWhile json_space s"

definition lex_word :: "string \<Rightarrow> json \<Rightarrow> string \<Rightarrow> (json \<times> string) option" where
  "lex_word w v s = (if take (length w) s = w then Some (v, drop (length w) s) else None)"

text \<open>
  The fuel bounds nesting and list lengths; every call that recurses has read a byte, so
  the length of the text is enough (\<open>parse_print\<close> below).
\<close>

fun parse_value :: "nat \<Rightarrow> string \<Rightarrow> (json \<times> string) option"
  and parse_members :: "nat \<Rightarrow> string \<Rightarrow> ((string \<times> json) list \<times> string) option"
  and parse_elems :: "nat \<Rightarrow> string \<Rightarrow> (json list \<times> string) option" where
  "parse_value 0 s = None"
| "parse_value (Suc n) s =
     (case skip_ws s of
        [] \<Rightarrow> None
      | c # r \<Rightarrow>
          if c = CHR 0x22 then map_option (\<lambda>(str, r1). (JStr str, r1)) (parse_chars r)
          else if c = CHR ''{'' then
            (case skip_ws r of
               d # r1 \<Rightarrow> if d = CHR ''}'' then Some (JObj [], r1)
                         else map_option (\<lambda>(kvs, r2). (JObj kvs, r2)) (parse_members n r)
             | [] \<Rightarrow> None)
          else if c = CHR ''['' then
            (case skip_ws r of
               d # r1 \<Rightarrow> if d = CHR '']'' then Some (JArr [], r1)
                         else map_option (\<lambda>(vs, r2). (JArr vs, r2)) (parse_elems n r)
             | [] \<Rightarrow> None)
          else if c = CHR ''t'' then lex_word ''true'' (JBool True) (c # r)
          else if c = CHR ''f'' then lex_word ''false'' (JBool False) (c # r)
          else if c = CHR ''n'' then lex_word ''null'' JNull (c # r)
          else map_option (\<lambda>(lit, r1). (JNum lit, r1)) (lex_number (c # r)))"
| "parse_members 0 s = None"
| "parse_members (Suc n) s =
     (case skip_ws s of
        [] \<Rightarrow> None
      | c # r \<Rightarrow>
          if c \<noteq> CHR 0x22 then None
          else Option.bind (parse_chars r) (\<lambda>(k, r1).
            (case skip_ws r1 of
               [] \<Rightarrow> None
             | d # r2 \<Rightarrow>
                 if d \<noteq> CHR '':'' then None
                 else Option.bind (parse_value n r2) (\<lambda>(v, r3).
                   (case skip_ws r3 of
                      [] \<Rightarrow> None
                    | e # r4 \<Rightarrow>
                        if e = CHR '','' then map_option (\<lambda>(kvs, r5). ((k, v) # kvs, r5)) (parse_members n r4)
                        else if e = CHR ''}'' then Some ([(k, v)], r4) else None)))))"
| "parse_elems 0 s = None"
| "parse_elems (Suc n) s =
     Option.bind (parse_value n s) (\<lambda>(v, r1).
       (case skip_ws r1 of
          [] \<Rightarrow> None
        | e # r2 \<Rightarrow>
            if e = CHR '','' then map_option (\<lambda>(vs, r3). (v # vs, r3)) (parse_elems n r2)
            else if e = CHR '']'' then Some ([v], r2) else None))"

text \<open>A whole text, as \<open>json.Unmarshal\<close> takes it, and the first value of a stream, as \<open>Decoder.Decode\<close> does.\<close>

definition decode_first :: "string \<Rightarrow> json option" where
  "decode_first s = map_option fst (parse_value (Suc (length s)) s)"

definition parse_json :: "string \<Rightarrow> json option" where
  "parse_json s =
     Option.bind (parse_value (Suc (length s)) s) (\<lambda>(v, r). if skip_ws r = [] then Some v else None)"

fun print_json :: "json \<Rightarrow> string" where
  "print_json JNull = ''null''"
| "print_json (JBool b) = (if b then ''true'' else ''false'')"
| "print_json (JNum lit) = lit"
| "print_json (JStr s) = print_string s"
| "print_json (JArr vs) = ''['' @ Join (map print_json vs) '','' @ '']''"
| "print_json (JObj kvs) =
     ''{'' @ Join (map (\<lambda>kv. print_string (fst kv) @ '':'' @ print_json (snd kv)) kvs) '','' @ ''}''"

subsubsection \<open>Filling a struct\<close>

definition fold_rune :: "nat \<times> string \<Rightarrow> nat" where
  "fold_rune rb =
     (let r = fst rb in
      if 97 \<le> r \<and> r \<le> 122 then r - 32 else if r = 0x17F then 83 else if r = 0x212A then 75 else r)"

definition fold_name :: "string \<Rightarrow> nat list" where
  "fold_name k = map fold_rune (runes k)"

type_synonym 'a field_decoder = "json \<Rightarrow> 'a \<Rightarrow> 'a option"

definition find_field :: "(string \<times> 'a field_decoder) list \<Rightarrow> string \<Rightarrow> 'a field_decoder option" where
  "find_field fds k =
     (case map_of fds k of
        Some f \<Rightarrow> Some f
      | None \<Rightarrow> map_option snd (find (\<lambda>fd. fold_name (fst fd) = fold_name k) fds))"

fun fill_fields :: "bool \<Rightarrow> (string \<times> 'a field_decoder) list \<Rightarrow> (string \<times> json) list \<Rightarrow> 'a \<Rightarrow> 'a option" where
  "fill_fields strict fds [] x = Some x"
| "fill_fields strict fds ((k, v) # kvs) x =
     (case find_field fds k of
        None \<Rightarrow> if strict then None else fill_fields strict fds kvs x
      | Some f \<Rightarrow> Option.bind (f v x) (fill_fields strict fds kvs))"

definition fill_struct :: "bool \<Rightarrow> (string \<times> 'a field_decoder) list \<Rightarrow> 'a \<Rightarrow> json \<Rightarrow> 'a option" where
  "fill_struct strict fds x v =
     (case v of JNull \<Rightarrow> Some x | JObj kvs \<Rightarrow> fill_fields strict fds kvs x | _ \<Rightarrow> None)"

definition dec_string :: "(string \<Rightarrow> 'a \<Rightarrow> 'a) \<Rightarrow> 'a field_decoder" where
  "dec_string upd v x = (case v of JNull \<Rightarrow> Some x | JStr s \<Rightarrow> Some (upd s x) | _ \<Rightarrow> None)"

definition dec_bool :: "(bool \<Rightarrow> 'a \<Rightarrow> 'a) \<Rightarrow> 'a field_decoder" where
  "dec_bool upd v x = (case v of JNull \<Rightarrow> Some x | JBool b \<Rightarrow> Some (upd b x) | _ \<Rightarrow> None)"

definition dec_int :: "(int \<Rightarrow> 'a \<Rightarrow> 'a) \<Rightarrow> 'a field_decoder" where
  "dec_int upd v x =
     (case v of
        JNull \<Rightarrow> Some x
      | JNum lit \<Rightarrow> (case ParseInt lit of Inr i \<Rightarrow> Some (upd i x) | Inl _ \<Rightarrow> None)
      | _ \<Rightarrow> None)"

definition dec_uint64 :: "(uint64 \<Rightarrow> 'a \<Rightarrow> 'a) \<Rightarrow> 'a field_decoder" where
  "dec_uint64 upd v x =
     (case v of
        JNull \<Rightarrow> Some x
      | JNum lit \<Rightarrow> (case ParseUint lit of Inr i \<Rightarrow> Some (upd i x) | Inl _ \<Rightarrow> None)
      | _ \<Rightarrow> None)"

definition dec_time :: "(time \<Rightarrow> 'a \<Rightarrow> 'a) \<Rightarrow> 'a field_decoder" where
  "dec_time upd v x =
     (case v of
        JNull \<Rightarrow> Some x
      | JStr s \<Rightarrow> (case parseRFC3339 s of Some t \<Rightarrow> Some (upd t x) | None \<Rightarrow> None)
      | _ \<Rightarrow> None)"

subsection \<open>Runes\<close>

lemma DecodeRune_width:
  "s \<noteq> [] \<Longrightarrow> 1 \<le> snd (DecodeRune s) \<and> snd (DecodeRune s) \<le> length s"
  by (auto simp: DecodeRune_def Let_def split: list.splits if_splits)

lemma runes_Nil [simp]: "runes [] = []"
  by (simp add: runes.simps)

lemma runes_unfold:
  assumes "s \<noteq> []"
  shows "runes s = (fst (DecodeRune s), take (snd (DecodeRune s)) s) # runes (drop (snd (DecodeRune s)) s)"
proof -
  obtain c t where s: "s = c # t" using assms by (cases s) auto
  have "drop (snd (DecodeRune s) - 1) t = drop (snd (DecodeRune s)) s"
    using DecodeRune_width [OF assms] s by (cases "snd (DecodeRune s)") auto
  then show ?thesis by (subst runes.simps) (simp add: s)
qed

lemma runes_induct [case_names Nil Step]:
  assumes "P []" and "\<And>s. s \<noteq> [] \<Longrightarrow> P (drop (snd (DecodeRune s)) s) \<Longrightarrow> P s"
  shows "P s"
proof (induction s rule: length_induct)
  case (1 s)
  show ?case
  proof (cases "s = []")
    case True
    then show ?thesis using assms(1) by simp
  next
    case False
    then have "length (drop (snd (DecodeRune s)) s) < length s"
      using DecodeRune_width [OF False] by (cases s) auto
    with 1 have "P (drop (snd (DecodeRune s)) s)" by blast
    then show ?thesis by (rule assms(2) [OF False])
  qed
qed

lemma concat_runes: "concat (map snd (runes s)) = s"
proof (induction s rule: runes_induct)
  case (Step s)
  then show ?case by (simp add: runes_unfold [of s])
qed simp

text \<open>A valid rune: what \<open>DecodeRune\<close> finds in a string is not the error of width 1.\<close>

definition valid_rune :: "nat \<times> string \<Rightarrow> bool" where
  "valid_rune rb \<longleftrightarrow> \<not> (fst rb = RuneError \<and> length (snd rb) = 1)"

definition valid_utf8 :: "string \<Rightarrow> bool" where
  "valid_utf8 s \<longleftrightarrow> list_all valid_rune (runes s)"

lemma DecodeRune_valid_cases:
  assumes "s \<noteq> []" and "valid_rune (fst (DecodeRune s), take (snd (DecodeRune s)) s)"
  obtains (one) c t where "s = c # t" "byte_of c < 0x80" "DecodeRune s = (byte_of c, 1)"
  | (two) c d t where "s = c # d # t" "0xC2 \<le> byte_of c" "byte_of c \<le> 0xDF" "cont_byte 0x80 0xBF d"
      "DecodeRune s = ((byte_of c - 0xC0) * 64 + (byte_of d - 0x80), 2)"
  | (three) c d e t where "s = c # d # e # t" "0xE0 \<le> byte_of c" "byte_of c \<le> 0xEF"
      "cont_byte (if byte_of c = 0xE0 then 0xA0 else 0x80) (if byte_of c = 0xED then 0x9F else 0xBF) d"
      "cont_byte 0x80 0xBF e"
      "DecodeRune s = ((byte_of c - 0xE0) * 4096 + (byte_of d - 0x80) * 64 + (byte_of e - 0x80), 3)"
  | (four) c d e f t where "s = c # d # e # f # t" "0xF0 \<le> byte_of c" "byte_of c \<le> 0xF4"
      "cont_byte (if byte_of c = 0xF0 then 0x90 else 0x80) (if byte_of c = 0xF4 then 0x8F else 0xBF) d"
      "cont_byte 0x80 0xBF e" "cont_byte 0x80 0xBF f"
      "DecodeRune s = ((byte_of c - 0xF0) * 262144 + (byte_of d - 0x80) * 4096
         + (byte_of e - 0x80) * 64 + (byte_of f - 0x80), 4)"
proof -
  have ne: "DecodeRune s \<noteq> (RuneError, 1)" using assms by (cases s) (auto simp: valid_rune_def)
  obtain c t where s: "s = c # t" using assms(1) by (cases s) auto
  consider "byte_of c < (0x80::nat)" | "0xC2 \<le> byte_of c" "byte_of c \<le> (0xDF::nat)"
    | "0xE0 \<le> byte_of c" "byte_of c \<le> (0xEF::nat)" | "0xF0 \<le> byte_of c" "byte_of c \<le> (0xF4::nat)"
    using ne s by (force simp: DecodeRune_def Let_def)
  then show thesis
  proof cases
    case 1
    then show ?thesis using s by (intro one) (auto simp: DecodeRune_def)
  next
    case 2
    then obtain d u where "t = d # u" "cont_byte 0x80 0xBF d"
      using ne s by (cases t) (auto simp: DecodeRune_def split: if_splits)
    then show ?thesis using 2 s by (intro two [of c d u]) (auto simp: DecodeRune_def)
  next
    case 3
    then obtain d e u where "t = d # e # u"
      "cont_byte (if byte_of c = 0xE0 then 0xA0 else 0x80) (if byte_of c = 0xED then 0x9F else 0xBF) d"
      "cont_byte 0x80 0xBF e"
      using ne s by (auto simp: DecodeRune_def Let_def split: list.splits if_splits)
    then show ?thesis using 3 s by (intro three [of c d e u]) (auto simp: DecodeRune_def Let_def)
  next
    case 4
    then obtain d e f u where "t = d # e # f # u"
      "cont_byte (if byte_of c = 0xF0 then 0x90 else 0x80) (if byte_of c = 0xF4 then 0x8F else 0xBF) d"
      "cont_byte 0x80 0xBF e" "cont_byte 0x80 0xBF f"
      using ne s by (auto simp: DecodeRune_def Let_def split: list.splits if_splits)
    then show ?thesis using 4 s by (intro four [of c d e f u]) (auto simp: DecodeRune_def Let_def)
  qed
qed

subsection \<open>Encoding undoes decoding\<close>

lemma div_mod_64:
  "(r :: nat) < 64 \<Longrightarrow> (q * 64 + r) div 64 = q" "(r :: nat) < 64 \<Longrightarrow> (q * 64 + r) mod 64 = r"
  by simp_all

lemma encode_two:
  fixes x y :: nat
  assumes "0xC2 \<le> x" "x \<le> 0xDF" "0x80 \<le> y" "y \<le> 0xBF"
  shows "encode_rune ((x - 0xC0) * 64 + (y - 0x80)) = [char_of x, char_of y]"
proof -
  let ?r = "(x - 0xC0) * 64 + (y - 0x80)"
  have "?r div 64 = x - 0xC0" "?r mod 64 = y - 0x80"
    using assms by (intro div_mod_64; simp)+
  moreover have "0x80 \<le> ?r" "?r < 0x800" using assms by simp_all
  ultimately show ?thesis using assms by (simp add: encode_rune_def)
qed

lemma encode_three:
  fixes x y z :: nat
  assumes "0xE0 \<le> x" "x \<le> 0xEF" "x = 0xE0 \<Longrightarrow> 0xA0 \<le> y" "0x80 \<le> y" "y \<le> 0xBF" "0x80 \<le> z" "z \<le> 0xBF"
  shows "encode_rune ((x - 0xE0) * 4096 + (y - 0x80) * 64 + (z - 0x80)) = [char_of x, char_of y, char_of z]"
proof -
  define a b c where "a = x - 0xE0" and "b = y - 0x80" and "c = z - 0x80"
  have abc: "x = 0xE0 + a" "y = 0x80 + b" "z = 0x80 + c" "a \<le> 15" "b < 64" "c < 64" "a = 0 \<Longrightarrow> 32 \<le> b"
    using assms by (auto simp: a_def b_def c_def)
  let ?r = "a * 4096 + b * 64 + c"
  have "?r = (a * 64 + b) * 64 + c" by simp
  then have r64: "?r div 64 = a * 64 + b" "?r mod 64 = c" using abc(6) div_mod_64 by metis+
  have "?r div 4096 = ?r div 64 div 64" by (simp add: div_mult2_eq [symmetric])
  then have "?r div 4096 = a" "?r div 64 mod 64 = b"
    using r64(1) abc(5) div_mod_64 [of b a] by simp_all
  moreover have "0x800 \<le> ?r" using abc by (cases "a = 0") simp_all
  moreover have "?r < 0x10000" using abc by simp
  ultimately show ?thesis
    using r64 abc by (simp add: encode_rune_def a_def [symmetric] b_def [symmetric] c_def [symmetric])
qed

lemma encode_four:
  fixes w x y z :: nat
  assumes "0xF0 \<le> w" "w \<le> 0xF4" "w = 0xF0 \<Longrightarrow> 0x90 \<le> x" "0x80 \<le> x" "x \<le> 0xBF"
    "0x80 \<le> y" "y \<le> 0xBF" "0x80 \<le> z" "z \<le> 0xBF"
  shows "encode_rune ((w - 0xF0) * 262144 + (x - 0x80) * 4096 + (y - 0x80) * 64 + (z - 0x80))
    = [char_of w, char_of x, char_of y, char_of z]"
proof -
  define a b c d where "a = w - 0xF0" and "b = x - 0x80" and "c = y - 0x80" and "d = z - 0x80"
  have abc: "w = 0xF0 + a" "x = 0x80 + b" "y = 0x80 + c" "z = 0x80 + d"
    "b < 64" "c < 64" "d < 64" "a = 0 \<Longrightarrow> 16 \<le> b"
    using assms by (auto simp: a_def b_def c_def d_def)
  let ?r = "a * 262144 + b * 4096 + c * 64 + d"
  have "?r = ((a * 64 + b) * 64 + c) * 64 + d" by simp
  then have r1: "?r div 64 = (a * 64 + b) * 64 + c" "?r mod 64 = d" using abc(7) div_mod_64 by metis+
  have "?r div 4096 = ?r div 64 div 64" by (simp add: div_mult2_eq [symmetric])
  then have r2: "?r div 4096 = a * 64 + b" "?r div 64 mod 64 = c"
    using r1(1) abc(6) div_mod_64 [of c "a * 64 + b"] by simp_all
  have "?r div 262144 = ?r div 4096 div 64" by (simp add: div_mult2_eq [symmetric])
  then have "?r div 262144 = a" "?r div 4096 mod 64 = b"
    using r2(1) abc(5) div_mod_64 [of b a] by simp_all
  moreover have "0x10000 \<le> ?r" using abc by (cases "a = 0") simp_all
  ultimately show ?thesis
    using r1 r2 abc
    by (simp add: encode_rune_def a_def [symmetric] b_def [symmetric] c_def [symmetric] d_def [symmetric])
qed

lemma encode_DecodeRune:
  assumes "s \<noteq> []" and "valid_rune (fst (DecodeRune s), take (snd (DecodeRune s)) s)"
  shows "encode_rune (fst (DecodeRune s)) = take (snd (DecodeRune s)) s"
  using assms
proof (cases rule: DecodeRune_valid_cases)
  case (one c t)
  then show ?thesis by (simp add: encode_rune_def)
next
  case (two c d t)
  then show ?thesis using encode_two [of "byte_of c" "byte_of d"] by (simp add: cont_byte_def)
next
  case (three c d e t)
  then show ?thesis
    using encode_three [of "byte_of c" "byte_of d" "byte_of e"]
    by (auto simp: cont_byte_def split: if_splits)
next
  case (four c d e f t)
  then show ?thesis
    using encode_four [of "byte_of c" "byte_of d" "byte_of e" "byte_of f"]
    by (auto simp: cont_byte_def split: if_splits)
qed

lemma DecodeRune_take:
  assumes "s \<noteq> []" and "valid_rune (fst (DecodeRune s), take (snd (DecodeRune s)) s)"
  shows "DecodeRune (take (snd (DecodeRune s)) s @ u) = DecodeRune s"
  using assms
proof (cases rule: DecodeRune_valid_cases)
  case (one c t)
  then show ?thesis by (simp add: DecodeRune_def)
next
  case (two c d t)
  then show ?thesis by (simp add: DecodeRune_def)
next
  case (three c d e t)
  have "DecodeRune (c # d # e # u) = ((byte_of c - 0xE0) * 4096 + (byte_of d - 0x80) * 64 + (byte_of e - 0x80), 3)"
    using three(2-5) by (simp add: DecodeRune_def)
  then show ?thesis using three(1,6) by simp
next
  case (four c d e f t)
  have "DecodeRune (c # d # e # f # u) = ((byte_of c - 0xF0) * 262144 + (byte_of d - 0x80) * 4096
         + (byte_of e - 0x80) * 64 + (byte_of f - 0x80), 4)"
    using four(2-6) by (simp add: DecodeRune_def)
  then show ?thesis using four(1,7) by simp
qed

subsection \<open>String literals\<close>

lemma hex_val_digit: "n < 16 \<Longrightarrow> hex_val (hex_digit n) = Some n"
  by (auto simp: hex_val_def hex_digit_def)

lemma parse_chars_u:
  "unescape_u t = Some (r, n) \<Longrightarrow>
   parse_chars (CHR 0x5C # CHR ''u'' # t)
     = map_option (\<lambda>(str, rest). (encode_rune r @ str, rest)) (parse_chars (drop n t))"
  by simp

lemma parse_chars_simple:
  "simple_escape e = Some d \<Longrightarrow> e \<noteq> CHR ''u'' \<Longrightarrow>
   parse_chars (CHR 0x5C # e # t) = map_option (\<lambda>(str, rest). (d # str, rest)) (parse_chars t)"
  by simp

lemma parse_chars_raw:
  assumes "s \<noteq> []" and "hd s \<noteq> CHR 0x22" and "hd s \<noteq> CHR 0x5C" and "0x20 \<le> byte_of (hd s)"
    and "DecodeRune s = (r, n)" and "r \<noteq> RuneError \<or> n \<noteq> 1"
  shows "parse_chars s = map_option (\<lambda>(str, rest). (take n s @ str, rest)) (parse_chars (drop n s))"
proof -
  obtain c t where s: "s = c # t" using assms(1) by (cases s) auto
  have "drop (n - 1) t = drop n s"
    using DecodeRune_width [OF assms(1)] assms(5) s by (cases n) auto
  then show ?thesis using assms s by auto
qed

lemma unescape_u_bmp:
  "a < 16 \<Longrightarrow> b < 16 \<Longrightarrow> c < 16 \<Longrightarrow> d < 16 \<Longrightarrow> \<not> is_surrogate (4096 * a + 256 * b + 16 * c + d) \<Longrightarrow>
   unescape_u (hex_digit a # hex_digit b # hex_digit c # hex_digit d # u) = Some (4096 * a + 256 * b + 16 * c + d, 4)"
  by (simp add: unescape_u_def getu4_def hex_val_digit)

lemma char_lits:
  "char_of (34 :: nat) = CHR 0x22" "char_of (92 :: nat) = CHR 0x5C" "char_of (8 :: nat) = CHR 8"
  "char_of (9 :: nat) = CHR 9" "char_of (10 :: nat) = CHR 10" "char_of (12 :: nat) = CHR 12"
  "char_of (13 :: nat) = CHR 13" "char_of (48 :: nat) = CHR ''0''" "char_of (50 :: nat) = CHR ''2''"
  by (simp_all add: char_of_def bit_Suc_0_iff)

lemma hex_digit_lits:
  "CHR ''0'' = hex_digit 0" "CHR ''2'' = hex_digit 2"
  by (simp_all add: hex_digit_def char_lits)

lemma char_eqI: "byte_of c = n \<Longrightarrow> c = char_of n"
  by auto

lemma parse_print_ascii:
  assumes "byte_of c < 0x80"
  shows "parse_chars (print_rune (byte_of c, [c]) @ u) = map_option (\<lambda>(str, rest). (c # str, rest)) (parse_chars u)"
proof -
  let ?r = "byte_of c :: nat"
  consider (q) "?r = 0x22 \<or> ?r = 0x5C" | (e) "?r = 8 \<or> ?r = 12 \<or> ?r = 10 \<or> ?r = 13 \<or> ?r = 9"
    | (u) "?r < 0x20 \<or> ?r = 0x3C \<or> ?r = 0x3E \<or> ?r = 0x26" "\<not> (?r = 8 \<or> ?r = 12 \<or> ?r = 10 \<or> ?r = 13 \<or> ?r = 9)"
    | (l) "0x20 \<le> ?r" "?r \<noteq> 0x22" "?r \<noteq> 0x5C" "\<not> (?r = 0x3C \<or> ?r = 0x3E \<or> ?r = 0x26)"
    by linarith
  then show ?thesis
  proof cases
    case q
    then have "c = CHR 0x22 \<or> c = CHR 0x5C" by (auto dest!: char_eqI simp: char_lits)
    then show ?thesis by (auto simp: print_rune_def simple_escape_def char_lits)
  next
    case e
    then have "c = CHR 8 \<or> c = CHR 12 \<or> c = CHR 10 \<or> c = CHR 13 \<or> c = CHR 9"
      by (auto dest!: char_eqI simp: char_lits)
    then show ?thesis by (auto simp: print_rune_def simple_escape_def char_lits)
  next
    case u
    have "print_rune (?r, [c]) = CHR 0x5C # CHR ''u'' # hex_digit 0 # hex_digit 0 # hex_digit (?r div 16) # hex_digit (?r mod 16) # []"
      using u by (auto simp: print_rune_def Let_def hex_digit_lits [symmetric])
    moreover have "unescape_u (hex_digit 0 # hex_digit 0 # hex_digit (?r div 16) # hex_digit (?r mod 16) # u) = Some (?r, 4)"
      using unescape_u_bmp [of 0 0 "?r div 16" "?r mod 16" u] u by (auto simp: is_surrogate_def)
    ultimately show ?thesis using assms
      by (simp add: parse_chars_u encode_rune_def del: parse_chars.simps)
  next
    case l
    then have "c \<noteq> CHR 0x22" "c \<noteq> CHR 0x5C" by auto
    moreover have "DecodeRune (c # u) = (?r, 1)" using assms by (simp add: DecodeRune_def)
    moreover have "print_rune (?r, [c]) = [c]" using l assms by (auto simp: print_rune_def)
    ultimately show ?thesis
      using parse_chars_raw [of "c # u" ?r 1] l assms by (simp del: parse_chars.simps)
  qed
qed


lemma valid_rune_multi:
  assumes "s \<noteq> []" and "valid_rune (fst (DecodeRune s), take (snd (DecodeRune s)) s)"
    and "0x80 \<le> byte_of (hd s)"
  shows "0x80 \<le> fst (DecodeRune s)" and "fst (DecodeRune s) \<noteq> RuneError \<or> snd (DecodeRune s) \<noteq> 1"
proof -
  show "0x80 \<le> fst (DecodeRune s)"
    using assms(1,2)
  proof (cases rule: DecodeRune_valid_cases)
    case (one c t)
    then show ?thesis using assms(3) by simp
  next
    case (two c d t)
    then have "0x80 \<le> (byte_of c - 0xC0 :: nat) * 64" by simp
    then show ?thesis using two by simp
  next
    case (three c d e t)
    show ?thesis
    proof (cases "byte_of c = (0xE0 :: nat)")
      case True
      then have "0x20 \<le> (byte_of d - 0x80 :: nat)" using three(4) by (auto simp: cont_byte_def)
      then have "0x80 \<le> (byte_of d - 0x80 :: nat) * 64" by simp
      then show ?thesis using three(6) by simp
    next
      case False
      then have "0x80 \<le> (byte_of c - 0xE0 :: nat) * 4096" using three(2) by simp
      then show ?thesis using three(6) by simp
    qed
  next
    case (four c d e f t)
    show ?thesis
    proof (cases "byte_of c = (0xF0 :: nat)")
      case True
      then have "0x10 \<le> (byte_of d - 0x80 :: nat)" using four(4) by (auto simp: cont_byte_def)
      then have "0x80 \<le> (byte_of d - 0x80 :: nat) * 4096" by simp
      then show ?thesis using four(7) by simp
    next
      case False
      then have "0x80 \<le> (byte_of c - 0xF0 :: nat) * 262144" using four(2) by simp
      then show ?thesis using four(7) by simp
    qed
  qed
  show "fst (DecodeRune s) \<noteq> RuneError \<or> snd (DecodeRune s) \<noteq> 1"
    using assms(1,2) by (cases s) (auto simp: valid_rune_def)
qed

lemma parse_print_rune:
  fixes s :: string
  defines "r \<equiv> fst (DecodeRune s)" and "n \<equiv> snd (DecodeRune s)"
  assumes "s \<noteq> []" and "valid_rune (r, take n s)"
  shows "parse_chars (print_rune (r, take n s) @ u) = map_option (\<lambda>(str, rest). (take n s @ str, rest)) (parse_chars u)"
proof -
  obtain c t where s: "s = c # t" using assms(3) by (cases s) auto
  show ?thesis
  proof (cases "byte_of c < (0x80 :: nat)")
    case True
    then have "r = byte_of c" "take n s = [c]" unfolding r_def n_def s by (simp_all add: DecodeRune_def)
    then show ?thesis using parse_print_ascii [OF True] by simp
  next
    case False
    note multi = valid_rune_multi [OF assms(3) assms(4) [unfolded r_def n_def]]
    have r80: "0x80 \<le> r" and ok: "r \<noteq> RuneError \<or> n \<noteq> 1" using multi False s by (simp_all add: r_def n_def)
    have valid: "\<not> (r = RuneError \<and> length (take n s) = 1)" using assms(4) by (simp add: valid_rune_def)
    have n: "1 \<le> n" "n \<le> length s" using DecodeRune_width [OF assms(3)] by (simp_all add: n_def)
    show ?thesis
    proof (cases "r = 0x2028 \<or> r = 0x2029")
      case True
      have enc: "encode_rune r = take n s"
        using encode_DecodeRune [OF assms(3)] assms(4) by (simp add: r_def n_def)
      have "print_rune (r, take n s) = CHR 0x5C # CHR ''u'' # hex_digit 2 # hex_digit 0 # hex_digit 2 # hex_digit (r mod 16) # []"
        using True r80 by (auto simp: print_rune_def Let_def hex_digit_lits [symmetric])
      moreover have "unescape_u (hex_digit 2 # hex_digit 0 # hex_digit 2 # hex_digit (r mod 16) # u) = Some (r, 4)"
        using unescape_u_bmp [of 2 0 2 "r mod 16" u] True by (auto simp: is_surrogate_def)
      ultimately show ?thesis by (simp add: parse_chars_u enc del: parse_chars.simps)
    next
      case False
      have "DecodeRune (take n s @ u) = (r, n)"
        using DecodeRune_take [OF assms(3)] assms(4) by (simp add: r_def n_def)
      moreover have "hd (take n s @ u) = c" "take n s @ u \<noteq> []" using n s by (cases n; auto)+
      moreover have "c \<noteq> CHR 0x22" "c \<noteq> CHR 0x5C" using \<open>\<not> byte_of c < 0x80\<close> by auto
      ultimately have "parse_chars (take n s @ u) = map_option (\<lambda>(str, rest). (take n s @ str, rest)) (parse_chars u)"
        using parse_chars_raw [of "take n s @ u" r n] ok n \<open>\<not> byte_of c < 0x80\<close> by (simp del: parse_chars.simps)
      moreover have "print_rune (r, take n s) = take n s"
        using r80 valid False by (auto simp: print_rune_def Let_def)
      ultimately show ?thesis by simp
    qed
  qed
qed

lemma parse_print_chars:
  "valid_utf8 s \<Longrightarrow> parse_chars (concat (map print_rune (runes s)) @ CHR 0x22 # u) = Some (s, u)"
proof (induction s rule: runes_induct)
  case Nil
  then show ?case by simp
next
  case (Step s)
  let ?n = "snd (DecodeRune s)"
  have v: "valid_rune (fst (DecodeRune s), take ?n s)" "valid_utf8 (drop ?n s)"
    using Step.prems Step.hyps by (simp_all add: valid_utf8_def runes_unfold [of s])
  show ?case
    using parse_print_rune [OF Step.hyps v(1)] Step.IH [OF v(2)] Step.hyps
    by (simp add: runes_unfold [of s] del: parse_chars.simps)
qed

subsection \<open>Numbers, elements and members\<close>

definition ends_value :: "string \<Rightarrow> bool" where
  "ends_value u \<longleftrightarrow> (case u of [] \<Rightarrow> True | c # _ \<Rightarrow> c \<in> {CHR '','', CHR ''}'', CHR '']''})"

lemma show_nat_hd_zero: "show_nat n = CHR ''0'' # t \<Longrightarrow> t = []"
proof (induction n arbitrary: t rule: show_nat.induct)
  case (1 n)
  show ?case
  proof (cases "n < 10")
    case True
    with "1.prems" show ?thesis by (simp add: show_nat.simps [of n])
  next
    case False
    then have eq: "show_nat n = show_nat (n div 10) @ [char_of (48 + n mod 10)]"
      by (simp add: show_nat.simps [of n])
    obtain u where u: "show_nat (n div 10) = CHR ''0'' # u"
      using eq "1.prems" by (cases "show_nat (n div 10)") auto
    then have "u = []" using "1.IH" False by simp
    then have "dec_val (show_nat (n div 10)) = 0" by (simp add: u dec_val_def digit_val_def)
    then show ?thesis using False by simp
  qed
qed

lemma ends_value_not_digit: "ends_value u \<Longrightarrow> takeWhile is_digit u = []"
  by (auto simp: ends_value_def is_digit_def split: list.splits)

lemma lex_int_show_nat: "ends_value u \<Longrightarrow> lex_int (show_nat n @ u) = Some (show_nat n, u)"
proof -
  assume u: "ends_value u"
  obtain c t where ct: "show_nat n = c # t" by (cases "show_nat n") auto
  have all: "list_all is_digit (show_nat n)" by (rule show_nat_digits)
  have "takeWhile is_digit (show_nat n @ u) = show_nat n" "dropWhile is_digit (show_nat n @ u) = u"
    using all ends_value_not_digit [OF u] by (auto simp: takeWhile_append dropWhile_append list_all_iff dropWhile_eq_self_iff takeWhile_eq_Nil_iff)
  then show ?thesis
    using show_nat_hd_zero [of n t] ct all by (auto simp: lex_int_def)
qed

lemma lex_tail: "ends_value u \<Longrightarrow> lex_frac u = Some ([], u) \<and> lex_exp u = Some ([], u)"
  by (auto simp: ends_value_def lex_frac_def lex_exp_def split: list.splits)

lemma lex_number_show_int:
  assumes "ends_value u"
  shows "lex_number (show_int i @ u) = Some (show_int i, u)"
proof (cases "i < 0")
  case True
  then show ?thesis
    using lex_int_show_nat [OF assms] lex_tail [OF assms] by (simp add: lex_number_def show_int_def)
next
  case False
  obtain c t where ct: "show_nat (nat i) = c # t" by (cases "show_nat (nat i)") auto
  then have "c \<noteq> CHR ''-''" using show_nat_hd [OF ct] by (auto simp: is_digit_def)
  then show ?thesis
    using False lex_int_show_nat [OF assms, of "nat i"] lex_tail [OF assms] ct
    by (simp add: lex_number_def show_int_def)
qed

fun wf_json :: "json \<Rightarrow> bool" where
  "wf_json JNull = True"
| "wf_json (JBool b) = True"
| "wf_json (JNum lit) = (\<exists>i. lit = show_int i)"
| "wf_json (JStr s) = valid_utf8 s"
| "wf_json (JArr vs) = (\<forall>v \<in> set vs. wf_json v)"
| "wf_json (JObj kvs) = (\<forall>kv \<in> set kvs. valid_utf8 (fst kv) \<and> wf_json (snd kv))"

definition starts_value :: "char \<Rightarrow> bool" where
  "starts_value c \<longleftrightarrow> \<not> json_space c \<and> c \<noteq> CHR ''}'' \<and> c \<noteq> CHR '']''"

lemma show_int_hd:
  "\<exists>c t. show_int i = c # t \<and> starts_value c \<and> c \<notin> {CHR 0x22, CHR ''{'', CHR ''['', CHR ''t'', CHR ''f'', CHR ''n''}"
proof (cases "i < 0")
  case True
  then show ?thesis by (auto simp: show_int_def starts_value_def json_space_def)
next
  case False
  obtain c t where ct: "show_nat (nat i) = c # t" by (cases "show_nat (nat i)") auto
  then have "is_digit c" by (rule show_nat_hd)
  then show ?thesis using ct False
    by (intro exI [of _ c] exI [of _ t]) (auto simp: show_int_def starts_value_def json_space_def is_digit_def)
qed

lemma print_json_hd: "wf_json v \<Longrightarrow> \<exists>c t. print_json v = c # t \<and> starts_value c"
  using show_int_hd
  by (cases v) (auto simp: print_string_def starts_value_def json_space_def, fastforce)

lemma skip_ws_Cons [simp]: "\<not> json_space c \<Longrightarrow> skip_ws (c # s) = c # s"
  by (simp add: skip_ws_def)

lemma skip_ws_print: "wf_json v \<Longrightarrow> skip_ws (print_json v @ u) = print_json v @ u"
  using print_json_hd [of v] by (auto simp: starts_value_def)

lemma json_marks [simp]:
  "\<not> json_space (CHR 0x22)" "\<not> json_space (CHR '':'')" "\<not> json_space (CHR '','')"
  "\<not> json_space (CHR ''{'')" "\<not> json_space (CHR ''}'')" "\<not> json_space (CHR ''['')" "\<not> json_space (CHR '']'')"
  "\<not> json_space (CHR ''t'')" "\<not> json_space (CHR ''f'')" "\<not> json_space (CHR ''n'')"
  by (simp_all add: json_space_def)

abbreviation print_member :: "string \<times> json \<Rightarrow> string" where
  "print_member kv \<equiv> print_string (fst kv) @ '':'' @ print_json (snd kv)"

lemma parse_elems_print:
  assumes "\<And>v n u. v \<in> set vs \<Longrightarrow> length (print_json v) \<le> n \<Longrightarrow> ends_value u \<Longrightarrow>
      parse_value n (print_json v @ u) = Some (v, u)"
    and "vs \<noteq> []" and "length (Join (map print_json vs) '','') < n"
  shows "parse_elems n (Join (map print_json vs) '','' @ CHR '']'' # u) = Some (vs, u)"
  using assms
proof (induction vs arbitrary: n)
  case Nil
  then show ?case by simp
next
  case (Cons v vs)
  then obtain m where n: "n = Suc m" by (cases n) auto
  show ?case
  proof (cases "vs = []")
    case True
    then show ?thesis using Cons.prems n by (simp add: ends_value_def)
  next
    case False
    have rest: "parse_elems m (Join (map print_json vs) '','' @ CHR '']'' # u) = Some (vs, u)"
      using Cons.prems False n by (intro Cons.IH) (auto simp: Join_Cons)
    have "parse_value m (print_json v @ CHR '','' # Join (map print_json vs) '','' @ CHR '']'' # u)
        = Some (v, CHR '','' # Join (map print_json vs) '','' @ CHR '']'' # u)"
      using Cons.prems False n by (intro Cons.prems(1)) (auto simp: ends_value_def Join_Cons)
    then show ?thesis using rest n False by (simp add: Join_Cons)
  qed
qed

lemma parse_members_print:
  assumes "\<And>kv n u. kv \<in> set kvs \<Longrightarrow> length (print_json (snd kv)) \<le> n \<Longrightarrow> ends_value u \<Longrightarrow>
      parse_value n (print_json (snd kv) @ u) = Some (snd kv, u)"
    and "\<And>kv. kv \<in> set kvs \<Longrightarrow> valid_utf8 (fst kv)"
    and "kvs \<noteq> []" and "length (Join (map print_member kvs) '','') < n"
  shows "parse_members n (Join (map print_member kvs) '','' @ CHR ''}'' # u) = Some (kvs, u)"
  using assms
proof (induction kvs arbitrary: n)
  case Nil
  then show ?case by simp
next
  case (Cons kv kvs)
  then obtain m where n: "n = Suc m" by (cases n) auto
  have key: "\<And>w. parse_chars (concat (map print_rune (runes (fst kv))) @ CHR 0x22 # w) = Some (fst kv, w)"
    using Cons.prems(2) [of kv] by (intro parse_print_chars) simp
  show ?case
  proof (cases "kvs = []")
    case True
    have "parse_value m (print_json (snd kv) @ CHR ''}'' # u) = Some (snd kv, CHR ''}'' # u)"
      using Cons.prems n True by (intro Cons.prems(1)) (auto simp: ends_value_def)
    then show ?thesis using True n key by (simp add: print_string_def)
  next
    case False
    have rest: "parse_members m (Join (map print_member kvs) '','' @ CHR ''}'' # u) = Some (kvs, u)"
      using Cons.prems False n by (intro Cons.IH) (auto simp: Join_Cons)
    have "parse_value m (print_json (snd kv) @ CHR '','' # Join (map print_member kvs) '','' @ CHR ''}'' # u)
        = Some (snd kv, CHR '','' # Join (map print_member kvs) '','' @ CHR ''}'' # u)"
      using Cons.prems False n by (intro Cons.prems(1)) (auto simp: ends_value_def Join_Cons)
    then show ?thesis using rest n False key by (simp add: Join_Cons print_string_def)
  qed
qed

subsection \<open>Parsing undoes printing\<close>

lemma size_member: "kv \<in> set kvs \<Longrightarrow> size (snd kv) \<le> size_list (size_prod (\<lambda>x. 0) size) kvs"
proof (induction kvs)
  case (Cons a kvs)
  then show ?case by (cases a) auto
qed simp

lemma Join_members_hd:
  assumes "kvs \<noteq> []"
  shows "\<exists>t. Join (map print_member kvs) '','' @ u = CHR 0x22 # t"
  using assms by (cases kvs; cases "tl kvs") (auto simp: print_string_def Join_Cons)

lemma Join_elems_hd:
  assumes "vs \<noteq> []" and "\<forall>v \<in> set vs. wf_json v"
  shows "\<exists>c t. Join (map print_json vs) '','' @ u = c # t \<and> starts_value c"
proof -
  obtain v ws where vs: "vs = v # ws" using assms(1) by (cases vs) auto
  then obtain c t where "print_json v = c # t" "starts_value c" using assms(2) print_json_hd by fastforce
  then show ?thesis using vs by (cases ws) auto
qed

lemma parse_value_arr:
  assumes "\<forall>w \<in> set vs. wf_json w" and "length (print_json (JArr vs)) \<le> Suc m"
    and "\<And>w k r. w \<in> set vs \<Longrightarrow> length (print_json w) \<le> k \<Longrightarrow> ends_value r \<Longrightarrow> parse_value k (print_json w @ r) = Some (w, r)"
  shows "parse_value (Suc m) (print_json (JArr vs) @ u) = Some (JArr vs, u)"
proof (cases "vs = []")
  case False
  obtain d w where dw: "Join (map print_json vs) '','' @ CHR '']'' # u = d # w" "starts_value d"
    using Join_elems_hd [OF False assms(1)] by blast
  have "parse_elems m (Join (map print_json vs) '','' @ CHR '']'' # u) = Some (vs, u)"
    by (rule parse_elems_print [OF _ False]) (use assms(2,3) in auto)
  then show ?thesis using dw by (simp add: starts_value_def)
qed simp

lemma parse_value_obj:
  assumes "\<And>kv. kv \<in> set kvs \<Longrightarrow> valid_utf8 (fst kv) \<and> wf_json (snd kv)" and "length (print_json (JObj kvs)) \<le> Suc m"
    and "\<And>kv k r. kv \<in> set kvs \<Longrightarrow> length (print_json (snd kv)) \<le> k \<Longrightarrow> ends_value r
      \<Longrightarrow> parse_value k (print_json (snd kv) @ r) = Some (snd kv, r)"
  shows "parse_value (Suc m) (print_json (JObj kvs) @ u) = Some (JObj kvs, u)"
proof (cases "kvs = []")
  case False
  obtain w where w: "Join (map print_member kvs) '','' @ CHR ''}'' # u = CHR 0x22 # w"
    using Join_members_hd [OF False] by blast
  have "parse_members m (Join (map print_member kvs) '','' @ CHR ''}'' # u) = Some (kvs, u)"
    by (rule parse_members_print [OF _ _ False]) (use assms in auto)
  then show ?thesis using w by simp
qed simp

lemma parse_value_print:
  "wf_json v \<Longrightarrow> length (print_json v) \<le> n \<Longrightarrow> ends_value u \<Longrightarrow>
     parse_value n (print_json v @ u) = Some (v, u)"
proof (induction v arbitrary: n u rule: measure_induct_rule [where f = size])
  case (less v)
  obtain c t where ct: "print_json v = c # t" using print_json_hd [OF less.prems(1)] by blast
  then obtain m where n: "n = Suc m" using less.prems(2) by (cases n) auto
  have ws: "skip_ws (print_json v @ u) = print_json v @ u" by (rule skip_ws_print [OF less.prems(1)])
  show ?case
  proof (cases v)
    case JNull
    then show ?thesis using n by (simp add: lex_word_def)
  next
    case (JBool b)
    then show ?thesis using n by (cases b) (simp_all add: lex_word_def)
  next
    case (JNum lit)
    with less.prems(1) obtain i where i: "lit = show_int i" by auto
    with JNum ct have "show_int i = c # t" by simp
    with show_int_hd [of i] have "c \<notin> {CHR 0x22, CHR ''{'', CHR ''['', CHR ''t'', CHR ''f'', CHR ''n''}" by auto
    then show ?thesis
      using JNum i ct ws n lex_number_show_int [OF less.prems(3), of i] by simp
  next
    case (JStr s)
    then show ?thesis
      using less.prems(1) n parse_print_chars [of s u] by (simp add: print_string_def)
  next
    case (JArr vs)
    then have "size w < size v" if "w \<in> set vs" for w using that by (simp add: less_Suc_eq_le size_list_estimation')
    then show ?thesis
      using less.prems less.IH unfolding JArr n by (intro parse_value_arr) auto
  next
    case (JObj kvs)
    then have "size (snd kv) < size v" if "kv \<in> set kvs" for kv using size_member [OF that] by simp
    then show ?thesis
      using less.prems less.IH unfolding JObj n by (intro parse_value_obj) auto
  qed
qed

lemma parse_print: "wf_json v \<Longrightarrow> parse_json (print_json v) = Some v"
  using parse_value_print [of v "Suc (length (print_json v))" "[]"]
  by (simp add: parse_json_def ends_value_def skip_ws_def)

lemma runes_ascii: "list_all (\<lambda>c. byte_of c < (0x80 :: nat)) s \<Longrightarrow> runes s = map (\<lambda>c. (byte_of c, [c])) s"
proof (induction s)
  case (Cons c s)
  then have "DecodeRune (c # s) = (byte_of c, 1)" by (simp add: DecodeRune_def)
  then show ?case using Cons by (simp add: runes_unfold [of "c # s"])
qed simp

lemma valid_utf8_ascii: "list_all (\<lambda>c. byte_of c < (0x80 :: nat)) s \<Longrightarrow> valid_utf8 s"
  by (auto simp: valid_utf8_def runes_ascii list_all_iff valid_rune_def)

lemma visible_utf8: "visible_string s \<Longrightarrow> valid_utf8 s"
  by (rule valid_utf8_ascii) (auto simp: list_all_iff visible_def)

lemma show_int_of_nat: "show_int (int n) = show_nat n"
  by (simp add: show_int_def)

lemma wf_json_nat [simp]: "wf_json (JNum (show_nat n))"
  by (auto simp: show_int_of_nat [symmetric])

lemma wf_json_int [simp]: "wf_json (JNum (show_int i))"
  by auto

lemma formatRFC3339Nano_visible: "formatRFC3339Nano t = Some s \<Longrightarrow> visible_string s"
proof -
  assume s: "formatRFC3339Nano t = Some s"
  have dig: "\<And>w n. visible_string (digits w n)" by (rule digits_visible [OF digits_are_digits])
  have "\<And>n. visible_string (TrimRight (digits 9 n) ''0'')"
    using dig TrimRight_prefix by (metis list_all_append)
  then have "\<And>n. visible_string (frac_text n)" by (simp add: frac_text_def visible_def)
  with s dig show ?thesis
    by (auto simp: formatRFC3339Nano_def Let_def visible_def split: prod.splits if_splits)
qed

lemma formatRFC3339Nano_utf8: "formatRFC3339Nano t = Some s \<Longrightarrow> valid_utf8 s"
  by (rule visible_utf8 [OF formatRFC3339Nano_visible])

lemma DecodeRune_high:
  assumes "0x80 \<le> byte_of c"
  shows "0x80 \<le> fst (DecodeRune (c # t))"
proof (cases "valid_rune (fst (DecodeRune (c # t)), take (snd (DecodeRune (c # t))) (c # t))")
  case True
  then show ?thesis using assms by (intro valid_rune_multi) auto
next
  case False
  then show ?thesis by (simp add: valid_rune_def)
qed

end
