(* ===== verification/Store_Sql.thy ===== *)
theory Store_Sql
  imports Store_Types Go_Json
begin

text \<open>
  The database behind \<open>control-plane/internal/store\<close>: the tables of \<open>sql/schema.sql\<close> as
  lists of rows, and the SQL statements of \<open>postgres.go\<close>, one definition each, with the
  constraints of the schema (uniqueness, foreign keys and their ON DELETE actions, CHECKs,
  the trigger that stamps \<open>updated_at\<close>). What the server alone decides is a parameter: the
  input conversions of its types, the collation, the identifiers it generates, its clock
  and the error it reports. Rows that an ORDER BY leaves tied come in table order.
\<close>

subsection \<open>Definitions\<close>

subsubsection \<open>Types of the server\<close>

text \<open>
  Input conversions (\<open>None\<close> is a refused value): \<open>VARCHAR(n)\<close>, \<open>UUID\<close> to its canonical text,
  \<open>INET\<close> to the text of \<open>host()\<close>, \<open>JSONB\<close> to its output text. \<open>pg_text\<close> says which strings
  are text in the server's encoding, \<open>pg_key\<close> is the sort key of the collation.
\<close>

record pg_types =
  pg_text :: "string \<Rightarrow> bool"
  pg_varchar :: "nat \<Rightarrow> string \<Rightarrow> string option"
  pg_uuid :: "string \<Rightarrow> string option"
  pg_inet :: "string \<Rightarrow> string option"
  pg_jsonb :: "string \<Rightarrow> string option"
  pg_key :: "string \<Rightarrow> nat list"

datatype pg_code =
    DataException
  | UniqueViolation
  | ForeignKeyViolation
  | CheckViolation
  | IntegerRange
  | InFailedTransaction

text \<open>
  How one statement goes wrong outside of SQL: the connection is lost before or after the
  statement took effect, the rows end early after some of them, or one row cannot be
  scanned.
\<close>

datatype fault =
    NoFault
  | LostBefore go_error
  | LostAfter go_error
  | CutAfter nat go_error
  | ScanFails nat go_error

text \<open>
  What one statement meets: \<open>now()\<close>, the identifier a new row would get, the next value of
  the identity column, the error reported for a refusal, whether the planner evaluates the
  constant expressions of an UPDATE that finds no row, and the fault.
\<close>

record stmt_env =
  se_now :: time
  se_newid :: string
  se_seq :: int
  se_error :: "pg_code \<Rightarrow> go_error"
  se_folds :: bool
  se_fault :: fault

subsubsection \<open>Tables\<close>

record profile_row =
  vr_id :: string
  vr_name :: string
  vr_type :: string
  vr_config :: string
  vr_secret_ref :: "string option"
  vr_enabled :: bool
  vr_created :: time
  vr_updated :: time

record target_row =
  tr_id :: string
  tr_alias :: string
  tr_ip :: string
  tr_port :: int
  tr_protocol :: string
  tr_profile :: "string option"
  tr_health :: "string option"
  tr_enabled :: bool
  tr_created :: time
  tr_updated :: time

record tier_row =
  ti_target :: string
  ti_profile :: string
  ti_tier :: int
  ti_created :: time

record rule_row =
  rr_id :: string
  rr_priority :: int
  rr_host :: "string option"
  rr_path :: "string option"
  rr_target :: "string option"
  rr_enabled :: bool
  rr_created :: time
  rr_updated :: time

record user_row =
  ur_id :: string
  ur_username :: string
  ur_secret_ref :: string
  ur_role :: string
  ur_enabled :: bool
  ur_created :: time
  ur_updated :: time

record audit_row =
  ar_id :: int
  ar_ts :: time
  ar_actor :: string
  ar_action :: string
  ar_detail :: string

record db =
  db_profiles :: "profile_row list"
  db_targets :: "target_row list"
  db_tiers :: "tier_row list"
  db_rules :: "rule_row list"
  db_users :: "user_row list"
  db_audit :: "audit_row list"

definition empty_db :: db where
  "empty_db = \<lparr>db_profiles = [], db_targets = [], db_tiers = [], db_rules = [], db_users = [], db_audit = []\<rparr>"

subsubsection \<open>Pieces of statements\<close>

type_synonym 'a stmt = "db \<Rightarrow> pg_code + ('a \<times> db)"

text \<open>A conversion that may refuse its value, and a constraint that may refuse the statement.\<close>

definition conv :: "'a option \<Rightarrow> ('a \<Rightarrow> pg_code + 'b) \<Rightarrow> pg_code + 'b" where
  "conv x k = (case x of None \<Rightarrow> Inl DataException | Some v \<Rightarrow> k v)"

definition require :: "bool \<Rightarrow> pg_code \<Rightarrow> pg_code + 'b \<Rightarrow> pg_code + 'b" where
  "require p c r = (if p then r else Inl c)"

definition int4 :: "int \<Rightarrow> bool" where
  "int4 i \<longleftrightarrow> - (2 ^ 31) \<le> i \<and> i < 2 ^ 31"

text \<open>\<open>NULLIF($n,'')\<close> stored in a \<open>VARCHAR(n)\<close> or cast to \<open>uuid\<close>; \<open>COALESCE(c,'')\<close>.\<close>

definition nullif_varchar :: "pg_types \<Rightarrow> nat \<Rightarrow> string \<Rightarrow> string option option" where
  "nullif_varchar t n s = (if s = [] then Some None else map_option Some (pg_varchar t n s))"

definition nullif_uuid :: "pg_types \<Rightarrow> string \<Rightarrow> string option option" where
  "nullif_uuid t s = (if s = [] then Some None else map_option Some (pg_uuid t s))"

definition coalesce :: "string option \<Rightarrow> string" where
  "coalesce x = (case x of None \<Rightarrow> [] | Some s \<Rightarrow> s)"

definition references :: "string option \<Rightarrow> string list \<Rightarrow> bool" where
  "references x ids \<longleftrightarrow> (case x of None \<Rightarrow> True | Some i \<Rightarrow> i \<in> set ids)"

text \<open>
  \<open>INSERT ... ON CONFLICT DO UPDATE\<close> once its constraints hold: the row in conflict is
  changed in place, else the new row is added unless its identifier is taken.
\<close>

definition upsert_rows ::
  "('r \<Rightarrow> 'k) \<Rightarrow> 'k \<Rightarrow> ('r \<Rightarrow> string) \<Rightarrow> ('r \<Rightarrow> 'r) \<Rightarrow> 'r \<Rightarrow> 'r list \<Rightarrow> pg_code + (string \<times> 'r list)" where
  "upsert_rows key k ident upd new rows =
     (case find (\<lambda>r. key r = k) rows of
        Some old \<Rightarrow> Inr (ident old, map (\<lambda>r. if key r = k then upd r else r) rows)
      | None \<Rightarrow> require (ident new \<notin> ident ` set rows) UniqueViolation (Inr (ident new, rows @ [new])))"

subsubsection \<open>vpn_profiles\<close>

definition profile_types :: "string list" where
  "profile_types = [VPNTypeWireGuard, VPNTypeOpenVPN, VPNTypeLegacy]"

definition sqlListProfiles :: "pg_types \<Rightarrow> profile_row list stmt" where
  "sqlListProfiles t db = Inr (sort_key (\<lambda>r. pg_key t (vr_name r)) (db_profiles db), db)"

definition sqlGetProfile :: "pg_types \<Rightarrow> string \<Rightarrow> profile_row option stmt" where
  "sqlGetProfile t i db =
     conv (pg_uuid t i) (\<lambda>i. Inr (find (\<lambda>r. vr_id r = i) (db_profiles db), db))"

definition sqlUpsertProfile ::
  "pg_types \<Rightarrow> stmt_env \<Rightarrow> string \<Rightarrow> string \<Rightarrow> string \<Rightarrow> string \<Rightarrow> bool \<Rightarrow> string stmt" where
  "sqlUpsertProfile t env name typ cfg secret enabled db =
     conv (pg_varchar t 255 name) (\<lambda>name.
     conv (pg_varchar t 50 typ) (\<lambda>typ.
     conv (pg_jsonb t cfg) (\<lambda>cfg.
     conv (nullif_varchar t 255 secret) (\<lambda>secret.
     require (typ \<in> set profile_types) CheckViolation
       (map_sum id (\<lambda>(i, rows). (i, db\<lparr>db_profiles := rows\<rparr>))
         (upsert_rows vr_name name vr_id
           (\<lambda>r. r\<lparr>vr_type := typ, vr_config := cfg, vr_secret_ref := secret, vr_enabled := enabled,
                  vr_updated := se_now env\<rparr>)
           \<lparr>vr_id = se_newid env, vr_name = name, vr_type = typ, vr_config = cfg, vr_secret_ref = secret,
            vr_enabled = enabled, vr_created = se_now env, vr_updated = se_now env\<rparr>
           (db_profiles db)))))))"

text \<open>Deleting a profile: targets keep their row without the reference (an update, so stamped), tiers go.\<close>

definition sqlDeleteProfile :: "pg_types \<Rightarrow> stmt_env \<Rightarrow> string \<Rightarrow> unit stmt" where
  "sqlDeleteProfile t env i db =
     conv (pg_uuid t i) (\<lambda>i. Inr ((), db\<lparr>
       db_profiles := filter (\<lambda>r. vr_id r \<noteq> i) (db_profiles db),
       db_targets := map (\<lambda>r. if tr_profile r = Some i \<and> i \<in> vr_id ` set (db_profiles db)
                              then r\<lparr>tr_profile := None, tr_updated := se_now env\<rparr> else r) (db_targets db),
       db_tiers := filter (\<lambda>r. \<not> (ti_profile r = i \<and> i \<in> vr_id ` set (db_profiles db))) (db_tiers db)\<rparr>))"

subsubsection \<open>target_hosts\<close>

definition protocols :: "string list" where
  "protocols = [''http'', ''https'', ''tcp'', ''socks5'']"

definition sqlListTargets :: "pg_types \<Rightarrow> target_row list stmt" where
  "sqlListTargets t db = Inr (sort_key (\<lambda>r. pg_key t (tr_alias r)) (db_targets db), db)"

definition sqlGetTargetHost :: "pg_types \<Rightarrow> string \<Rightarrow> target_row option stmt" where
  "sqlGetTargetHost t a db =
     require (pg_text t a) DataException (Inr (find (\<lambda>r. tr_alias r = a) (db_targets db), db))"

definition sqlUpsertTarget ::
  "pg_types \<Rightarrow> stmt_env \<Rightarrow> string \<Rightarrow> string \<Rightarrow> int \<Rightarrow> string \<Rightarrow> string \<Rightarrow> string \<Rightarrow> bool \<Rightarrow> string stmt" where
  "sqlUpsertTarget t env a ip port proto prof health enabled db =
     conv (pg_varchar t 255 a) (\<lambda>a.
     conv (pg_inet t ip) (\<lambda>ip.
     conv (pg_varchar t 10 proto) (\<lambda>proto.
     conv (nullif_uuid t prof) (\<lambda>prof.
     conv (nullif_varchar t 500 health) (\<lambda>health.
     require (1 \<le> port \<and> port \<le> 65535 \<and> proto \<in> set protocols) CheckViolation
     (require (references prof (map vr_id (db_profiles db))) ForeignKeyViolation
       (map_sum id (\<lambda>(i, rows). (i, db\<lparr>db_targets := rows\<rparr>))
         (upsert_rows tr_alias a tr_id
           (\<lambda>r. r\<lparr>tr_ip := ip, tr_port := port, tr_protocol := proto, tr_profile := prof,
                  tr_health := health, tr_enabled := enabled, tr_updated := se_now env\<rparr>)
           \<lparr>tr_id = se_newid env, tr_alias = a, tr_ip = ip, tr_port = port, tr_protocol = proto,
            tr_profile = prof, tr_health = health, tr_enabled = enabled,
            tr_created = se_now env, tr_updated = se_now env\<rparr>
           (db_targets db)))))))))"

definition sqlDeleteTarget :: "pg_types \<Rightarrow> string \<Rightarrow> unit stmt" where
  "sqlDeleteTarget t i db =
     conv (pg_uuid t i) (\<lambda>i. Inr ((), db\<lparr>
       db_targets := filter (\<lambda>r. tr_id r \<noteq> i) (db_targets db),
       db_tiers := filter (\<lambda>r. \<not> (ti_target r = i \<and> i \<in> tr_id ` set (db_targets db))) (db_tiers db),
       db_rules := filter (\<lambda>r. \<not> (rr_target r = Some i \<and> i \<in> tr_id ` set (db_targets db))) (db_rules db)\<rparr>))"

subsubsection \<open>proxy_rules\<close>

text \<open>\<open>ORDER BY priority DESC, created_at ASC\<close>: sorted by the second key, then stably by the first.\<close>

definition rule_order :: "rule_row list \<Rightarrow> rule_row list" where
  "rule_order rows = sort_key (\<lambda>r. - rr_priority r) (sort_key rr_created rows)"

definition sqlListRules :: "rule_row list stmt" where
  "sqlListRules db = Inr (rule_order (db_rules db), db)"

definition sqlGetRuleByHost :: "pg_types \<Rightarrow> string \<Rightarrow> rule_row option stmt" where
  "sqlGetRuleByHost t host db =
     require (pg_text t host) DataException
       (Inr (case rule_order (filter (\<lambda>r. rr_enabled r \<and> rr_host r = Some host) (db_rules db)) of
               [] \<Rightarrow> None
             | r # _ \<Rightarrow> Some r, db))"

definition sqlInsertRule ::
  "pg_types \<Rightarrow> stmt_env \<Rightarrow> int \<Rightarrow> string \<Rightarrow> string \<Rightarrow> string \<Rightarrow> bool \<Rightarrow> string stmt" where
  "sqlInsertRule t env priority host path tgt enabled db =
     conv (nullif_varchar t 255 host) (\<lambda>host.
     conv (nullif_varchar t 500 path) (\<lambda>path.
     conv (nullif_uuid t tgt) (\<lambda>tgt.
     require (host \<noteq> None \<or> path \<noteq> None) CheckViolation
     (require (se_newid env \<notin> rr_id ` set (db_rules db)) UniqueViolation
     (require (references tgt (map tr_id (db_targets db))) ForeignKeyViolation
       (Inr (se_newid env, db\<lparr>db_rules := db_rules db @
         [\<lparr>rr_id = se_newid env, rr_priority = priority, rr_host = host, rr_path = path, rr_target = tgt,
           rr_enabled = enabled, rr_created = se_now env, rr_updated = se_now env\<rparr>]\<rparr>)))))))"

text \<open>\<open>UPDATE ... RETURNING id\<close>: no row when no rule has the identifier.\<close>

definition sqlUpdateRule ::
  "pg_types \<Rightarrow> stmt_env \<Rightarrow> string \<Rightarrow> int \<Rightarrow> string \<Rightarrow> string \<Rightarrow> string \<Rightarrow> bool \<Rightarrow> string option stmt" where
  "sqlUpdateRule t env i priority host path tgt enabled db =
     conv (pg_uuid t i) (\<lambda>i.
     if i \<notin> rr_id ` set (db_rules db) \<and> \<not> se_folds env then Inr (None, db) else
     conv (nullif_varchar t 255 host) (\<lambda>host.
     conv (nullif_varchar t 500 path) (\<lambda>path.
     conv (nullif_uuid t tgt) (\<lambda>tgt.
     if i \<notin> rr_id ` set (db_rules db) then Inr (None, db) else
     require (host \<noteq> None \<or> path \<noteq> None) CheckViolation
     (require (references tgt (map tr_id (db_targets db))) ForeignKeyViolation
       (Inr (Some i, db\<lparr>db_rules := map (\<lambda>r. if rr_id r = i
         then r\<lparr>rr_priority := priority, rr_host := host, rr_path := path, rr_target := tgt,
                rr_enabled := enabled, rr_updated := se_now env\<rparr> else r) (db_rules db)\<rparr>)))))))"

definition sqlDeleteRule :: "pg_types \<Rightarrow> string \<Rightarrow> unit stmt" where
  "sqlDeleteRule t i db =
     conv (pg_uuid t i) (\<lambda>i. Inr ((), db\<lparr>db_rules := filter (\<lambda>r. rr_id r \<noteq> i) (db_rules db)\<rparr>))"

subsubsection \<open>target_tunnel_tiers\<close>

definition sqlListTiers :: "pg_types \<Rightarrow> string \<Rightarrow> tier_row list stmt" where
  "sqlListTiers t i db =
     conv (pg_uuid t i) (\<lambda>i. Inr (sort_key ti_tier (filter (\<lambda>r. ti_target r = i) (db_tiers db)), db))"

text \<open>
  The conflict is on (target, tier); the other uniqueness constraint, one tier per target
  and profile, may still refuse the row.
\<close>

definition sqlUpsertTier :: "pg_types \<Rightarrow> stmt_env \<Rightarrow> string \<Rightarrow> string \<Rightarrow> int \<Rightarrow> unit stmt" where
  "sqlUpsertTier t env target prof tier db =
     conv (pg_uuid t target) (\<lambda>target.
     conv (pg_uuid t prof) (\<lambda>prof.
     require (0 \<le> tier) CheckViolation
     (require (\<forall>r \<in> set (db_tiers db). ti_target r = target \<and> ti_profile r = prof \<longrightarrow> ti_tier r = tier) UniqueViolation
     (require (target \<in> tr_id ` set (db_targets db) \<and> prof \<in> vr_id ` set (db_profiles db)) ForeignKeyViolation
       (Inr ((), db\<lparr>db_tiers :=
         (if (target, tier) \<in> (\<lambda>r. (ti_target r, ti_tier r)) ` set (db_tiers db)
          then map (\<lambda>r. if ti_target r = target \<and> ti_tier r = tier then r\<lparr>ti_profile := prof\<rparr> else r) (db_tiers db)
          else db_tiers db @ [\<lparr>ti_target = target, ti_profile = prof, ti_tier = tier, ti_created = se_now env\<rparr>])\<rparr>))))))"

definition sqlDeleteTier :: "pg_types \<Rightarrow> string \<Rightarrow> int \<Rightarrow> unit stmt" where
  "sqlDeleteTier t target tier db =
     conv (pg_uuid t target) (\<lambda>target.
       Inr ((), db\<lparr>db_tiers := filter (\<lambda>r. \<not> (ti_target r = target \<and> ti_tier r = tier)) (db_tiers db)\<rparr>))"

subsubsection \<open>proxy_users\<close>

definition roles :: "string list" where
  "roles = [''admin'', ''user'']"

text \<open>\<open>length(trim(secret_ref)) > 0\<close>: some character is not a space.\<close>

definition nonblank :: "string \<Rightarrow> bool" where
  "nonblank s \<longleftrightarrow> list_ex (\<lambda>c. c \<noteq> CHR '' '') s"

definition sqlListUsers :: "pg_types \<Rightarrow> user_row list stmt" where
  "sqlListUsers t db = Inr (sort_key (\<lambda>r. pg_key t (ur_username r)) (db_users db), db)"

definition sqlUpsertUser ::
  "pg_types \<Rightarrow> stmt_env \<Rightarrow> string \<Rightarrow> string \<Rightarrow> string \<Rightarrow> bool \<Rightarrow> string stmt" where
  "sqlUpsertUser t env username secret role enabled db =
     conv (pg_varchar t 255 username) (\<lambda>username.
     conv (pg_varchar t 255 secret) (\<lambda>secret.
     conv (pg_varchar t 50 role) (\<lambda>role.
     require (role \<in> set roles \<and> nonblank secret) CheckViolation
       (map_sum id (\<lambda>(i, rows). (i, db\<lparr>db_users := rows\<rparr>))
         (upsert_rows ur_username username ur_id
           (\<lambda>r. r\<lparr>ur_secret_ref := secret, ur_role := role, ur_enabled := enabled, ur_updated := se_now env\<rparr>)
           \<lparr>ur_id = se_newid env, ur_username = username, ur_secret_ref = secret, ur_role = role,
            ur_enabled = enabled, ur_created = se_now env, ur_updated = se_now env\<rparr>
           (db_users db))))))"

subsubsection \<open>audit_log\<close>

definition sqlAppendAudit :: "pg_types \<Rightarrow> stmt_env \<Rightarrow> string \<Rightarrow> string \<Rightarrow> string \<Rightarrow> unit stmt" where
  "sqlAppendAudit t env actor action detail db =
     conv (pg_varchar t 255 actor) (\<lambda>actor.
     conv (pg_varchar t 100 action) (\<lambda>action.
     conv (pg_jsonb t (if detail = [] then ''{}'' else detail)) (\<lambda>detail.
     require (se_seq env \<notin> ar_id ` set (db_audit db)) UniqueViolation
       (Inr ((), db\<lparr>db_audit := db_audit db @
         [\<lparr>ar_id = se_seq env, ar_ts = se_now env, ar_actor = actor, ar_action = action, ar_detail = detail\<rparr>]\<rparr>)))))"

subsection \<open>The schema's invariant\<close>

definition profiles_ok :: "pg_types \<Rightarrow> profile_row list \<Rightarrow> bool" where
  "profiles_ok t rows \<longleftrightarrow> distinct (map vr_id rows) \<and> distinct (map vr_name rows)
     \<and> list_all (\<lambda>r. pg_uuid t (vr_id r) = Some (vr_id r) \<and> vr_type r \<in> set profile_types) rows"

definition targets_ok :: "pg_types \<Rightarrow> string list \<Rightarrow> target_row list \<Rightarrow> bool" where
  "targets_ok t profiles rows \<longleftrightarrow> distinct (map tr_id rows) \<and> distinct (map tr_alias rows)
     \<and> list_all (\<lambda>r. pg_uuid t (tr_id r) = Some (tr_id r) \<and> 1 \<le> tr_port r \<and> tr_port r \<le> 65535
         \<and> tr_protocol r \<in> set protocols \<and> references (tr_profile r) profiles) rows"

definition tiers_ok :: "string list \<Rightarrow> string list \<Rightarrow> tier_row list \<Rightarrow> bool" where
  "tiers_ok profiles targets rows \<longleftrightarrow>
     distinct (map (\<lambda>r. (ti_target r, ti_tier r)) rows) \<and> distinct (map (\<lambda>r. (ti_target r, ti_profile r)) rows)
     \<and> list_all (\<lambda>r. 0 \<le> ti_tier r \<and> ti_target r \<in> set targets \<and> ti_profile r \<in> set profiles) rows"

definition rules_ok :: "pg_types \<Rightarrow> string list \<Rightarrow> rule_row list \<Rightarrow> bool" where
  "rules_ok t targets rows \<longleftrightarrow> distinct (map rr_id rows)
     \<and> list_all (\<lambda>r. pg_uuid t (rr_id r) = Some (rr_id r) \<and> (rr_host r \<noteq> None \<or> rr_path r \<noteq> None)
         \<and> references (rr_target r) targets) rows"

definition users_ok :: "user_row list \<Rightarrow> bool" where
  "users_ok rows \<longleftrightarrow> distinct (map ur_id rows) \<and> distinct (map ur_username rows)
     \<and> list_all (\<lambda>r. ur_role r \<in> set roles \<and> nonblank (ur_secret_ref r)) rows"

definition db_ok :: "pg_types \<Rightarrow> db \<Rightarrow> bool" where
  "db_ok t db \<longleftrightarrow> profiles_ok t (db_profiles db)
     \<and> targets_ok t (map vr_id (db_profiles db)) (db_targets db)
     \<and> tiers_ok (map vr_id (db_profiles db)) (map tr_id (db_targets db)) (db_tiers db)
     \<and> rules_ok t (map tr_id (db_targets db)) (db_rules db)
     \<and> users_ok (db_users db)
     \<and> distinct (map ar_id (db_audit db))"

lemmas schema_defs = profiles_ok_def targets_ok_def tiers_ok_def rules_ok_def users_ok_def

definition env_ok :: "pg_types \<Rightarrow> stmt_env \<Rightarrow> bool" where
  "env_ok t env \<longleftrightarrow> pg_uuid t (se_newid env) = Some (se_newid env)"

subsubsection \<open>Successful statements\<close>

lemma conv_Inr [simp]: "conv x k = Inr v \<longleftrightarrow> (\<exists>y. x = Some y \<and> k y = Inr v)"
  by (auto simp: conv_def split: option.splits)

lemma require_Inr [simp]: "require p c r = Inr v \<longleftrightarrow> p \<and> r = Inr v"
  by (auto simp: require_def)

lemma map_sum_Inr [simp]: "map_sum f g x = Inr y \<longleftrightarrow> (\<exists>z. x = Inr z \<and> y = g z)"
  by (cases x) auto

lemma upsert_rows_cases [consumes 1, case_names update insert]:
  assumes "upsert_rows key k ident upd new rows = Inr (i, rows')"
  obtains old where "old \<in> set rows" and "key old = k" and "i = ident old"
    and "rows' = map (\<lambda>r. if key r = k then upd r else r) rows"
  | "k \<notin> key ` set rows" and "i = ident new" and "ident new \<notin> ident ` set rows" and "rows' = rows @ [new]"
proof (cases "find (\<lambda>r. key r = k) rows")
  case (Some old)
  then have "old \<in> set rows" "key old = k" by (auto simp: find_Some_iff)
  then show ?thesis using assms Some by (intro that(1)) (auto simp: upsert_rows_def)
next
  case None
  then have "k \<notin> key ` set rows" by (auto simp: find_None_iff)
  then show ?thesis using assms None by (intro that(2)) (auto simp: upsert_rows_def)
qed

text \<open>Looking a row up by a key.\<close>

lemma distinct_map_filter_intro: "distinct (map f xs) \<Longrightarrow> distinct (map f (filter P xs))"
  by (rule distinct_map_filter)

lemma find_map_keep:
  assumes "\<And>r. key (g r) = key r"
  shows "find (\<lambda>r. key r = k) (map g rows) = map_option g (find (\<lambda>r. key r = k) rows)"
  using assms by (induction rows) auto

lemma find_SomeE: "find P xs = Some x \<Longrightarrow> x \<in> set xs \<and> P x"
  by (induction xs) (auto split: if_splits)

lemma find_append: "find P (xs @ ys) = (case find P xs of None \<Rightarrow> find P ys | Some x \<Rightarrow> Some x)"
  by (induction xs) auto

lemma find_key_Some:
  assumes "distinct (map key rows)"
  shows "find (\<lambda>r. key r = k) rows = Some r \<longleftrightarrow> r \<in> set rows \<and> key r = k"
proof
  show "r \<in> set rows \<and> key r = k" if "find (\<lambda>r. key r = k) rows = Some r"
    using that by (auto simp: find_Some_iff)
next
  assume r: "r \<in> set rows \<and> key r = k"
  then obtain r' where r': "find (\<lambda>r. key r = k) rows = Some r'"
    by (cases "find (\<lambda>r. key r = k) rows") (auto simp: find_None_iff)
  then have "r' \<in> set rows" "key r' = k" by (auto simp: find_Some_iff)
  with r have "r' = r" using assms by (auto simp: distinct_map inj_on_def)
  with r' show "find (\<lambda>r. key r = k) rows = Some r" by simp
qed

lemma find_key_filter:
  assumes "distinct (map key rows)"
  shows "find (\<lambda>r. key r = k) (filter P rows)
    = (case find (\<lambda>r. key r = k) rows of Some r \<Rightarrow> if P r then Some r else None | None \<Rightarrow> None)"
proof (cases "find (\<lambda>r. key r = k) rows")
  case None
  then have "find (\<lambda>r. key r = k) (filter P rows) = None" by (auto simp: find_None_iff)
  then show ?thesis using None by simp
next
  case (Some r)
  then have r: "r \<in> set rows" "key r = k" by (auto simp: find_Some_iff)
  show ?thesis
  proof (cases "P r")
    case True
    then show ?thesis
      using r Some find_key_Some [OF distinct_map_filter_intro [OF assms, of P], of k r] by simp
  next
    case False
    have "find (\<lambda>r. key r = k) (filter P rows) = None"
      unfolding find_None_iff using r False assms by (auto simp: distinct_map inj_on_def)
    then show ?thesis using Some False by simp
  qed
qed

lemma find_drop:
  assumes "distinct (map ident rows)" and "distinct (map key rows)" and "p \<in> set rows"
  shows "find (\<lambda>r. key r = k) (filter (\<lambda>r. ident r \<noteq> ident p) rows)
    = (if k = key p then None else find (\<lambda>r. key r = k) rows)"
proof (cases "find (\<lambda>r. key r = k) rows")
  case None
  then show ?thesis by (auto simp: find_key_filter [OF assms(2)])
next
  case (Some r)
  then have "r \<in> set rows" "key r = k" using find_SomeE by force+
  then have "ident r = ident p \<longleftrightarrow> k = key p"
    using assms by (auto simp: distinct_map inj_on_def)
  then show ?thesis using Some by (auto simp: find_key_filter [OF assms(2)])
qed

text \<open>What an upsert keeps of a table whose keys and identifiers are distinct.\<close>

lemma upsert_rows_ids:
  assumes "upsert_rows key k ident upd new rows = Inr (i, rows')"
    and "\<And>r. ident (upd r) = ident r"
  shows "set (map ident rows') = insert i (set (map ident rows))"
  using assms by (cases rule: upsert_rows_cases) (auto simp: image_iff)

lemma upsert_rows_ok:
  assumes "upsert_rows key k ident upd new rows = Inr (i, rows')"
    and "\<And>r. ident (upd r) = ident r" and "\<And>r. key (upd r) = key r" and "key new = k"
    and "distinct (map ident rows)" and "distinct (map key rows)" and "list_all P rows"
    and "\<And>r. r \<in> set rows \<Longrightarrow> P r \<Longrightarrow> P (upd r)" and "P new"
  shows "distinct (map ident rows') \<and> distinct (map key rows') \<and> list_all P rows'"
  using assms(1)
proof (cases rule: upsert_rows_cases)
  case (update old)
  have "map ident rows' = map ident rows" "map key rows' = map key rows"
    using assms(2,3) by (simp_all add: update)
  then have "distinct (map ident rows')" "distinct (map key rows')" using assms(5,6) by argo+
  moreover have "list_all P rows'" using assms(7,8) by (auto simp: update list_all_iff)
  ultimately show ?thesis by blast
next
  case insert
  then show ?thesis using assms(4-7,9) by auto
qed

lemma references_mono: "set ids \<subseteq> set ids' \<Longrightarrow> references x ids \<Longrightarrow> references x ids'"
  by (auto simp: references_def split: option.splits)

lemma targets_ok_mono: "targets_ok t ids rows \<Longrightarrow> set ids \<subseteq> set ids' \<Longrightarrow> targets_ok t ids' rows"
  by (auto simp: targets_ok_def list_all_iff intro: references_mono)

lemma tiers_ok_mono:
  "tiers_ok ids ids2 rows \<Longrightarrow> set ids \<subseteq> set ids' \<Longrightarrow> set ids2 \<subseteq> set ids2' \<Longrightarrow> tiers_ok ids' ids2' rows"
  by (auto simp: tiers_ok_def list_all_iff)

lemma rules_ok_mono: "rules_ok t ids rows \<Longrightarrow> set ids \<subseteq> set ids' \<Longrightarrow> rules_ok t ids' rows"
  by (auto simp: rules_ok_def list_all_iff intro: references_mono)

subsubsection \<open>Every statement keeps the invariant\<close>

lemma sqlUpsertProfile_ok:
  assumes "sqlUpsertProfile t env name typ cfg secret enabled db = Inr (i, db')"
    and "db_ok t db" and "env_ok t env"
  shows "db_ok t db'"
proof -
  obtain name' typ' cfg' secret' rows where ty: "typ' \<in> set profile_types"
    and up: "upsert_rows vr_name name' vr_id
      (\<lambda>r. r\<lparr>vr_type := typ', vr_config := cfg', vr_secret_ref := secret', vr_enabled := enabled,
             vr_updated := se_now env\<rparr>)
      \<lparr>vr_id = se_newid env, vr_name = name', vr_type = typ', vr_config = cfg', vr_secret_ref = secret',
       vr_enabled = enabled, vr_created = se_now env, vr_updated = se_now env\<rparr> (db_profiles db) = Inr (i, rows)"
    and db': "db' = db\<lparr>db_profiles := rows\<rparr>"
    using assms(1) by (auto simp: sqlUpsertProfile_def)
  have "profiles_ok t rows"
    unfolding profiles_ok_def
    by (rule upsert_rows_ok [OF up]) (use assms(2,3) ty in \<open>auto simp: db_ok_def profiles_ok_def env_ok_def\<close>)
  moreover have ids: "set (map vr_id (db_profiles db)) \<subseteq> set (map vr_id rows)"
    using upsert_rows_ids [OF up] by auto
  ultimately show ?thesis
    using assms(2) targets_ok_mono [OF _ ids] tiers_ok_mono [OF _ ids subset_refl] by (simp add: db_ok_def db')
qed

lemma sqlUpsertTarget_ok:
  assumes "sqlUpsertTarget t env a ip port proto prof health enabled db = Inr (i, db')"
    and "db_ok t db" and "env_ok t env"
  shows "db_ok t db'"
proof -
  obtain a' ip' proto' prof' health' rows where chk: "1 \<le> port" "port \<le> 65535" "proto' \<in> set protocols"
      "references prof' (map vr_id (db_profiles db))"
    and up: "upsert_rows tr_alias a' tr_id
      (\<lambda>r. r\<lparr>tr_ip := ip', tr_port := port, tr_protocol := proto', tr_profile := prof',
             tr_health := health', tr_enabled := enabled, tr_updated := se_now env\<rparr>)
      \<lparr>tr_id = se_newid env, tr_alias = a', tr_ip = ip', tr_port = port, tr_protocol = proto',
       tr_profile = prof', tr_health = health', tr_enabled = enabled,
       tr_created = se_now env, tr_updated = se_now env\<rparr> (db_targets db) = Inr (i, rows)"
    and db': "db' = db\<lparr>db_targets := rows\<rparr>"
    using assms(1) by (auto simp: sqlUpsertTarget_def)
  have "targets_ok t (map vr_id (db_profiles db)) rows"
    unfolding targets_ok_def
    by (rule upsert_rows_ok [OF up]) (use assms(2,3) chk in \<open>auto simp: db_ok_def targets_ok_def env_ok_def\<close>)
  moreover have ids: "set (map tr_id (db_targets db)) \<subseteq> set (map tr_id rows)"
    using upsert_rows_ids [OF up] by auto
  ultimately show ?thesis
    using assms(2) rules_ok_mono [OF _ ids] tiers_ok_mono [OF _ subset_refl ids] by (simp add: db_ok_def db')
qed

lemma sqlUpsertUser_ok:
  assumes "sqlUpsertUser t env u secret role enabled db = Inr (i, db')" and "db_ok t db"
  shows "db_ok t db'"
proof -
  obtain u' secret' role' rows where chk: "role' \<in> set roles" "nonblank secret'"
    and up: "upsert_rows ur_username u' ur_id
      (\<lambda>r. r\<lparr>ur_secret_ref := secret', ur_role := role', ur_enabled := enabled, ur_updated := se_now env\<rparr>)
      \<lparr>ur_id = se_newid env, ur_username = u', ur_secret_ref = secret', ur_role = role',
       ur_enabled = enabled, ur_created = se_now env, ur_updated = se_now env\<rparr> (db_users db) = Inr (i, rows)"
    and db': "db' = db\<lparr>db_users := rows\<rparr>"
    using assms(1) by (auto simp: sqlUpsertUser_def)
  have "users_ok rows"
    unfolding users_ok_def
    by (rule upsert_rows_ok [OF up]) (use assms(2) chk in \<open>auto simp: db_ok_def users_ok_def\<close>)
  then show ?thesis using assms(2) by (auto simp: db_ok_def db')
qed

lemma targets_ok_map:
  assumes "targets_ok t ids rows" and "list_all (\<lambda>r. references (tr_profile (g r)) ids') rows"
    and "\<And>r. tr_id (g r) = tr_id r" and "\<And>r. tr_alias (g r) = tr_alias r"
    and "\<And>r. tr_port (g r) = tr_port r" and "\<And>r. tr_protocol (g r) = tr_protocol r"
  shows "targets_ok t ids' (map g rows)"
  using assms(1,2) by (simp add: targets_ok_def assms(3-6) list_all_iff comp_def)

lemma sqlDeleteProfile_ok:
  assumes "sqlDeleteProfile t env i db = Inr (u, db')" and "db_ok t db"
  shows "db_ok t db'"
proof -
  obtain j where db': "db' = db\<lparr>db_profiles := filter (\<lambda>r. vr_id r \<noteq> j) (db_profiles db),
       db_targets := map (\<lambda>r. if tr_profile r = Some j \<and> j \<in> vr_id ` set (db_profiles db)
                              then r\<lparr>tr_profile := None, tr_updated := se_now env\<rparr> else r) (db_targets db),
       db_tiers := filter (\<lambda>r. \<not> (ti_profile r = j \<and> j \<in> vr_id ` set (db_profiles db))) (db_tiers db)\<rparr>"
    using assms(1) by (auto simp: sqlDeleteProfile_def)
  have "profiles_ok t (db_profiles db')"
    using assms(2) by (auto simp: db_ok_def profiles_ok_def db' list_all_iff intro: distinct_map_filter_intro)
  moreover have "list_all (\<lambda>r. references (tr_profile (if tr_profile r = Some j \<and> j \<in> vr_id ` set (db_profiles db)
      then r\<lparr>tr_profile := None, tr_updated := se_now env\<rparr> else r)) (map vr_id (db_profiles db'))) (db_targets db)"
    using assms(2)
    by (fastforce simp: db_ok_def targets_ok_def db' list_all_iff references_def split: option.splits if_splits)
  then have "targets_ok t (map vr_id (db_profiles db')) (db_targets db')"
    using assms(2) unfolding db' by (auto simp: db_ok_def intro!: targets_ok_map)
  moreover have ids: "map tr_id (db_targets db') = map tr_id (db_targets db)" by (simp add: db')
  have "tiers_ok (map vr_id (db_profiles db')) (map tr_id (db_targets db')) (db_tiers db')"
    unfolding ids using assms(2)
    by (auto simp: db_ok_def tiers_ok_def db' list_all_iff intro: distinct_map_filter_intro)
  moreover have "rules_ok t (map tr_id (db_targets db')) (db_rules db')"
    unfolding ids using assms(2) by (simp add: db_ok_def db')
  moreover have "users_ok (db_users db')" "distinct (map ar_id (db_audit db'))"
    using assms(2) by (simp_all add: db_ok_def db')
  ultimately show ?thesis by (simp add: db_ok_def)
qed

lemma sqlDeleteTarget_ok:
  assumes "sqlDeleteTarget t i db = Inr (u, db')" and "db_ok t db"
  shows "db_ok t db'"
proof -
  obtain j where db': "db' = db\<lparr>db_targets := filter (\<lambda>r. tr_id r \<noteq> j) (db_targets db),
       db_tiers := filter (\<lambda>r. \<not> (ti_target r = j \<and> j \<in> tr_id ` set (db_targets db))) (db_tiers db),
       db_rules := filter (\<lambda>r. \<not> (rr_target r = Some j \<and> j \<in> tr_id ` set (db_targets db))) (db_rules db)\<rparr>"
    using assms(1) by (auto simp: sqlDeleteTarget_def)
  have "targets_ok t (map vr_id (db_profiles db)) (db_targets db')"
    using assms(2) by (auto simp: db_ok_def targets_ok_def db' list_all_iff intro: distinct_map_filter_intro)
  moreover have "tiers_ok (map vr_id (db_profiles db)) (map tr_id (db_targets db')) (db_tiers db')"
    using assms(2) by (auto simp: db_ok_def tiers_ok_def db' list_all_iff intro: distinct_map_filter_intro)
  moreover have "references (rr_target r) (map tr_id (db_targets db'))" if "r \<in> set (db_rules db')" for r
    using assms(2) that by (fastforce simp: db_ok_def rules_ok_def db' list_all_iff references_def split: option.splits)
  then have "rules_ok t (map tr_id (db_targets db')) (db_rules db')"
    using assms(2) by (auto simp: db_ok_def rules_ok_def db' list_all_iff intro: distinct_map_filter_intro)
  ultimately show ?thesis using assms(2) by (auto simp: db_ok_def db')
qed

lemma sqlInsertRule_ok:
  assumes "sqlInsertRule t env priority host path tgt enabled db = Inr (i, db')"
    and "db_ok t db" and "env_ok t env"
  shows "db_ok t db'"
  using assms by (auto simp: sqlInsertRule_def db_ok_def rules_ok_def env_ok_def)

lemma sqlUpdateRule_ok:
  assumes "sqlUpdateRule t env i priority host path tgt enabled db = Inr (v, db')" and "db_ok t db"
  shows "db_ok t db'"
proof (cases v)
  case None
  then have "db' = db" using assms(1) by (auto simp: sqlUpdateRule_def split: if_splits)
  then show ?thesis using assms(2) by simp
next
  case (Some j)
  then obtain host' path' tgt' where db': "db' = db\<lparr>db_rules := map (\<lambda>r. if rr_id r = j
         then r\<lparr>rr_priority := priority, rr_host := host', rr_path := path', rr_target := tgt',
                rr_enabled := enabled, rr_updated := se_now env\<rparr> else r) (db_rules db)\<rparr>"
    and chk: "host' \<noteq> None \<or> path' \<noteq> None" "references tgt' (map tr_id (db_targets db))"
    using assms(1) by (auto simp: sqlUpdateRule_def split: if_splits intro!: that)
  have "map rr_id (db_rules db') = map rr_id (db_rules db)" by (simp add: db')
  then have "distinct (map rr_id (db_rules db'))" using assms(2) by (simp add: db_ok_def rules_ok_def)
  then show ?thesis using assms(2) chk by (auto simp: db_ok_def rules_ok_def db' list_all_iff)
qed

lemma sqlDeleteRule_ok:
  assumes "sqlDeleteRule t i db = Inr (u, db')" and "db_ok t db"
  shows "db_ok t db'"
  using assms by (auto simp: sqlDeleteRule_def db_ok_def rules_ok_def list_all_iff intro: distinct_map_filter_intro)

lemma sqlUpsertTier_ok:
  assumes "sqlUpsertTier t env target prof tier db = Inr (u, db')" and "db_ok t db"
  shows "db_ok t db'"
proof -
  obtain g p rows where chk: "0 \<le> tier" "g \<in> tr_id ` set (db_targets db)" "p \<in> vr_id ` set (db_profiles db)"
      "\<forall>r \<in> set (db_tiers db). ti_target r = g \<and> ti_profile r = p \<longrightarrow> ti_tier r = tier"
    and rows: "rows = (if (g, tier) \<in> (\<lambda>r. (ti_target r, ti_tier r)) ` set (db_tiers db)
          then map (\<lambda>r. if ti_target r = g \<and> ti_tier r = tier then r\<lparr>ti_profile := p\<rparr> else r) (db_tiers db)
          else db_tiers db @ [\<lparr>ti_target = g, ti_profile = p, ti_tier = tier, ti_created = se_now env\<rparr>])"
    and db': "db' = db\<lparr>db_tiers := rows\<rparr>"
    using assms(1) by (auto simp: sqlUpsertTier_def)
  note ok = assms(2) [unfolded db_ok_def tiers_ok_def]
  have "distinct (map (\<lambda>r. (ti_target r, ti_tier r)) rows)
    \<and> distinct (map (\<lambda>r. (ti_target r, ti_profile r)) rows)"
  proof (cases "(g, tier) \<in> (\<lambda>r. (ti_target r, ti_tier r)) ` set (db_tiers db)")
    case True
    let ?upd = "\<lambda>r. if ti_target r = g \<and> ti_tier r = tier then r\<lparr>ti_profile := p\<rparr> else r"
    have "map (\<lambda>r. (ti_target r, ti_tier r)) rows = map (\<lambda>r. (ti_target r, ti_tier r)) (db_tiers db)"
      by (simp add: rows True)
    moreover have "inj_on (\<lambda>r. (ti_target (?upd r), ti_profile (?upd r))) (set (db_tiers db))"
      using ok chk(4) by (auto simp: inj_on_def distinct_map split: if_splits)
    then have "distinct (map (\<lambda>r. (ti_target (?upd r), ti_profile (?upd r))) (db_tiers db))"
      using ok by (simp add: distinct_map)
    then have "distinct (map (\<lambda>r. (ti_target r, ti_profile r)) rows)"
      by (simp add: rows True comp_def)
    ultimately show ?thesis using ok by simp
  next
    case False
    then show ?thesis using ok chk(4) by (auto simp: rows image_iff)
  qed
  moreover have "list_all (\<lambda>r. 0 \<le> ti_tier r \<and> ti_target r \<in> set (map tr_id (db_targets db))
      \<and> ti_profile r \<in> set (map vr_id (db_profiles db))) rows"
    using ok chk by (auto simp: rows list_all_iff)
  ultimately show ?thesis using assms(2) by (simp add: db_ok_def tiers_ok_def db')
qed

lemma sqlDeleteTier_ok:
  assumes "sqlDeleteTier t target tier db = Inr (u, db')" and "db_ok t db"
  shows "db_ok t db'"
  using assms by (auto simp: sqlDeleteTier_def db_ok_def tiers_ok_def list_all_iff intro: distinct_map_filter_intro)

lemma sqlAppendAudit_ok:
  assumes "sqlAppendAudit t env actor action detail db = Inr (u, db')" and "db_ok t db"
  shows "db_ok t db'"
  using assms by (auto simp: sqlAppendAudit_def db_ok_def)

subsection \<open>What is relied on of the server's types\<close>

text \<open>
  The documented behaviour of the conversions: what a type stores, it accepts back
  unchanged; identifiers and addresses are not empty; stored text is text; the collation
  tells different strings apart.
\<close>

locale pg_laws =
  fixes t :: pg_types
  assumes uuid_canon: "pg_uuid t s = Some u \<Longrightarrow> u \<noteq> [] \<and> pg_uuid t u = Some u"
    and inet_canon: "pg_inet t s = Some u \<Longrightarrow> u \<noteq> [] \<and> pg_inet t u = Some u"
    and jsonb_canon: "pg_jsonb t s = Some u \<Longrightarrow> u \<noteq> [] \<and> pg_jsonb t u = Some u"
    and varchar_canon: "pg_varchar t n s = Some u \<Longrightarrow> pg_text t u \<and> pg_varchar t n u = Some u"
    and key_inj: "inj (pg_key t)"
begin

lemma nullif_uuid_coalesce: "nullif_uuid t s = Some x \<Longrightarrow> nullif_uuid t (coalesce x) = Some x"
  using uuid_canon by (auto simp: nullif_uuid_def coalesce_def split: if_splits option.splits)

text \<open>The order of a listing is determined by the rows, not by how the table keeps them.\<close>

lemma listing_perm:
  assumes "distinct (map f rows)" and "mset rows = mset rows'"
  shows "sort_key (\<lambda>r. pg_key t (f r)) rows = sort_key (\<lambda>r. pg_key t (f r)) rows'"
proof (rule sort_key_perm_eq [OF assms(2)])
  have "map (\<lambda>r. pg_key t (f r)) rows = map (pg_key t) (map f rows)" by simp
  then show "distinct (map (\<lambda>r. pg_key t (f r)) rows)"
    using assms(1) key_inj by (metis distinct_map inj_on_subset subset_UNIV)
qed

end

text \<open>
  A concrete instance: the C collation, lower-case UUIDs, dotted IPv4 addresses, JSON in
  Go's compact form, and text without NUL that is refused when it is too long.
\<close>

definition ref_text :: "string \<Rightarrow> bool" where
  "ref_text s \<longleftrightarrow> valid_utf8 s \<and> CHR 0x00 \<notin> set s"

definition ref_uuid :: "string \<Rightarrow> string option" where
  "ref_uuid s =
     (if map length (Split s CHR ''-'') = [8, 4, 4, 4, 12]
         \<and> list_all (\<lambda>c. is_digit c \<or> c \<in> set ''abcdef-'') s then Some s else None)"

definition ref_inet :: "string \<Rightarrow> string option" where
  "ref_inet s =
     (if length (Split s CHR ''.'') = 4
         \<and> list_all (\<lambda>f. f = show_nat (dec_val f) \<and> dec_val f < 256) (Split s CHR ''.'') then Some s else None)"

definition ref_jsonb :: "string \<Rightarrow> string option" where
  "ref_jsonb s =
     (case parse_json s of Some v \<Rightarrow> if wf_json v then Some (print_json v) else None | None \<Rightarrow> None)"

definition ref_types :: pg_types where
  "ref_types =
     \<lparr>pg_text = ref_text,
      pg_varchar = (\<lambda>n s. if ref_text s \<and> length (runes s) \<le> n then Some s else None),
      pg_uuid = ref_uuid, pg_inet = ref_inet, pg_jsonb = ref_jsonb, pg_key = map of_char\<rparr>"

interpretation ref_pg: pg_laws ref_types
proof
  fix s u
  show "u \<noteq> [] \<and> pg_uuid ref_types u = Some u" if "pg_uuid ref_types s = Some u"
    using that by (auto simp: ref_types_def ref_uuid_def split: if_splits)
  show "u \<noteq> [] \<and> pg_inet ref_types u = Some u" if "pg_inet ref_types s = Some u"
    using that by (auto simp: ref_types_def ref_inet_def split: if_splits)
  show "u \<noteq> [] \<and> pg_jsonb ref_types u = Some u" if "pg_jsonb ref_types s = Some u"
    using that print_json_hd by (fastforce simp: ref_types_def ref_jsonb_def parse_print split: if_splits option.splits)
  show "pg_text ref_types u \<and> pg_varchar ref_types n u = Some u" if "pg_varchar ref_types n s = Some u" for n
    using that by (auto simp: ref_types_def split: if_splits)
  show "inj (pg_key ref_types)"
    by (simp add: ref_types_def inj_mapI inj_of_char)
qed

subsection \<open>A concrete database\<close>

lemma runes_visible: "visible_string s \<Longrightarrow> length (runes s) = length s"
  by (subst runes_ascii) (auto simp: list_all_iff visible_def)

lemma visible_string_no_NUL: "visible_string s \<Longrightarrow> CHR 0x00 \<notin> set s"
  by (auto simp: list_all_iff visible_def)

definition pid1 :: string where "pid1 = ''6f1c2f60-0000-4000-8000-000000000001''"
definition tid1 :: string where "tid1 = ''6f1c2f60-0000-4000-8000-000000000002''"
definition rid1 :: string where "rid1 = ''6f1c2f60-0000-4000-8000-000000000003''"
definition rid2 :: string where "rid2 = ''6f1c2f60-0000-4000-8000-000000000004''"

lemmas ids_defs = pid1_def tid1_def rid1_def rid2_def

definition row_eu :: profile_row where
  "row_eu = \<lparr>vr_id = pid1, vr_name = ''eu'', vr_type = ''wireguard'', vr_config = ''{}'', vr_secret_ref = None,
     vr_enabled = True, vr_created = 10, vr_updated = 10\<rparr>"

definition row_wiki :: target_row where
  "row_wiki = \<lparr>tr_id = tid1, tr_alias = ''wiki.helix'', tr_ip = ''10.0.0.1'', tr_port = 80, tr_protocol = ''http'',
     tr_profile = Some pid1, tr_health = None, tr_enabled = True, tr_created = 20, tr_updated = 20\<rparr>"

definition rule_wiki :: "string \<Rightarrow> int \<Rightarrow> rule_row" where
  "rule_wiki i priority = \<lparr>rr_id = i, rr_priority = priority, rr_host = Some ''wiki.helix'', rr_path = None,
     rr_target = Some tid1, rr_enabled = True, rr_created = 30, rr_updated = 30\<rparr>"

definition wiki_db :: db where
  "wiki_db = \<lparr>db_profiles = [row_eu], db_targets = [row_wiki], db_tiers = [],
     db_rules = [rule_wiki rid1 1, rule_wiki rid2 5], db_users = [], db_audit = []\<rparr>"

definition ref_env :: stmt_env where
  "ref_env = \<lparr>se_now = 100, se_newid = ''6f1c2f60-0000-4000-8000-000000000009'', se_seq = 1,
     se_error = (\<lambda>c. Msg ''ERROR''), se_folds = True, se_fault = NoFault\<rparr>"

lemma ref_uuids:
  "ref_uuid pid1 = Some pid1" "ref_uuid tid1 = Some tid1" "ref_uuid rid1 = Some rid1" "ref_uuid rid2 = Some rid2"
  "ref_uuid ''6f1c2f60-0000-4000-8000-000000000009'' = Some ''6f1c2f60-0000-4000-8000-000000000009''"
  by (simp_all add: ref_uuid_def ids_defs is_digit_def)

lemma ids_distinct: "rid1 \<noteq> rid2" "pid1 \<noteq> tid1"
  by (simp_all add: ids_defs)

lemma wiki_db_ok: "db_ok ref_types wiki_db"
  using ref_uuids ids_distinct
  by (simp add: db_ok_def schema_defs wiki_db_def row_eu_def row_wiki_def rule_wiki_def ref_types_def
      references_def profile_types_def VPNTypeWireGuard_def protocols_def)

lemma ref_env_ok: "env_ok ref_types ref_env"
  using ref_uuids by (simp add: env_ok_def ref_env_def ref_types_def)

end
