(* ===== verification/Store_Postgres.thy ===== *)
theory Store_Postgres
  imports Store_Sql
begin

text \<open>
  \<open>control-plane/internal/store/postgres.go\<close>: the methods of \<open>Postgres\<close> over an executor,
  the pool or a transaction, and \<open>WithTx\<close>. A session is what the executor works on; after a
  statement fails inside a transaction the server refuses every further one. Transactions
  are run one at a time.
\<close>

subsection \<open>Definitions\<close>

definition ErrNotFound :: go_error where
  "ErrNotFound = Sentinel ''store: not found''"

subsubsection \<open>The executor\<close>

record session =
  ss_db :: db
  ss_tx :: bool
  ss_aborted :: bool

definition pool :: "db \<Rightarrow> session" where
  "pool db = \<lparr>ss_db = db, ss_tx = False, ss_aborted = False\<rparr>"

definition fail_tx :: "session \<Rightarrow> session" where
  "fail_tx s = s\<lparr>ss_aborted := ss_tx s\<rparr>"

text \<open>\<open>Open\<close>: the outcome of \<open>sql.Open\<close> and of the ping, after whose failure the pool is closed.\<close>

definition store_Open :: "go_error option \<Rightarrow> go_error option \<Rightarrow> go_error option" where
  "store_Open opened ping =
     (case opened of
        Some e \<Rightarrow> Some (Wrap ''store: open: '' e)
      | None \<Rightarrow> (case ping of Some e \<Rightarrow> Some (Wrap ''store: ping: '' e) | None \<Rightarrow> None))"

text \<open>
  \<open>ExecContext\<close> and \<open>QueryRowContext(...).Scan\<close>: one statement and its result. A row that
  cannot be scanned is an error of the client alone, so the transaction lives on.
\<close>

definition run_stmt :: "stmt_env \<Rightarrow> 'a stmt \<Rightarrow> session \<Rightarrow> 'a result \<times> session" where
  "run_stmt env stmt s =
     (if ss_aborted s then (Inl (se_error env InFailedTransaction), s)
      else case se_fault env of
          LostBefore e \<Rightarrow> (Inl e, fail_tx s)
        | flt \<Rightarrow>
            (case stmt (ss_db s) of
               Inl c \<Rightarrow> (Inl (se_error env c), fail_tx s)
             | Inr (v, db) \<Rightarrow>
                 (case flt of
                    LostAfter e \<Rightarrow> (Inl e, fail_tx (s\<lparr>ss_db := db\<rparr>))
                  | CutAfter n e \<Rightarrow> (Inl e, fail_tx (s\<lparr>ss_db := db\<rparr>))
                  | ScanFails n e \<Rightarrow> (Inl e, s\<lparr>ss_db := db\<rparr>)
                  | _ \<Rightarrow> (Inr v, s\<lparr>ss_db := db\<rparr>))))"

text \<open>\<open>QueryContext\<close>: the rows, which are then read one by one.\<close>

definition open_rows :: "stmt_env \<Rightarrow> 'r list stmt \<Rightarrow> session \<Rightarrow> 'r list result \<times> session" where
  "open_rows env stmt s =
     (case se_fault env of
        CutAfter n e \<Rightarrow>
          (case run_stmt (env\<lparr>se_fault := NoFault\<rparr>) stmt s of
             (Inl er, s') \<Rightarrow> (Inl er, s')
           | (Inr rows, s') \<Rightarrow> (Inr rows, fail_tx s'))
      | ScanFails n e \<Rightarrow> run_stmt (env\<lparr>se_fault := NoFault\<rparr>) stmt s
      | _ \<Rightarrow> run_stmt env stmt s)"

text \<open>
  The loop every listing has over \<open>rows.Next\<close>, with \<open>rows.Err\<close> at its end: the error of a
  row that cannot be scanned discards the rows read, an early end returns them with it.
\<close>

fun scan_loop ::
  "string \<Rightarrow> ('r \<Rightarrow> 'a) \<Rightarrow> fault \<Rightarrow> nat \<Rightarrow> 'r list \<Rightarrow> 'a list \<Rightarrow> 'a list \<times> go_error option" where
  "scan_loop label scan flt i [] out = (out, (case flt of CutAfter n e \<Rightarrow> Some e | _ \<Rightarrow> None))"
| "scan_loop label scan flt i (r # rs) out =
     (case flt of
        CutAfter n e \<Rightarrow> if n = i then (out, Some e) else scan_loop label scan flt (Suc i) rs (out @ [scan r])
      | ScanFails n e \<Rightarrow>
          if n = i then ([], Some (Wrap label e)) else scan_loop label scan flt (Suc i) rs (out @ [scan r])
      | _ \<Rightarrow> scan_loop label scan flt (Suc i) rs (out @ [scan r]))"

definition list_query ::
  "string \<Rightarrow> string \<Rightarrow> ('r \<Rightarrow> 'a) \<Rightarrow> stmt_env \<Rightarrow> 'r list stmt \<Rightarrow> session \<Rightarrow> ('a list \<times> go_error option) \<times> session" where
  "list_query open_label scan_label scan env stmt s =
     (case open_rows env stmt s of
        (Inl e, s') \<Rightarrow> (([], Some (Wrap open_label e)), s')
      | (Inr rows, s') \<Rightarrow> (scan_loop scan_label scan (se_fault env) 0 rows [], s'))"

text \<open>The error wrapped behind the method's label, as every single-row method does.\<close>

definition wrap_result :: "string \<Rightarrow> 'a result \<times> session \<Rightarrow> 'a result \<times> session" where
  "wrap_result label r = (case r of (Inl e, s) \<Rightarrow> (Inl (Wrap label e), s) | (Inr v, s) \<Rightarrow> (Inr v, s))"

text \<open>\<open>sql.ErrNoRows\<close> (no row) becomes \<open>ErrNotFound\<close>, any other error is wrapped.\<close>

definition get_row :: "string \<Rightarrow> ('r \<Rightarrow> 'a) \<Rightarrow> 'r option result \<times> session \<Rightarrow> 'a result \<times> session" where
  "get_row label scan r =
     (case r of
        (Inr None, s) \<Rightarrow> (Inl ErrNotFound, s)
      | (Inr (Some row), s) \<Rightarrow> (Inr (scan row), s)
      | (Inl e, s) \<Rightarrow> (Inl (Wrap label e), s))"

subsubsection \<open>Transactions\<close>

text \<open>
  How beginning and committing go: a failed commit left nothing, or its reply was lost
  after it took effect.
\<close>

datatype commit_outcome = Committed | CommitFailed go_error | CommitReplyLost go_error

record tx_env =
  te_begin :: "go_error option"
  te_commit :: commit_outcome
  te_aborted :: go_error

text \<open>
  \<open>fn\<close> returns its error and the variables its closure assigns, \<open>v0\<close> before it runs. A
  rollback undoes everything, also when its own reply is lost. Committing a transaction
  with a failed statement rolls it back and reports \<open>te_aborted\<close>.
\<close>

definition WithTx ::
  "tx_env \<Rightarrow> (session \<Rightarrow> (go_error option \<times> 'v) \<times> session) \<Rightarrow> 'v \<Rightarrow> db \<Rightarrow> (go_error option \<times> 'v) \<times> db" where
  "WithTx te fn v0 db =
     (case te_begin te of
        Some e \<Rightarrow> ((Some (Wrap ''store: begin tx: '' e), v0), db)
      | None \<Rightarrow>
          (case fn \<lparr>ss_db = db, ss_tx = True, ss_aborted = False\<rparr> of
             ((Some e, v), s) \<Rightarrow> ((Some e, v), db)
           | ((None, v), s) \<Rightarrow>
               if ss_aborted s then ((Some (Wrap ''store: commit tx: '' (te_aborted te)), v), db)
               else (case te_commit te of
                   Committed \<Rightarrow> ((None, v), ss_db s)
                 | CommitFailed e \<Rightarrow> ((Some (Wrap ''store: commit tx: '' e), v), db)
                 | CommitReplyLost e \<Rightarrow> ((Some (Wrap ''store: commit tx: '' e), v), ss_db s))))"

subsubsection \<open>vpn_profiles\<close>

definition scanProfile :: "profile_row \<Rightarrow> VPNProfile" where
  "scanProfile r =
     \<lparr>vp_ID = vr_id r, vp_Name = vr_name r, vp_Type = vr_type r, vp_Config = vr_config r,
      vp_SecretRef = coalesce (vr_secret_ref r), vp_Enabled = vr_enabled r,
      vp_Created = vr_created r, vp_Updated = vr_updated r\<rparr>"

definition ListProfiles :: "pg_types \<Rightarrow> stmt_env \<Rightarrow> session \<Rightarrow> (VPNProfile list \<times> go_error option) \<times> session" where
  "ListProfiles t env s =
     list_query ''store: list profiles: '' ''store: scan profile: '' scanProfile env (sqlListProfiles t) s"

definition GetProfile :: "pg_types \<Rightarrow> stmt_env \<Rightarrow> string \<Rightarrow> session \<Rightarrow> VPNProfile result \<times> session" where
  "GetProfile t env i s = get_row ''store: get profile: '' scanProfile (run_stmt env (sqlGetProfile t i) s)"

definition UpsertProfile :: "pg_types \<Rightarrow> stmt_env \<Rightarrow> VPNProfile \<Rightarrow> session \<Rightarrow> string result \<times> session" where
  "UpsertProfile t env v s =
     (let cfg = (if vp_Config v = [] then ''{}'' else vp_Config v);
          ty = (if vp_Type v = [] then VPNTypeWireGuard else vp_Type v)
      in wrap_result ''store: upsert profile: ''
           (run_stmt env (sqlUpsertProfile t env (vp_Name v) ty cfg (vp_SecretRef v) (vp_Enabled v)) s))"

definition DeleteProfile :: "pg_types \<Rightarrow> stmt_env \<Rightarrow> string \<Rightarrow> session \<Rightarrow> unit result \<times> session" where
  "DeleteProfile t env i s = wrap_result ''store: delete profile: '' (run_stmt env (sqlDeleteProfile t env i) s)"

subsubsection \<open>target_hosts\<close>

definition scanTarget :: "target_row \<Rightarrow> TargetHost" where
  "scanTarget r =
     \<lparr>th_ID = tr_id r, th_PublicAlias = tr_alias r, th_PrivateIP = tr_ip r, th_Port = tr_port r,
      th_Protocol = tr_protocol r, th_VPNProfileID = coalesce (tr_profile r),
      th_HealthCheck = coalesce (tr_health r), th_Enabled = tr_enabled r,
      th_Created = tr_created r, th_Updated = tr_updated r\<rparr>"

definition ListTargets :: "pg_types \<Rightarrow> stmt_env \<Rightarrow> session \<Rightarrow> (TargetHost list \<times> go_error option) \<times> session" where
  "ListTargets t env s =
     list_query ''store: list targets: '' ''store: scan target: '' scanTarget env (sqlListTargets t) s"

definition GetTargetHost :: "pg_types \<Rightarrow> stmt_env \<Rightarrow> string \<Rightarrow> session \<Rightarrow> TargetHost result \<times> session" where
  "GetTargetHost t env a s = get_row ''store: get target: '' scanTarget (run_stmt env (sqlGetTargetHost t a) s)"

text \<open>A port outside the \<open>INTEGER\<close> range is refused by the driver, before the server sees it.\<close>

definition UpsertTarget :: "pg_types \<Rightarrow> stmt_env \<Rightarrow> TargetHost \<Rightarrow> session \<Rightarrow> string result \<times> session" where
  "UpsertTarget t env g s =
     (let port = (if th_Port g = 0 then 80 else th_Port g);
          proto = (if th_Protocol g = [] then ''http'' else th_Protocol g)
      in wrap_result ''store: upsert target: ''
           (if \<not> int4 port then (Inl (se_error env IntegerRange), s)
            else run_stmt env (sqlUpsertTarget t env (th_PublicAlias g) (th_PrivateIP g) port proto
                                 (th_VPNProfileID g) (th_HealthCheck g) (th_Enabled g)) s))"

definition DeleteTarget :: "pg_types \<Rightarrow> stmt_env \<Rightarrow> string \<Rightarrow> session \<Rightarrow> unit result \<times> session" where
  "DeleteTarget t env i s = wrap_result ''store: delete target: '' (run_stmt env (sqlDeleteTarget t i) s)"

subsubsection \<open>proxy_rules\<close>

definition scanRule :: "rule_row \<Rightarrow> ProxyRule" where
  "scanRule r =
     \<lparr>pr_ID = rr_id r, pr_Priority = rr_priority r, pr_MatchHost = coalesce (rr_host r),
      pr_MatchPath = coalesce (rr_path r), pr_TargetHostID = coalesce (rr_target r),
      pr_Enabled = rr_enabled r, pr_Created = rr_created r, pr_Updated = rr_updated r\<rparr>"

definition ListRules :: "stmt_env \<Rightarrow> session \<Rightarrow> (ProxyRule list \<times> go_error option) \<times> session" where
  "ListRules env s = list_query ''store: list rules: '' ''store: scan rule: '' scanRule env sqlListRules s"

definition GetRuleByHost :: "pg_types \<Rightarrow> stmt_env \<Rightarrow> string \<Rightarrow> session \<Rightarrow> ProxyRule result \<times> session" where
  "GetRuleByHost t env host s =
     get_row ''store: get rule by host: '' scanRule (run_stmt env (sqlGetRuleByHost t host) s)"

definition UpsertRule :: "pg_types \<Rightarrow> stmt_env \<Rightarrow> ProxyRule \<Rightarrow> session \<Rightarrow> string result \<times> session" where
  "UpsertRule t env r s =
     (if \<not> int4 (pr_Priority r) then (Inl (Wrap ''store: upsert rule: '' (se_error env IntegerRange)), s)
      else if pr_ID r \<noteq> [] then
        get_row ''store: upsert rule: '' (\<lambda>i. i)
          (run_stmt env (sqlUpdateRule t env (pr_ID r) (pr_Priority r) (pr_MatchHost r) (pr_MatchPath r)
                           (pr_TargetHostID r) (pr_Enabled r)) s)
      else
        wrap_result ''store: upsert rule: ''
          (run_stmt env (sqlInsertRule t env (pr_Priority r) (pr_MatchHost r) (pr_MatchPath r)
                           (pr_TargetHostID r) (pr_Enabled r)) s))"

definition DeleteRule :: "pg_types \<Rightarrow> stmt_env \<Rightarrow> string \<Rightarrow> session \<Rightarrow> unit result \<times> session" where
  "DeleteRule t env i s = wrap_result ''store: delete rule: '' (run_stmt env (sqlDeleteRule t i) s)"

subsubsection \<open>target_tunnel_tiers\<close>

definition scanTier :: "tier_row \<Rightarrow> TargetTunnelTier" where
  "scanTier r =
     \<lparr>tt_TargetID = ti_target r, tt_VPNProfileID = ti_profile r, tt_Tier = ti_tier r, tt_Created = ti_created r\<rparr>"

definition ListTiers ::
  "pg_types \<Rightarrow> stmt_env \<Rightarrow> string \<Rightarrow> session \<Rightarrow> (TargetTunnelTier list \<times> go_error option) \<times> session" where
  "ListTiers t env i s = list_query ''store: list tiers: '' ''store: scan tier: '' scanTier env (sqlListTiers t i) s"

definition UpsertTier :: "pg_types \<Rightarrow> stmt_env \<Rightarrow> TargetTunnelTier \<Rightarrow> session \<Rightarrow> unit result \<times> session" where
  "UpsertTier t env x s =
     wrap_result ''store: upsert tier: ''
       (if \<not> int4 (tt_Tier x) then (Inl (se_error env IntegerRange), s)
        else run_stmt env (sqlUpsertTier t env (tt_TargetID x) (tt_VPNProfileID x) (tt_Tier x)) s)"

definition DeleteTier :: "pg_types \<Rightarrow> stmt_env \<Rightarrow> string \<Rightarrow> int \<Rightarrow> session \<Rightarrow> unit result \<times> session" where
  "DeleteTier t env i tier s =
     wrap_result ''store: delete tier: ''
       (if \<not> int4 tier then (Inl (se_error env IntegerRange), s) else run_stmt env (sqlDeleteTier t i tier) s)"

subsubsection \<open>proxy_users and audit_log\<close>

definition scanUser :: "user_row \<Rightarrow> ProxyUser" where
  "scanUser r =
     \<lparr>pu_ID = ur_id r, pu_Username = ur_username r, pu_SecretRef = ur_secret_ref r, pu_Role = ur_role r,
      pu_Enabled = ur_enabled r, pu_Created = ur_created r, pu_Updated = ur_updated r\<rparr>"

definition ListUsers :: "pg_types \<Rightarrow> stmt_env \<Rightarrow> session \<Rightarrow> (ProxyUser list \<times> go_error option) \<times> session" where
  "ListUsers t env s = list_query ''store: list users: '' ''store: scan user: '' scanUser env (sqlListUsers t) s"

definition UpsertUser :: "pg_types \<Rightarrow> stmt_env \<Rightarrow> ProxyUser \<Rightarrow> session \<Rightarrow> string result \<times> session" where
  "UpsertUser t env u s =
     (let role = (if pu_Role u = [] then ''user'' else pu_Role u)
      in wrap_result ''store: upsert user: ''
           (run_stmt env (sqlUpsertUser t env (pu_Username u) (pu_SecretRef u) role (pu_Enabled u)) s))"

definition AppendAudit :: "pg_types \<Rightarrow> stmt_env \<Rightarrow> AuditLogEntry \<Rightarrow> session \<Rightarrow> unit result \<times> session" where
  "AppendAudit t env e s =
     wrap_result ''store: append audit: ''
       (run_stmt env (sqlAppendAudit t env (au_Actor e) (au_Action e) (au_Detail e)) s)"

lemmas write_methods = UpsertProfile_def DeleteProfile_def UpsertTarget_def DeleteTarget_def UpsertRule_def
  DeleteRule_def UpsertTier_def DeleteTier_def UpsertUser_def AppendAudit_def

lemmas list_methods = ListProfiles_def ListTargets_def ListRules_def ListTiers_def ListUsers_def

subsection \<open>Statements and sessions\<close>

lemma scanProfile_sel [simp]:
  "vp_ID (scanProfile r) = vr_id r" "vp_Name (scanProfile r) = vr_name r" "vp_Type (scanProfile r) = vr_type r"
  "vp_Config (scanProfile r) = vr_config r" "vp_Enabled (scanProfile r) = vr_enabled r"
  by (simp_all add: scanProfile_def)

lemma scanTarget_sel [simp]:
  "th_ID (scanTarget g) = tr_id g" "th_PublicAlias (scanTarget g) = tr_alias g" "th_PrivateIP (scanTarget g) = tr_ip g"
  "th_Port (scanTarget g) = tr_port g" "th_VPNProfileID (scanTarget g) = coalesce (tr_profile g)"
  "th_Enabled (scanTarget g) = tr_enabled g"
  by (simp_all add: scanTarget_def)

lemma scanTier_sel [simp]:
  "tt_TargetID (scanTier x) = ti_target x" "tt_VPNProfileID (scanTier x) = ti_profile x" "tt_Tier (scanTier x) = ti_tier x"
  by (simp_all add: scanTier_def)

lemma pool_simps [simp]: "ss_db (pool db) = db" "\<not> ss_aborted (pool db)" "\<not> ss_tx (pool db)"
  by (simp_all add: pool_def)

lemma fail_tx_simps [simp]:
  "ss_db (fail_tx s) = ss_db s" "ss_tx (fail_tx s) = ss_tx s" "ss_aborted (fail_tx s) = ss_tx s"
  by (simp_all add: fail_tx_def)

lemma run_stmt_Inr:
  "run_stmt env stmt s = (Inr v, s') \<longleftrightarrow>
     \<not> ss_aborted s \<and> se_fault env = NoFault \<and> (\<exists>db. stmt (ss_db s) = Inr (v, db) \<and> s' = s\<lparr>ss_db := db\<rparr>)"
  by (auto simp: run_stmt_def split: fault.splits sum.splits)

lemma run_stmt_db:
  assumes "run_stmt env stmt s = (r, s')"
  shows "ss_db s' = ss_db s \<or> (\<exists>v. stmt (ss_db s) = Inr (v, ss_db s'))"
  using assms by (auto simp: run_stmt_def split: fault.splits sum.splits if_splits)

lemma wrap_result_Inr [simp]: "wrap_result l x = (Inr v, s) \<longleftrightarrow> x = (Inr v, s)"
  by (auto simp: wrap_result_def split: prod.splits sum.splits)

lemma snd_wrap_result [simp]: "snd (wrap_result l x) = snd x"
  by (auto simp: wrap_result_def split: prod.splits sum.splits)

lemma snd_get_row [simp]: "snd (get_row l f x) = snd x"
  by (auto simp: get_row_def split: prod.splits sum.splits option.splits)

lemma get_row_Inr [simp]: "get_row l f x = (Inr v, s) \<longleftrightarrow> (\<exists>r. x = (Inr (Some r), s) \<and> v = f r)"
  by (auto simp: get_row_def split: prod.splits sum.splits option.splits)

text \<open>Whatever a write method answers, the database is untouched or the statement succeeded on it.\<close>

lemma run_stmt_ok:
  assumes "P (ss_db s)" and "\<And>v db. stmt (ss_db s) = Inr (v, db) \<Longrightarrow> P db"
  shows "P (ss_db (snd (run_stmt env stmt s)))"
  using run_stmt_db [of env stmt s "fst (run_stmt env stmt s)" "snd (run_stmt env stmt s)"] assms by auto

lemma writes_keep_schema:
  assumes "db_ok t (ss_db s)" and "env_ok t env"
  shows "db_ok t (ss_db (snd (UpsertProfile t env v s)))" "db_ok t (ss_db (snd (DeleteProfile t env i s)))"
    "db_ok t (ss_db (snd (UpsertTarget t env g s)))" "db_ok t (ss_db (snd (DeleteTarget t env i s)))"
    "db_ok t (ss_db (snd (UpsertRule t env r s)))" "db_ok t (ss_db (snd (DeleteRule t env i s)))"
    "db_ok t (ss_db (snd (UpsertTier t env x s)))" "db_ok t (ss_db (snd (DeleteTier t env i n s)))"
    "db_ok t (ss_db (snd (UpsertUser t env u s)))" "db_ok t (ss_db (snd (AppendAudit t env e s)))"
proof -
  note ok = run_stmt_ok [where P = "db_ok t", OF assms(1)]
  show "db_ok t (ss_db (snd (UpsertProfile t env v s)))"
    by (simp add: UpsertProfile_def Let_def) (intro conjI impI; rule ok, erule sqlUpsertProfile_ok [OF _ assms])
  show "db_ok t (ss_db (snd (DeleteProfile t env i s)))"
    by (simp add: DeleteProfile_def) (rule ok, erule sqlDeleteProfile_ok [OF _ assms(1)])
  show "db_ok t (ss_db (snd (UpsertTarget t env g s)))"
    using assms(1) by (simp add: UpsertTarget_def Let_def) (intro conjI impI; rule ok, erule sqlUpsertTarget_ok [OF _ assms])
  show "db_ok t (ss_db (snd (DeleteTarget t env i s)))"
    by (simp add: DeleteTarget_def) (rule ok, erule sqlDeleteTarget_ok [OF _ assms(1)])
  show "db_ok t (ss_db (snd (UpsertRule t env r s)))"
    using assms(1) by (simp add: UpsertRule_def)
      (intro impI conjI; rule ok, erule sqlInsertRule_ok [OF _ assms] sqlUpdateRule_ok [OF _ assms(1)])
  show "db_ok t (ss_db (snd (DeleteRule t env i s)))"
    by (simp add: DeleteRule_def) (rule ok, erule sqlDeleteRule_ok [OF _ assms(1)])
  show "db_ok t (ss_db (snd (UpsertTier t env x s)))"
    using assms(1) by (simp add: UpsertTier_def) (intro impI ok, erule sqlUpsertTier_ok [OF _ assms(1)])
  show "db_ok t (ss_db (snd (DeleteTier t env i n s)))"
    using assms(1) by (simp add: DeleteTier_def) (intro impI ok, erule sqlDeleteTier_ok [OF _ assms(1)])
  show "db_ok t (ss_db (snd (UpsertUser t env u s)))"
    by (simp add: UpsertUser_def Let_def) (intro conjI impI; rule ok, erule sqlUpsertUser_ok [OF _ assms(1)])
  show "db_ok t (ss_db (snd (AppendAudit t env e s)))"
    by (simp add: AppendAudit_def) (rule ok, erule sqlAppendAudit_ok [OF _ assms(1)])
qed

subsection \<open>Reading\<close>

definition reads :: "'r stmt \<Rightarrow> bool" where
  "reads stmt \<longleftrightarrow> (\<forall>db v db'. stmt db = Inr (v, db') \<longrightarrow> db' = db)"

lemma sql_reads:
  "reads (sqlListProfiles t)" "reads (sqlGetProfile t i)" "reads (sqlListTargets t)" "reads (sqlGetTargetHost t a)"
  "reads sqlListRules" "reads (sqlGetRuleByHost t h)" "reads (sqlListTiers t i)" "reads (sqlListUsers t)"
  by (auto simp: reads_def sqlListProfiles_def sqlGetProfile_def sqlListTargets_def sqlGetTargetHost_def
      sqlListRules_def sqlGetRuleByHost_def sqlListTiers_def sqlListUsers_def)

lemma run_stmt_reads: "reads stmt \<Longrightarrow> ss_db (snd (run_stmt env stmt s)) = ss_db s"
  by (rule run_stmt_ok) (auto simp: reads_def)

lemma open_rows_reads: "reads stmt \<Longrightarrow> ss_db (snd (open_rows env stmt s)) = ss_db s"
  using run_stmt_reads [of stmt "env\<lparr>se_fault := NoFault\<rparr>" s] run_stmt_reads [of stmt env s]
  by (auto simp: open_rows_def split: fault.splits prod.splits sum.splits)

lemma list_query_reads: "reads stmt \<Longrightarrow> ss_db (snd (list_query l m f env stmt s)) = ss_db s"
  using open_rows_reads [of stmt env s] by (auto simp: list_query_def split: prod.splits sum.splits)

lemma scan_loop_ok: "flt = NoFault \<Longrightarrow> scan_loop l f flt i rows out = (out @ map f rows, None)"
  by (induction rows arbitrary: i out) auto

text \<open>A listing without an error is the whole listing.\<close>

lemma scan_loop_None: "scan_loop l f flt i rows out = (xs, None) \<Longrightarrow> xs = out @ map f rows"
  by (induction rows arbitrary: i out) (fastforce split: fault.splits if_splits)+

lemma run_stmt_NoFault:
  "\<not> ss_aborted s \<Longrightarrow> stmt (ss_db s) = Inr (v, db) \<Longrightarrow>
     run_stmt (env\<lparr>se_fault := NoFault\<rparr>) stmt s = (Inr v, s\<lparr>ss_db := db\<rparr>)"
  by (simp add: run_stmt_def)

lemma list_query_None:
  assumes "list_query l m f env stmt s = ((xs, None), s')"
  shows "\<exists>rows db. stmt (ss_db s) = Inr (rows, db) \<and> xs = map f rows"
  using assms
  by (auto simp: list_query_def open_rows_def run_stmt_Inr dest!: scan_loop_None
      split: prod.splits sum.splits fault.splits)

lemma list_query_NoFault:
  assumes "se_fault env = NoFault" and "\<not> ss_aborted s" and "stmt (ss_db s) = Inr (rows, db)"
  shows "list_query l m f env stmt s = ((map f rows, None), s\<lparr>ss_db := db\<rparr>)"
  using assms by (simp add: list_query_def open_rows_def run_stmt_def scan_loop_ok)

subsection \<open>Transactions\<close>

text \<open>
  The contract of a store's transactions: without an error exactly what the body did is
  kept; with an error either nothing is, or the body had succeeded and only the reply of
  the commit was lost.
\<close>

locale transactional =
  fixes withTx :: "(session \<Rightarrow> (go_error option \<times> 'v) \<times> session) \<Rightarrow> 'v \<Rightarrow> db \<Rightarrow> (go_error option \<times> 'v) \<times> db"
  assumes commits: "withTx fn v0 db = ((None, v), db') \<Longrightarrow>
      \<exists>s. fn \<lparr>ss_db = db, ss_tx = True, ss_aborted = False\<rparr> = ((None, v), s) \<and> db' = ss_db s"
    and rolls_back: "withTx fn v0 db = ((Some e, v), db') \<Longrightarrow>
      db' = db \<or> (\<exists>s. fn \<lparr>ss_db = db, ss_tx = True, ss_aborted = False\<rparr> = ((None, v), s) \<and> db' = ss_db s)"
begin

text \<open>A change of the database is the work of a body that ran to its end without an error.\<close>

lemma changed:
  assumes "withTx fn v0 db = ((r, v), db')" and "db' \<noteq> db"
  obtains s where "fn \<lparr>ss_db = db, ss_tx = True, ss_aborted = False\<rparr> = ((None, v), s)" and "db' = ss_db s"
proof (cases r)
  case None
  then show ?thesis using commits [of fn v0 db v db'] assms that by blast
next
  case (Some e)
  then show ?thesis using rolls_back [of fn v0 db e v db'] assms that by blast
qed

lemma keeps:
  assumes "P db" and "\<And>v s. fn \<lparr>ss_db = db, ss_tx = True, ss_aborted = False\<rparr> = ((None, v), s) \<Longrightarrow> P (ss_db s)"
  shows "P (snd (withTx fn v0 db))"
proof (cases "snd (withTx fn v0 db) = db")
  case False
  obtain r v db' where w: "withTx fn v0 db = ((r, v), db')" by (metis prod.exhaust)
  with False have "db' \<noteq> db" by simp
  from changed [OF w this] show ?thesis using assms(2) w by auto
qed (simp add: assms(1))

end

interpretation pg_tx: transactional "WithTx te" for te
  by unfold_locales
    (auto simp: WithTx_def split: option.splits prod.splits if_splits commit_outcome.splits)

subsection \<open>The rule of a host\<close>

lemma rule_order_set [simp]: "set (rule_order rows) = set rows"
  by (simp add: rule_order_def)

lemma rule_order_hd:
  assumes "rule_order rows = r # rest" and "q \<in> set rows"
  shows "rr_priority q < rr_priority r \<or> rr_priority q = rr_priority r \<and> rr_created r \<le> rr_created q"
proof -
  have perm: "q \<in> set (r # rest)" using assms(2) by (simp add: assms(1) [symmetric])
  have "sorted (map (\<lambda>x. - rr_priority x) (r # rest))"
    unfolding assms(1) [symmetric] rule_order_def by simp
  then have le: "rr_priority q \<le> rr_priority r" using perm by auto
  have eq: "filter (\<lambda>x. - rr_priority x = - rr_priority r) (r # rest)
    = filter (\<lambda>x. - rr_priority x = - rr_priority r) (sort_key rr_created rows)"
    unfolding assms(1) [symmetric] rule_order_def by (rule sort_key_stable)
  have "sorted (map rr_created (filter (\<lambda>x. - rr_priority x = - rr_priority r) (r # rest)))"
    unfolding eq by (rule sorted_filter) simp
  then have "rr_created r \<le> rr_created q" if "rr_priority q = rr_priority r" using perm that by auto
  then show ?thesis using le by force
qed

subsection \<open>A written target\<close>

lemma sqlUpsertTarget_found:
  assumes "sqlUpsertTarget t env a0 ip port proto prof health enabled db = Inr (i, db')"
    and "distinct (map tr_alias (db_targets db))" and "pg_varchar t 255 a0 = Some a"
  obtains r where "find (\<lambda>r. tr_alias r = a) (db_targets db') = Some r" and "tr_id r = i"
    and "pg_inet t ip = Some (tr_ip r)" and "tr_port r = port" and "1 \<le> port" and "port \<le> 65535"
    and "nullif_uuid t prof = Some (tr_profile r)" and "tr_enabled r = enabled"
    and "pg_varchar t 10 proto = Some (tr_protocol r)" and "nullif_varchar t 500 health = Some (tr_health r)"
proof -
  obtain ip' proto' prof' health' rows where c: "pg_inet t ip = Some ip'" "nullif_uuid t prof = Some prof'"
      "1 \<le> port" "port \<le> 65535" "pg_varchar t 10 proto = Some proto'" "nullif_varchar t 500 health = Some health'"
    and up: "upsert_rows tr_alias a tr_id
      (\<lambda>r. r\<lparr>tr_ip := ip', tr_port := port, tr_protocol := proto', tr_profile := prof',
             tr_health := health', tr_enabled := enabled, tr_updated := se_now env\<rparr>)
      \<lparr>tr_id = se_newid env, tr_alias = a, tr_ip = ip', tr_port = port, tr_protocol = proto',
       tr_profile = prof', tr_health = health', tr_enabled = enabled,
       tr_created = se_now env, tr_updated = se_now env\<rparr> (db_targets db) = Inr (i, rows)"
    and db': "db_targets db' = rows"
    using assms(1,3) by (auto simp: sqlUpsertTarget_def)
  from up show ?thesis
  proof (cases rule: upsert_rows_cases)
    case (update old)
    let ?u = "\<lambda>r. r\<lparr>tr_ip := ip', tr_port := port, tr_protocol := proto', tr_profile := prof',
             tr_health := health', tr_enabled := enabled, tr_updated := se_now env\<rparr>"
    have "find (\<lambda>r. tr_alias r = a) (db_targets db) = Some old"
      using assms(2) update(1,2) by (simp add: find_key_Some)
    then have "find (\<lambda>r. tr_alias r = a) rows = Some (?u old)"
      using update(2) unfolding update(4) by (subst find_map_keep) simp_all
    then show ?thesis using c update by (intro that [of "?u old"]) (auto simp: db')
  next
    case insert
    then have "find (\<lambda>r. tr_alias r = a) (db_targets db) = None" by (auto simp: find_None_iff)
    then show ?thesis using c insert by (intro that) (auto simp: db' find_append)
  qed
qed

text \<open>
  A target written is the target read back by its alias, on a working connection, with the
  port 0 and an empty protocol read as 80 and http.
\<close>

lemma UpsertTarget_read_back:
  assumes "pg_laws t" and "db_ok t (ss_db s)" and "UpsertTarget t env g s = (Inr i, s1)"
    and "pg_varchar t 255 (th_PublicAlias g) = Some a"
  obtains r where "find (\<lambda>r. tr_alias r = a) (db_targets (ss_db s1)) = Some r" and "tr_id r = i"
    and "pg_inet t (th_PrivateIP g) = Some (tr_ip r)" and "tr_port r = (if th_Port g = 0 then 80 else th_Port g)"
    and "pg_varchar t 10 (if th_Protocol g = [] then ''http'' else th_Protocol g) = Some (tr_protocol r)"
    and "nullif_uuid t (th_VPNProfileID g) = Some (tr_profile r)"
    and "nullif_varchar t 500 (th_HealthCheck g) = Some (tr_health r)" and "tr_enabled r = th_Enabled g"
proof -
  let ?port = "if th_Port g = 0 then 80 else th_Port g"
  let ?proto = "if th_Protocol g = [] then ''http'' else th_Protocol g"
  obtain db' where stmt: "sqlUpsertTarget t env (th_PublicAlias g) (th_PrivateIP g) ?port ?proto
      (th_VPNProfileID g) (th_HealthCheck g) (th_Enabled g) (ss_db s) = Inr (i, db')"
    and s1: "s1 = s\<lparr>ss_db := db'\<rparr>"
    using assms(3) by (auto simp: UpsertTarget_def Let_def run_stmt_Inr split: if_split_asm)
  show thesis
    by (rule sqlUpsertTarget_found [OF stmt _ assms(4)]) (use assms(2) that s1 in \<open>auto simp: db_ok_def targets_ok_def\<close>)
qed

lemma GetTargetHost_found:
  assumes "find (\<lambda>r. tr_alias r = a) (db_targets db) = Some r" and "pg_text t a" and "se_fault env = NoFault"
  shows "GetTargetHost t env a (pool db) = (Inr (scanTarget r), pool db)"
  using assms by (simp add: GetTargetHost_def run_stmt_def sqlGetTargetHost_def require_def get_row_def pool_def)

subsection \<open>Properties\<close>

text \<open>
  C33: the rule lookup on a working connection answers with an enabled rule for exactly that
  host such that no other such rule has a higher priority, nor the same priority and an
  earlier creation; and it answers ErrNotFound exactly when there is no enabled rule.
\<close>

theorem GetRuleByHost_highest:
  assumes "se_fault env = NoFault" and "\<not> ss_aborted s" and "pg_text t host"
  shows "case fst (GetRuleByHost t env host s) of
      Inl e \<Rightarrow> e = ErrNotFound \<and> filter (\<lambda>q. rr_enabled q \<and> rr_host q = Some host) (db_rules (ss_db s)) = []
    | Inr r \<Rightarrow> \<exists>row \<in> set (db_rules (ss_db s)). r = scanRule row \<and> rr_enabled row \<and> rr_host row = Some host
        \<and> (\<forall>q \<in> set (db_rules (ss_db s)). rr_enabled q \<and> rr_host q = Some host \<longrightarrow>
            rr_priority q < rr_priority row \<or> rr_priority q = rr_priority row \<and> rr_created row \<le> rr_created q)"
proof -
  let ?rows = "filter (\<lambda>q. rr_enabled q \<and> rr_host q = Some host) (db_rules (ss_db s))"
  have run: "run_stmt env (sqlGetRuleByHost t host) s
    = (Inr (case rule_order ?rows of [] \<Rightarrow> None | r # _ \<Rightarrow> Some r), s)"
    using assms by (simp add: run_stmt_def sqlGetRuleByHost_def require_def)
  show ?thesis
  proof (cases "rule_order ?rows")
    case Nil
    then have "?rows = []" by (metis rule_order_set set_empty)
    then show ?thesis using Nil by (simp add: GetRuleByHost_def run get_row_def)
  next
    case (Cons r rest)
    then have "r \<in> set ?rows" by (metis list.set_intros(1) rule_order_set)
    then show ?thesis
      using Cons rule_order_hd [OF Cons] by (auto simp: GetRuleByHost_def run get_row_def)
  qed
qed

theorem GetRuleByHost_highest_witness:
  "\<exists>row \<in> set (db_rules wiki_db). fst (GetRuleByHost ref_types ref_env ''wiki.helix'' (pool wiki_db)) = Inr (scanRule row)
    \<and> row = rule_wiki rid2 5"
proof -
  have enc: "pg_text ref_types ''wiki.helix''"
    by (simp add: ref_types_def ref_text_def visible_utf8 visible_def)
  have "se_fault ref_env = NoFault" "\<not> ss_aborted (pool wiki_db)" by (simp_all add: ref_env_def)
  note res = GetRuleByHost_highest [OF this enc]
  have "fst (GetRuleByHost ref_types ref_env ''wiki.helix'' (pool wiki_db)) = Inr r \<Longrightarrow> r = scanRule (rule_wiki rid2 5)" for r
    using res by (auto simp: wiki_db_def rule_wiki_def)
  moreover have "\<exists>r. fst (GetRuleByHost ref_types ref_env ''wiki.helix'' (pool wiki_db)) = Inr r"
    using res by (cases "fst (GetRuleByHost ref_types ref_env ''wiki.helix'' (pool wiki_db))")
      (auto simp: wiki_db_def rule_wiki_def)
  ultimately show ?thesis by (auto simp: wiki_db_def)
qed

lemma ref_varchar: "visible_string s \<Longrightarrow> length s \<le> n \<Longrightarrow> pg_varchar ref_types n s = Some s"
  by (simp add: ref_types_def ref_text_def visible_utf8 runes_visible visible_string_no_NUL)

end
