(* ===== verification/Store_Directory.thy ===== *)
theory Store_Directory
  imports Store_Postgres
begin

text \<open>
  What the store promises, without identifiers, rows and SQL: a directory of profiles by
  name and of targets by alias, where a target names its profile. The methods of
  \<open>Postgres\<close> refine the four edits of the directory.
\<close>

subsection \<open>The directory\<close>

record profile_view =
  pv_type :: string
  pv_config :: string
  pv_secret :: string
  pv_enabled :: bool

record target_view =
  tv_ip :: string
  tv_port :: int
  tv_protocol :: string
  tv_profile :: "string option"
  tv_health :: string
  tv_enabled :: bool

record directory =
  dr_profiles :: "string \<rightharpoonup> profile_view"
  dr_targets :: "string \<rightharpoonup> target_view"

definition put_profile :: "string \<Rightarrow> profile_view \<Rightarrow> directory \<Rightarrow> directory" where
  "put_profile name v d = d\<lparr>dr_profiles := (dr_profiles d)(name \<mapsto> v)\<rparr>"

definition drop_profile :: "string \<Rightarrow> directory \<Rightarrow> directory" where
  "drop_profile name d =
     d\<lparr>dr_profiles := (dr_profiles d)(name := None),
       dr_targets := (\<lambda>a. map_option (\<lambda>v. if tv_profile v = Some name then v\<lparr>tv_profile := None\<rparr> else v)
                           (dr_targets d a))\<rparr>"

definition put_target :: "string \<Rightarrow> target_view \<Rightarrow> directory \<Rightarrow> directory" where
  "put_target a v d = d\<lparr>dr_targets := (dr_targets d)(a \<mapsto> v)\<rparr>"

definition drop_target :: "string \<Rightarrow> directory \<Rightarrow> directory" where
  "drop_target a d = d\<lparr>dr_targets := (dr_targets d)(a := None)\<rparr>"

subsubsection \<open>The directory of a database\<close>

definition view_profile :: "profile_row \<Rightarrow> profile_view" where
  "view_profile r =
     \<lparr>pv_type = vr_type r, pv_config = vr_config r, pv_secret = coalesce (vr_secret_ref r), pv_enabled = vr_enabled r\<rparr>"

definition name_of :: "profile_row list \<Rightarrow> string option \<Rightarrow> string option" where
  "name_of rows i = Option.bind i (\<lambda>i. map_option vr_name (find (\<lambda>r. vr_id r = i) rows))"

definition view_target :: "profile_row list \<Rightarrow> target_row \<Rightarrow> target_view" where
  "view_target profiles r =
     \<lparr>tv_ip = tr_ip r, tv_port = tr_port r, tv_protocol = tr_protocol r, tv_profile = name_of profiles (tr_profile r),
      tv_health = coalesce (tr_health r), tv_enabled = tr_enabled r\<rparr>"

definition directory_of :: "db \<Rightarrow> directory" where
  "directory_of db =
     \<lparr>dr_profiles = (\<lambda>n. map_option view_profile (find (\<lambda>r. vr_name r = n) (db_profiles db))),
      dr_targets = (\<lambda>a. map_option (view_target (db_profiles db)) (find (\<lambda>r. tr_alias r = a) (db_targets db)))\<rparr>"

subsection \<open>Looking rows up\<close>

text \<open>An upsert seen through its key and through the identifiers.\<close>

lemma upsert_find:
  assumes "upsert_rows key k ident upd new rows = Inr (i, rows')"
    and "\<And>r. key (upd r) = key r" and "key new = k"
    and "\<And>r. f (upd r) = f new"
  shows "map_option f (find (\<lambda>r. key r = n) rows')
    = (if n = k then Some (f new) else map_option f (find (\<lambda>r. key r = n) rows))"
  using assms(1)
proof (cases rule: upsert_rows_cases)
  case (update old)
  let ?g = "\<lambda>r. if key r = k then upd r else r"
  have "find (\<lambda>r. key r = n) rows' = map_option ?g (find (\<lambda>r. key r = n) rows)"
    unfolding update by (rule find_map_keep) (simp add: assms(2))
  moreover have "find (\<lambda>r. key r = k) rows \<noteq> None" using update(1,2) by (auto simp: find_None_iff)
  ultimately show ?thesis
    by (cases "find (\<lambda>r. key r = n) rows") (auto simp: assms(4) dest: find_SomeE)
next
  case insert
  then have "find (\<lambda>r. key r = k) rows = None" by (auto simp: find_None_iff)
  then show ?thesis using insert assms(3) by (auto simp: find_append split: option.splits)
qed

lemma upsert_name_of:
  assumes "upsert_rows vr_name k vr_id upd new rows = Inr (i, rows')"
    and "\<And>r. vr_name (upd r) = vr_name r" and "\<And>r. vr_id (upd r) = vr_id r"
    and "references x (map vr_id rows)"
  shows "name_of rows' x = name_of rows x"
  using assms(1)
proof (cases rule: upsert_rows_cases)
  case (update old)
  have "find (\<lambda>r. vr_id r = j) rows' = map_option (\<lambda>r. if vr_name r = k then upd r else r) (find (\<lambda>r. vr_id r = j) rows)" for j
    unfolding update by (rule find_map_keep) (simp add: assms(3))
  then show ?thesis
    by (cases x) (auto simp: name_of_def assms(2) option.map_comp comp_def intro!: map_option_cong)
next
  case insert
  show ?thesis
  proof (cases x)
    case (Some j)
    then have "find (\<lambda>r. vr_id r = j) rows \<noteq> None" using assms(4) by (auto simp: references_def find_None_iff)
    then show ?thesis using Some insert by (auto simp: name_of_def find_append)
  qed (simp add: name_of_def)
qed

subsection \<open>The methods refine the directory\<close>

text \<open>What the server makes of the values of a profile and of a target.\<close>

definition stored_profile :: "pg_types \<Rightarrow> VPNProfile \<Rightarrow> (string \<times> profile_view) option" where
  "stored_profile t v =
     Option.bind (pg_varchar t 255 (vp_Name v)) (\<lambda>name.
     Option.bind (pg_varchar t 50 (if vp_Type v = [] then VPNTypeWireGuard else vp_Type v)) (\<lambda>ty.
     Option.bind (pg_jsonb t (if vp_Config v = [] then ''{}'' else vp_Config v)) (\<lambda>cfg.
     Option.bind (nullif_varchar t 255 (vp_SecretRef v)) (\<lambda>secret.
     Some (name, \<lparr>pv_type = ty, pv_config = cfg, pv_secret = coalesce secret, pv_enabled = vp_Enabled v\<rparr>)))))"

definition stored_target :: "pg_types \<Rightarrow> profile_row list \<Rightarrow> TargetHost \<Rightarrow> (string \<times> target_view) option" where
  "stored_target t profiles g =
     Option.bind (pg_varchar t 255 (th_PublicAlias g)) (\<lambda>a.
     Option.bind (pg_inet t (th_PrivateIP g)) (\<lambda>ip.
     Option.bind (pg_varchar t 10 (if th_Protocol g = [] then ''http'' else th_Protocol g)) (\<lambda>proto.
     Option.bind (nullif_uuid t (th_VPNProfileID g)) (\<lambda>prof.
     Option.bind (nullif_varchar t 500 (th_HealthCheck g)) (\<lambda>health.
     Some (a, \<lparr>tv_ip = ip, tv_port = (if th_Port g = 0 then 80 else th_Port g), tv_protocol = proto,
               tv_profile = name_of profiles prof, tv_health = coalesce health, tv_enabled = th_Enabled g\<rparr>))))))"

lemma view_target_cong:
  assumes "\<And>r. r \<in> set rows \<Longrightarrow> name_of ps' (tr_profile r) = name_of ps (tr_profile r)"
  shows "map_option (view_target ps') (find P rows) = map_option (view_target ps) (find P rows)"
  using assms by (cases "find P rows") (auto simp: view_target_def dest!: find_SomeE)

lemma UpsertProfile_refines:
  assumes "UpsertProfile t env v s = (Inr i, s')" and "db_ok t (ss_db s)"
  shows "\<exists>n pv. stored_profile t v = Some (n, pv)
    \<and> directory_of (ss_db s') = put_profile n pv (directory_of (ss_db s))"
proof -
  let ?vtype = "if vp_Type v = [] then VPNTypeWireGuard else vp_Type v"
  let ?cfg = "if vp_Config v = [] then ''{}'' else vp_Config v"
  obtain db' where stmt: "sqlUpsertProfile t env (vp_Name v) ?vtype ?cfg (vp_SecretRef v) (vp_Enabled v) (ss_db s) = Inr (i, db')"
    and s': "s' = s\<lparr>ss_db := db'\<rparr>"
    using assms(1) by (auto simp: UpsertProfile_def Let_def run_stmt_Inr)
  obtain n ty cfg sec rows where
    c: "pg_varchar t 255 (vp_Name v) = Some n" "pg_varchar t 50 ?vtype = Some ty" "pg_jsonb t ?cfg = Some cfg"
      "nullif_varchar t 255 (vp_SecretRef v) = Some sec"
    and up: "upsert_rows vr_name n vr_id
      (\<lambda>r. r\<lparr>vr_type := ty, vr_config := cfg, vr_secret_ref := sec, vr_enabled := vp_Enabled v,
             vr_updated := se_now env\<rparr>)
      \<lparr>vr_id = se_newid env, vr_name = n, vr_type = ty, vr_config = cfg, vr_secret_ref = sec,
       vr_enabled = vp_Enabled v, vr_created = se_now env, vr_updated = se_now env\<rparr> (db_profiles (ss_db s)) = Inr (i, rows)"
    and db': "db' = (ss_db s)\<lparr>db_profiles := rows\<rparr>"
    using stmt by (auto simp: sqlUpsertProfile_def)
  have "references (tr_profile r) (map vr_id (db_profiles (ss_db s)))" if "r \<in> set (db_targets (ss_db s))" for r
    using assms(2) that by (auto simp: db_ok_def targets_ok_def list_all_iff)
  then have "name_of rows (tr_profile r) = name_of (db_profiles (ss_db s)) (tr_profile r)"
    if "r \<in> set (db_targets (ss_db s))" for r
    by (intro upsert_name_of [OF up]) (use that in auto)
  note keep = view_target_cong [OF this]
  have put: "map_option view_profile (find (\<lambda>r. vr_name r = m) rows)
    = (if m = n then Some \<lparr>pv_type = ty, pv_config = cfg, pv_secret = coalesce sec, pv_enabled = vp_Enabled v\<rparr>
       else map_option view_profile (find (\<lambda>r. vr_name r = m) (db_profiles (ss_db s))))" for m
    by (subst upsert_find [OF up]) (simp_all add: view_profile_def)
  show ?thesis
    using c by (auto simp: stored_profile_def directory_of_def put_profile_def s' db' put keep)
qed

lemma UpsertTarget_refines:
  assumes "UpsertTarget t env g s = (Inr i, s')"
  shows "\<exists>a tv. stored_target t (db_profiles (ss_db s)) g = Some (a, tv)
    \<and> directory_of (ss_db s') = put_target a tv (directory_of (ss_db s))"
proof -
  let ?port = "if th_Port g = 0 then 80 else th_Port g"
  let ?proto = "if th_Protocol g = [] then ''http'' else th_Protocol g"
  obtain db' where stmt: "sqlUpsertTarget t env (th_PublicAlias g) (th_PrivateIP g) ?port ?proto
      (th_VPNProfileID g) (th_HealthCheck g) (th_Enabled g) (ss_db s) = Inr (i, db')"
    and s': "s' = s\<lparr>ss_db := db'\<rparr>"
    using assms(1) by (auto simp: UpsertTarget_def Let_def run_stmt_Inr split: if_split_asm)
  obtain a ip proto prof health rows where
    c: "pg_varchar t 255 (th_PublicAlias g) = Some a" "pg_inet t (th_PrivateIP g) = Some ip"
      "pg_varchar t 10 ?proto = Some proto" "nullif_uuid t (th_VPNProfileID g) = Some prof"
      "nullif_varchar t 500 (th_HealthCheck g) = Some health"
    and up: "upsert_rows tr_alias a tr_id
      (\<lambda>r. r\<lparr>tr_ip := ip, tr_port := ?port, tr_protocol := proto, tr_profile := prof,
             tr_health := health, tr_enabled := th_Enabled g, tr_updated := se_now env\<rparr>)
      \<lparr>tr_id = se_newid env, tr_alias = a, tr_ip = ip, tr_port = ?port, tr_protocol = proto,
       tr_profile = prof, tr_health = health, tr_enabled = th_Enabled g,
       tr_created = se_now env, tr_updated = se_now env\<rparr> (db_targets (ss_db s)) = Inr (i, rows)"
    and db': "db' = (ss_db s)\<lparr>db_targets := rows\<rparr>"
    using stmt unfolding sqlUpsertTarget_def by auto
  have put: "map_option (view_target ps) (find (\<lambda>r. tr_alias r = b) rows)
    = (if b = a then Some \<lparr>tv_ip = ip, tv_port = ?port, tv_protocol = proto, tv_profile = name_of ps prof,
         tv_health = coalesce health, tv_enabled = th_Enabled g\<rparr>
       else map_option (view_target ps) (find (\<lambda>r. tr_alias r = b) (db_targets (ss_db s))))" for b ps
    by (subst upsert_find [OF up]) (simp_all add: view_target_def)
  show ?thesis
    using c unfolding stored_target_def by (auto simp: directory_of_def put_target_def s' db' put)
qed

lemma name_of_drop:
  assumes "profiles_ok t ps" and "p \<in> set ps" and "references x (map vr_id ps)"
  shows "name_of (filter (\<lambda>r. vr_id r \<noteq> vr_id p) ps) (if x = Some (vr_id p) then None else x)
    = (if name_of ps x = Some (vr_name p) then None else name_of ps x)"
proof (cases x)
  case (Some i)
  then obtain q where q: "q \<in> set ps" "vr_id q = i" using assms(3) by (auto simp: references_def)
  have dist: "distinct (map vr_id ps)" "distinct (map vr_name ps)" using assms(1) by (auto simp: profiles_ok_def)
  then have "find (\<lambda>r. vr_id r = i) ps = Some q" using q by (simp add: find_key_Some)
  moreover have "vr_name q = vr_name p \<longleftrightarrow> q = p" "vr_id q = vr_id p \<longleftrightarrow> q = p"
    using dist q(1) assms(2) by (auto simp: distinct_map inj_on_def)
  ultimately show ?thesis using Some q by (auto simp: name_of_def find_key_filter [OF dist(1)])
qed (simp add: name_of_def)

text \<open>The targets after the profile \<open>p\<close> is deleted: those that named it name none.\<close>

lemma find_target_drop:
  fixes now :: time
  assumes "profiles_ok t ps" and "targets_ok t (map vr_id ps) ts" and "p \<in> set ps"
  defines "g \<equiv> \<lambda>r. if tr_profile r = Some (vr_id p) then r\<lparr>tr_profile := None, tr_updated := now\<rparr> else r"
  shows "map_option (view_target (filter (\<lambda>r. vr_id r \<noteq> vr_id p) ps)) (find (\<lambda>r. tr_alias r = a) (map g ts))
    = map_option (\<lambda>v. if tv_profile v = Some (vr_name p) then v\<lparr>tv_profile := None\<rparr> else v)
        (map_option (view_target ps) (find (\<lambda>r. tr_alias r = a) ts))"
proof -
  have view: "view_target (filter (\<lambda>r. vr_id r \<noteq> vr_id p) ps) (g r)
    = (let v = view_target ps r in if tv_profile v = Some (vr_name p) then v\<lparr>tv_profile := None\<rparr> else v)"
    if "r \<in> set ts" for r
  proof -
    have "references (tr_profile r) (map vr_id ps)" using assms(2) that by (auto simp: targets_ok_def list_all_iff)
    from name_of_drop [OF assms(1,3) this] show ?thesis by (auto simp: g_def view_target_def Let_def split: if_splits)
  qed
  have "find (\<lambda>r. tr_alias r = a) (map g ts) = map_option g (find (\<lambda>r. tr_alias r = a) ts)"
    by (rule find_map_keep) (simp add: g_def)
  moreover have "find (\<lambda>r. tr_alias r = a) ts = Some r \<Longrightarrow> r \<in> set ts" for r using find_SomeE by force
  ultimately show ?thesis
    using view by (cases "find (\<lambda>r. tr_alias r = a) ts") (simp_all add: Let_def)
qed

lemma DeleteProfile_refines:
  assumes "DeleteProfile t env i s = (Inr u, s')" and "db_ok t (ss_db s)"
  shows "\<exists>j. pg_uuid t i = Some j \<and> directory_of (ss_db s')
    = (case name_of (db_profiles (ss_db s)) (Some j) of
         Some n \<Rightarrow> drop_profile n (directory_of (ss_db s)) | None \<Rightarrow> directory_of (ss_db s))"
proof -
  let ?ps = "db_profiles (ss_db s)" and ?ts = "db_targets (ss_db s)"
  obtain j where j: "pg_uuid t i = Some j"
    and db': "ss_db s' = (ss_db s)\<lparr>db_profiles := filter (\<lambda>r. vr_id r \<noteq> j) ?ps,
       db_targets := map (\<lambda>r. if tr_profile r = Some j \<and> j \<in> vr_id ` set ?ps
                              then r\<lparr>tr_profile := None, tr_updated := se_now env\<rparr> else r) ?ts,
       db_tiers := filter (\<lambda>r. \<not> (ti_profile r = j \<and> j \<in> vr_id ` set ?ps)) (db_tiers (ss_db s))\<rparr>"
    using assms(1) by (auto simp: DeleteProfile_def run_stmt_Inr sqlDeleteProfile_def)
  have ok: "profiles_ok t ?ps" "targets_ok t (map vr_id ?ps) ?ts" using assms(2) by (auto simp: db_ok_def)
  show ?thesis
  proof (cases "j \<in> vr_id ` set ?ps")
    case False
    then have "filter (\<lambda>r. vr_id r \<noteq> j) ?ps = ?ps" by (auto simp: filter_id_conv)
    moreover have "find (\<lambda>r. vr_id r = j) ?ps = None" using False by (auto simp: find_None_iff)
    ultimately show ?thesis using j False by (auto simp: directory_of_def name_of_def db')
  next
    case True
    then obtain p where p: "p \<in> set ?ps" "vr_id p = j" by auto
    have dist: "distinct (map vr_id ?ps)" "distinct (map vr_name ?ps)" using ok(1) by (auto simp: profiles_ok_def)
    have n: "name_of ?ps (Some j) = Some (vr_name p)"
      using find_key_Some [OF dist(1), of j p] p by (simp add: name_of_def)
    have profiles: "map_option view_profile (find (\<lambda>r. vr_name r = m) (filter (\<lambda>r. vr_id r \<noteq> j) ?ps))
      = (if m = vr_name p then None else map_option view_profile (find (\<lambda>r. vr_name r = m) ?ps))" for m
      using find_drop [OF dist p(1)] p(2) by simp
    note targets = find_target_drop [OF ok p(1), unfolded p(2)]
    show ?thesis
      using j True by (simp add: n directory_of_def drop_profile_def db' profiles targets fun_eq_iff)
  qed
qed

lemma DeleteTarget_refines:
  assumes "DeleteTarget t env i s = (Inr u, s')" and "db_ok t (ss_db s)"
  shows "\<exists>j. pg_uuid t i = Some j \<and> directory_of (ss_db s')
    = (case find (\<lambda>r. tr_id r = j) (db_targets (ss_db s)) of
         Some r \<Rightarrow> drop_target (tr_alias r) (directory_of (ss_db s)) | None \<Rightarrow> directory_of (ss_db s))"
proof -
  let ?ts = "db_targets (ss_db s)"
  obtain j where j: "pg_uuid t i = Some j"
    and db': "db_profiles (ss_db s') = db_profiles (ss_db s)" "db_targets (ss_db s') = filter (\<lambda>r. tr_id r \<noteq> j) ?ts"
    using assms(1) by (auto simp: DeleteTarget_def run_stmt_Inr sqlDeleteTarget_def)
  have dist: "distinct (map tr_id ?ts)" "distinct (map tr_alias ?ts)"
    using assms(2) by (auto simp: db_ok_def targets_ok_def)
  show ?thesis
  proof (cases "find (\<lambda>r. tr_id r = j) ?ts")
    case None
    then have "filter (\<lambda>r. tr_id r \<noteq> j) ?ts = ?ts" by (auto simp: find_None_iff filter_id_conv)
    then show ?thesis using j None by (simp add: directory_of_def db')
  next
    case (Some r)
    then have r: "r \<in> set ?ts" "tr_id r = j" using find_SomeE by force+
    have "map_option f (find (\<lambda>r. tr_alias r = a) (filter (\<lambda>r. tr_id r \<noteq> j) ?ts))
      = (if a = tr_alias r then None else map_option f (find (\<lambda>r. tr_alias r = a) ?ts))" for a and f :: "target_row \<Rightarrow> target_view"
      using find_drop [OF dist r(1)] r(2) by simp
    then show ?thesis using j Some by (simp add: directory_of_def drop_target_def db' fun_eq_iff)
  qed
qed

subsection \<open>Properties\<close>

text \<open>
  C7: the store implements the directory. Whenever one of the four edits succeeds, on the pool
  or in a transaction, what the directory then shows is the edit of what it showed: a profile
  or target put under the name the server stores, a profile dropped together with every
  reference to it (its targets stay, without a profile), a target dropped.
\<close>

theorem store_refines_directory:
  assumes "db_ok t (ss_db s)"
  shows "(UpsertProfile t env v s = (Inr i, s') \<longrightarrow> (\<exists>n pv. stored_profile t v = Some (n, pv)
        \<and> directory_of (ss_db s') = put_profile n pv (directory_of (ss_db s))))
    \<and> (UpsertTarget t env g s = (Inr i, s') \<longrightarrow> (\<exists>a tv. stored_target t (db_profiles (ss_db s)) g = Some (a, tv)
        \<and> directory_of (ss_db s') = put_target a tv (directory_of (ss_db s))))
    \<and> (DeleteProfile t env j s = (Inr (), s') \<longrightarrow> (\<exists>k. pg_uuid t j = Some k \<and> directory_of (ss_db s')
        = (case name_of (db_profiles (ss_db s)) (Some k) of
             Some n \<Rightarrow> drop_profile n (directory_of (ss_db s)) | None \<Rightarrow> directory_of (ss_db s))))
    \<and> (DeleteTarget t env j s = (Inr (), s') \<longrightarrow> (\<exists>k. pg_uuid t j = Some k \<and> directory_of (ss_db s')
        = (case find (\<lambda>r. tr_id r = k) (db_targets (ss_db s)) of
             Some r \<Rightarrow> drop_target (tr_alias r) (directory_of (ss_db s)) | None \<Rightarrow> directory_of (ss_db s))))"
  using UpsertProfile_refines [OF _ assms] UpsertTarget_refines DeleteProfile_refines [OF _ assms]
    DeleteTarget_refines [OF _ assms] by blast

lemma eu_deleted:
  "DeleteProfile ref_types ref_env pid1 (pool wiki_db) = (Inr (), (pool wiki_db)\<lparr>ss_db := wiki_db\<lparr>db_profiles := [],
     db_targets := [row_wiki\<lparr>tr_profile := None, tr_updated := 100\<rparr>]\<rparr>\<rparr>)"
  using ref_uuids
  by (simp add: DeleteProfile_def run_stmt_def ref_env_def sqlDeleteProfile_def conv_def ref_types_def wiki_db_def
      row_eu_def row_wiki_def wrap_result_def)

theorem store_refines_directory_witness:
  "directory_of (ss_db (snd (DeleteProfile ref_types ref_env pid1 (pool wiki_db))))
    = drop_profile ''eu'' (directory_of wiki_db)"
proof -
  have ok: "db_ok ref_types (ss_db (pool wiki_db))" by (simp add: wiki_db_ok)
  have "DeleteProfile ref_types ref_env pid1 (pool wiki_db)
      = (Inr (), snd (DeleteProfile ref_types ref_env pid1 (pool wiki_db)))"
    by (simp add: eu_deleted)
  then obtain k where k: "pg_uuid ref_types pid1 = Some k" and
    d: "directory_of (ss_db (snd (DeleteProfile ref_types ref_env pid1 (pool wiki_db))))
      = (case name_of (db_profiles wiki_db) (Some k) of
           Some n \<Rightarrow> drop_profile n (directory_of wiki_db) | None \<Rightarrow> directory_of wiki_db)"
    using store_refines_directory [OF ok, of ref_env _ "[]" "snd (DeleteProfile ref_types ref_env pid1 (pool wiki_db))" _ pid1]
    unfolding pool_simps by blast
  have "k = pid1" using k ref_uuids by (simp add: ref_types_def)
  then have "name_of (db_profiles wiki_db) (Some k) = Some ''eu''" by (simp add: name_of_def wiki_db_def row_eu_def)
  then show ?thesis using d by simp
qed

end
