(* ===== verification/Vpn_Wg.thy ===== *)
theory Vpn_Wg
  imports Go_Strings Go_Time
begin

text \<open>
  \<open>control-plane/internal/vpn/wg.go\<close>: the parsers of \<open>wg show <if> transfer\<close> and
  \<open>wg show <if> latest-handshakes\<close>, the sums over peers, and the reader that runs the
  \<open>wg\<close> binary. The binary is the parameter \<open>exec\<close>: what a command line prints, or
  that it failed. Every \<open>fmt.Errorf\<close> of the parsers is a constructor of
  \<open>wg_error\<close>, with the line number it reports.
\<close>

subsection \<open>Definitions\<close>

record PeerTransfer =
  pt_PublicKey :: string
  pt_Rx :: uint64
  pt_Tx :: uint64

record PeerHandshake =
  ph_PublicKey :: string
  ph_At :: time

datatype wg_error =
    BadFields nat nat string      \<comment> \<open>line, number of fields, the line\<close>
  | BadRx nat string num_error
  | BadTx nat string num_error
  | BadEpoch nat string num_error
  | ExecError string              \<comment> \<open>which table could not be read\<close>

text \<open>
  The loop both parsers have: lines numbered from 1, a trailing CR removed, blank lines
  skipped, the first bad line ending the loop with its error.
\<close>

fun line_loop :: "(nat \<Rightarrow> string \<Rightarrow> wg_error + 'p) \<Rightarrow> nat \<Rightarrow> string list \<Rightarrow> 'p list \<Rightarrow> wg_error + 'p list" where
  "line_loop f i [] peers = Inr peers"
| "line_loop f i (l # ls) peers =
     (let line = TrimRight l [CR] in
      if TrimSpace line = [] then line_loop f (Suc i) ls peers
      else (case f (Suc i) line of
              Inl e \<Rightarrow> Inl e
            | Inr p \<Rightarrow> line_loop f (Suc i) ls (peers @ [p])))"

definition transfer_line :: "nat \<Rightarrow> string \<Rightarrow> wg_error + PeerTransfer" where
  "transfer_line n line =
     (case Split line TAB of
        [f0, f1, f2] \<Rightarrow>
          (case ParseUint (TrimSpace f1) of
             Inl e \<Rightarrow> Inl (BadRx n f1 e)
           | Inr rx \<Rightarrow>
               (case ParseUint (TrimSpace f2) of
                  Inl e \<Rightarrow> Inl (BadTx n f2 e)
                | Inr tx \<Rightarrow> Inr \<lparr>pt_PublicKey = TrimSpace f0, pt_Rx = rx, pt_Tx = tx\<rparr>))
      | flds \<Rightarrow> Inl (BadFields n (length flds) line))"

definition ParseTransfer :: "string \<Rightarrow> wg_error + PeerTransfer list" where
  "ParseTransfer out = line_loop transfer_line 0 (Split out LF) []"

fun SumTransfer_loop :: "PeerTransfer list \<Rightarrow> uint64 \<times> uint64 \<Rightarrow> uint64 \<times> uint64" where
  "SumTransfer_loop [] (rx, tx) = (rx, tx)"
| "SumTransfer_loop (p # ps) (rx, tx) = SumTransfer_loop ps (rx + pt_Rx p, tx + pt_Tx p)"

definition SumTransfer :: "PeerTransfer list \<Rightarrow> uint64 \<times> uint64" where
  "SumTransfer peers = SumTransfer_loop peers (0, 0)"

definition handshake_line :: "nat \<Rightarrow> string \<Rightarrow> wg_error + PeerHandshake" where
  "handshake_line n line =
     (case Split line TAB of
        [f0, f1] \<Rightarrow>
          (case ParseInt (TrimSpace f1) of
             Inl e \<Rightarrow> Inl (BadEpoch n f1 e)
           | Inr epoch \<Rightarrow>
               Inr \<lparr>ph_PublicKey = TrimSpace f0, ph_At = (if 0 < epoch then Unix epoch else 0)\<rparr>)
      | flds \<Rightarrow> Inl (BadFields n (length flds) line))"

definition ParseLatestHandshakes :: "string \<Rightarrow> wg_error + PeerHandshake list" where
  "ParseLatestHandshakes out = line_loop handshake_line 0 (Split out LF) []"

fun LatestHandshake_loop :: "PeerHandshake list \<Rightarrow> time \<Rightarrow> time" where
  "LatestHandshake_loop [] latest = latest"
| "LatestHandshake_loop (p # ps) latest =
     LatestHandshake_loop ps (if After (ph_At p) latest then ph_At p else latest)"

definition LatestHandshake :: "PeerHandshake list \<Rightarrow> time" where
  "LatestHandshake peers = LatestHandshake_loop peers 0"

record WGReader =
  Bin :: string

definition wg_bin :: "WGReader \<Rightarrow> string" where
  "wg_bin r = (if Bin r \<noteq> [] then Bin r else ''wg'')"

text \<open>\<open>exec\<close>: the argument vector to the output of the process, \<open>None\<close> when it fails.\<close>

type_synonym exec = "string list \<Rightarrow> string option"

definition wg_Sample :: "exec \<Rightarrow> WGReader \<Rightarrow> string \<Rightarrow> wg_error + (uint64 \<times> uint64 \<times> time)" where
  "wg_Sample exec r ifName =
     (case exec [wg_bin r, ''show'', ifName, ''transfer''] of
        None \<Rightarrow> Inl (ExecError ''transfer'')
      | Some transferOut \<Rightarrow>
          (case ParseTransfer transferOut of
             Inl e \<Rightarrow> Inl e
           | Inr peers \<Rightarrow>
               (let (rx, tx) = SumTransfer peers in
                case exec [wg_bin r, ''show'', ifName, ''latest-handshakes''] of
                  None \<Rightarrow> Inl (ExecError ''latest-handshakes'')
                | Some hsOut \<Rightarrow>
                    (case ParseLatestHandshakes hsOut of
                       Inl e \<Rightarrow> Inl e
                     | Inr hs \<Rightarrow> Inr (rx, tx, LatestHandshake hs)))))"

subsection \<open>The line loop\<close>

definition keep_line :: "string \<Rightarrow> bool" where
  "keep_line l \<longleftrightarrow> TrimSpace (TrimRight l [CR]) \<noteq> []"

lemma line_loop_Inr:
  "line_loop f i ls peers = Inr ps \<Longrightarrow>
     \<exists>qs. ps = peers @ qs \<and>
       list_all2 (\<lambda>l q. \<exists>n. f n (TrimRight l [CR]) = Inr q) (filter keep_line ls) qs"
proof (induction ls arbitrary: i peers)
  case Nil
  then show ?case by simp
next
  case (Cons l ls)
  show ?case
  proof (cases "keep_line l")
    case False
    with Cons show ?thesis by (simp add: keep_line_def Let_def)
  next
    case True
    with Cons.prems obtain q where q: "f (Suc i) (TrimRight l [CR]) = Inr q"
      and rest: "line_loop f (Suc i) ls (peers @ [q]) = Inr ps"
      by (auto simp: keep_line_def Let_def split: sum.splits)
    from Cons.IH [OF rest] obtain qs where "ps = (peers @ [q]) @ qs"
      and "list_all2 (\<lambda>l q. \<exists>n. f n (TrimRight l [CR]) = Inr q) (filter keep_line ls) qs" by blast
    with True q show ?thesis by (intro exI [of _ "q # qs"]) auto
  qed
qed

lemma line_loop_print:
  assumes "\<And>p n. p \<in> set ps \<Longrightarrow> f n (pr p) = Inr (g p)"
    and "\<And>p. p \<in> set ps \<Longrightarrow> TrimRight (pr p) [CR] = pr p \<and> TrimSpace (pr p) \<noteq> []"
  shows "line_loop f i (map pr ps @ [[]]) acc = Inr (acc @ map g ps)"
  using assms
  by (induction ps arbitrary: i acc) (simp_all add: TrimRight_def Let_def)

subsection \<open>Printing and parsing\<close>

text \<open>
  The tables as \<open>wg\<close> prints them: one peer per line, fields separated by TAB, the public
  key a non-empty run of visible characters (it is base64).
\<close>

definition transfer_text :: "PeerTransfer \<Rightarrow> string" where
  "transfer_text p = pt_PublicKey p @ [TAB] @ show_nat (unat (pt_Rx p)) @ [TAB] @ show_nat (unat (pt_Tx p))"

definition print_transfer :: "PeerTransfer list \<Rightarrow> string" where
  "print_transfer ps = concat (map (\<lambda>p. transfer_text p @ [LF]) ps)"

definition handshake_text :: "string \<times> nat \<Rightarrow> string" where
  "handshake_text ke = fst ke @ [TAB] @ show_nat (snd ke)"

definition print_handshakes :: "(string \<times> nat) list \<Rightarrow> string" where
  "print_handshakes kes = concat (map (\<lambda>ke. handshake_text ke @ [LF]) kes)"

definition handshake_of :: "string \<times> nat \<Rightarrow> PeerHandshake" where
  "handshake_of ke = \<lparr>ph_PublicKey = fst ke, ph_At = (if 0 < snd ke then Unix (int (snd ke)) else 0)\<rparr>"

definition key_ok :: "string \<Rightarrow> bool" where
  "key_ok k \<longleftrightarrow> visible_string k \<and> k \<noteq> []"

lemma key_ok_visible [simp]: "key_ok k \<Longrightarrow> visible_string k"
  by (simp add: key_ok_def)

lemmas no_control = visible_string_no_control visible_string_no_control [OF visible_show_nat]

lemma transfer_line_text:
  "key_ok (pt_PublicKey p) \<Longrightarrow> transfer_line n (transfer_text p) = Inr p"
  by (simp add: transfer_line_def transfer_text_def Split_append Split_single no_control)

lemma handshake_line_text:
  "key_ok (fst ke) \<Longrightarrow> snd ke < 2 ^ 63 \<Longrightarrow> handshake_line n (handshake_text ke) = Inr (handshake_of ke)"
  by (simp add: handshake_line_def handshake_text_def handshake_of_def Split_append Split_single
      no_control ParseInt_show_nat)

lemma text_line_kept:
  assumes "key_ok k"
  shows "TrimRight (k @ TAB # s @ show_nat n) [CR] = k @ TAB # s @ show_nat n"
    and "TrimSpace (k @ TAB # s @ show_nat n) \<noteq> []"
proof -
  have "visible (last (show_nat n))" by (rule visible_last) simp_all
  then have "last (show_nat n) \<noteq> CR" by (metis not_visible_control(1))
  then show "TrimRight (k @ TAB # s @ show_nat n) [CR] = k @ TAB # s @ show_nat n"
    by (intro TrimRight_id) simp
  obtain c where "c \<in> set k" "visible c"
    using assms by (cases k) (auto simp: key_ok_def)
  then have "c \<in> set (TrimSpace (k @ TAB # s @ show_nat n))"
    by (intro TrimSpace_keeps_visible) simp_all
  then show "TrimSpace (k @ TAB # s @ show_nat n) \<noteq> []" by auto
qed

lemma transfer_text_kept:
  "key_ok (pt_PublicKey p) \<Longrightarrow> TrimRight (transfer_text p) [CR] = transfer_text p \<and> TrimSpace (transfer_text p) \<noteq> []"
  using text_line_kept [of "pt_PublicKey p" "show_nat (unat (pt_Rx p)) @ [TAB]" "unat (pt_Tx p)"]
  by (simp add: transfer_text_def)

lemma handshake_text_kept:
  "key_ok (fst ke) \<Longrightarrow> TrimRight (handshake_text ke) [CR] = handshake_text ke \<and> TrimSpace (handshake_text ke) \<noteq> []"
  using text_line_kept [of "fst ke" "[]" "snd ke"] by (simp add: handshake_text_def)

lemma ParseTransfer_print:
  assumes "\<And>p. p \<in> set ps \<Longrightarrow> key_ok (pt_PublicKey p)"
  shows "ParseTransfer (print_transfer ps) = Inr ps"
proof -
  have "LF \<notin> set l" if "l \<in> set (map transfer_text ps)" for l
    using that assms by (auto simp: transfer_text_def no_control)
  then have "Split (print_transfer ps) LF = map transfer_text ps @ [[]]"
    using Split_lines [of "map transfer_text ps" LF] by (simp add: print_transfer_def comp_def)
  then show ?thesis
    using line_loop_print [of ps transfer_line transfer_text id 0 "[]"] assms
    by (simp add: ParseTransfer_def transfer_line_text transfer_text_kept)
qed

lemma ParseLatestHandshakes_print:
  assumes "\<And>ke. ke \<in> set kes \<Longrightarrow> key_ok (fst ke) \<and> snd ke < 2 ^ 63"
  shows "ParseLatestHandshakes (print_handshakes kes) = Inr (map handshake_of kes)"
proof -
  have "LF \<notin> set l" if "l \<in> set (map handshake_text kes)" for l
    using that assms by (auto simp: handshake_text_def no_control)
  then have "Split (print_handshakes kes) LF = map handshake_text kes @ [[]]"
    using Split_lines [of "map handshake_text kes" LF] by (simp add: print_handshakes_def comp_def)
  then show ?thesis
    using line_loop_print [of kes handshake_line handshake_text handshake_of 0 "[]"] assms
    by (simp add: ParseLatestHandshakes_def handshake_line_text handshake_text_kept)
qed

lemma transfer_line_Inr:
  "transfer_line n line = Inr p \<Longrightarrow>
     \<exists>f0 f1 f2. Split line TAB = [f0, f1, f2] \<and> pt_PublicKey p = TrimSpace f0
       \<and> ParseUint (TrimSpace f1) = Inr (pt_Rx p) \<and> ParseUint (TrimSpace f2) = Inr (pt_Tx p)"
  by (auto simp: transfer_line_def split: list.splits sum.splits)

subsection \<open>Sums and maxima\<close>

lemma SumTransfer_loop_eq:
  "SumTransfer_loop ps (rx, tx) = (rx + sum_list (map pt_Rx ps), tx + sum_list (map pt_Tx ps))"
  by (induction ps arbitrary: rx tx) (auto simp: add.assoc)

lemma SumTransfer_eq: "SumTransfer ps = (sum_list (map pt_Rx ps), sum_list (map pt_Tx ps))"
  by (simp add: SumTransfer_def SumTransfer_loop_eq)

lemma unat_sum_list: "unat (sum_list ws :: uint64) = (\<Sum>w\<leftarrow>ws. unat w) mod 2 ^ 64"
  by (induction ws) (simp_all add: unat_word_ariths mod_simps)

lemma LatestHandshake_loop_max: "LatestHandshake_loop ps t = Max (insert t (ph_At ` set ps))"
proof (induction ps arbitrary: t)
  case (Cons p ps)
  have "LatestHandshake_loop (p # ps) t = Max (insert (max t (ph_At p)) (ph_At ` set ps))"
    using Cons.IH by (simp add: After_def max_def)
  also have "\<dots> = Max (insert t (ph_At ` set (p # ps)))"
    by (cases "ps = []") (simp_all add: max.assoc)
  finally show ?case .
qed simp

lemma LatestHandshake_max: "LatestHandshake ps = Max (insert 0 (ph_At ` set ps))"
  by (simp add: LatestHandshake_def LatestHandshake_loop_max)

subsection \<open>Properties\<close>

text \<open>
  C37: sampling an interface whose two tables are printed by \<open>wg\<close> yields the byte totals of
  the peers, reduced modulo 2^64, and the newest handshake, the zero time if no peer ever
  had one.
\<close>

theorem wg_Sample_reads_tables:
  assumes "exec [wg_bin r, ''show'', i, ''transfer''] = Some (print_transfer ps)"
    and "exec [wg_bin r, ''show'', i, ''latest-handshakes''] = Some (print_handshakes kes)"
    and "\<forall>p \<in> set ps. key_ok (pt_PublicKey p)"
    and "\<forall>ke \<in> set kes. key_ok (fst ke) \<and> snd ke < 2 ^ 63"
  shows "\<exists>rx tx. wg_Sample exec r i = Inr (rx, tx, Max (insert 0 (ph_At ` set (map handshake_of kes))))
    \<and> unat rx = (\<Sum>p\<leftarrow>ps. unat (pt_Rx p)) mod 2 ^ 64
    \<and> unat tx = (\<Sum>p\<leftarrow>ps. unat (pt_Tx p)) mod 2 ^ 64"
proof -
  have "ParseTransfer (print_transfer ps) = Inr ps" using assms(3) by (intro ParseTransfer_print) blast
  moreover have "ParseLatestHandshakes (print_handshakes kes) = Inr (map handshake_of kes)"
    using assms(4) by (intro ParseLatestHandshakes_print) blast
  ultimately have "wg_Sample exec r i = Inr (sum_list (map pt_Rx ps), sum_list (map pt_Tx ps),
      LatestHandshake (map handshake_of kes))"
    using assms(1,2) by (simp add: wg_Sample_def SumTransfer_eq)
  then show ?thesis
    unfolding LatestHandshake_max by (simp add: unat_sum_list comp_def)
qed

definition two_peers :: "PeerTransfer list" where
  "two_peers = [\<lparr>pt_PublicKey = ''abc='', pt_Rx = 5, pt_Tx = 2 ^ 64 - 1\<rparr>, \<lparr>pt_PublicKey = ''def='', pt_Rx = 7, pt_Tx = 3\<rparr>]"

theorem wg_Sample_reads_tables_witness:
  "\<exists>rx tx. wg_Sample (\<lambda>args. if last args = ''transfer'' then Some (print_transfer two_peers)
        else Some (print_handshakes [(''abc='', 1700000000), (''def='', 0)])) \<lparr>Bin = []\<rparr> ''wg0''
      = Inr (rx, tx, Max (insert 0 (ph_At ` set (map handshake_of [(''abc='', 1700000000), (''def='', 0)]))))
    \<and> unat rx = (\<Sum>p\<leftarrow>two_peers. unat (pt_Rx p)) mod 2 ^ 64
    \<and> unat tx = (\<Sum>p\<leftarrow>two_peers. unat (pt_Tx p)) mod 2 ^ 64"
  by (rule wg_Sample_reads_tables) (simp_all add: two_peers_def key_ok_def visible_def)

text \<open>
  A transfer table is accepted only if every line that is not blank has exactly three
  TAB-separated fields with decimal byte counts below 2^64, and then the peers are those of
  the lines, in order.
\<close>

theorem ParseTransfer_accepts_only_tables:
  assumes "ParseTransfer out = Inr ps"
  shows "list_all2 (\<lambda>l p. \<exists>f0 f1 f2. Split (TrimRight l [CR]) TAB = [f0, f1, f2]
      \<and> pt_PublicKey p = TrimSpace f0 \<and> ParseUint (TrimSpace f1) = Inr (pt_Rx p)
      \<and> ParseUint (TrimSpace f2) = Inr (pt_Tx p))
    (filter (\<lambda>l. TrimSpace (TrimRight l [CR]) \<noteq> []) (Split out LF)) ps"
proof -
  from line_loop_Inr [OF assms [unfolded ParseTransfer_def]]
  have "list_all2 (\<lambda>l q. \<exists>n. transfer_line n (TrimRight l [CR]) = Inr q) (filter keep_line (Split out LF)) ps"
    by simp
  then show ?thesis
    unfolding keep_line_def [abs_def] by (rule list_all2_mono) (blast dest: transfer_line_Inr)
qed

theorem ParseTransfer_accepts_only_tables_witness:
  "\<exists>ps. ParseTransfer (print_transfer two_peers) = Inr ps \<and>
    list_all2 (\<lambda>l p. \<exists>f0 f1 f2. Split (TrimRight l [CR]) TAB = [f0, f1, f2]
      \<and> pt_PublicKey p = TrimSpace f0 \<and> ParseUint (TrimSpace f1) = Inr (pt_Rx p)
      \<and> ParseUint (TrimSpace f2) = Inr (pt_Tx p))
    (filter (\<lambda>l. TrimSpace (TrimRight l [CR]) \<noteq> []) (Split (print_transfer two_peers) LF)) ps"
proof -
  have "ParseTransfer (print_transfer two_peers) = Inr two_peers"
    by (rule ParseTransfer_print) (auto simp: two_peers_def key_ok_def visible_def)
  from this ParseTransfer_accepts_only_tables [OF this] show ?thesis by blast
qed

end
