(* ===== verification/Vpn_Health.thy ===== *)
theory Vpn_Health
  imports Vpn_Wg Go_Json
begin

text \<open>
  \<open>control-plane/internal/vpn\<close>: the health snapshot (\<open>vpn.go\<close>), the pure verdict
  \<open>DecideHealth\<close> with its two proofs (\<open>health.go\<close>), the through-tunnel liveness
  prober (\<open>liveness.go\<close>) and the gluetun control-API client (\<open>gluetun.go\<close>). The
  network is the parameter \<open>http\<close>: what a GET of a URL gives. Contexts and timeouts
  appear only through the failures they cause, which are values of that parameter.
\<close>

subsection \<open>Definitions\<close>

subsubsection \<open>vpn.go\<close>

text \<open>\<open>vpn.State\<close> is a Go string type; a decoded snapshot may hold any string.\<close>

type_synonym vpn_State = string

definition StateUp :: vpn_State where "StateUp = ''up''"
definition StateDown :: vpn_State where "StateDown = ''down''"
definition StateUnknown :: vpn_State where "StateUnknown = ''unknown''"

record HealthSnapshot =
  hs_Profile :: string
  hs_State :: vpn_State
  hs_LastHandshake :: time
  hs_Rx :: uint64
  hs_Tx :: uint64
  hs_EgressIP :: string
  hs_CheckedAt :: time
  hs_LiveProbeAt :: time

definition zero_HealthSnapshot :: HealthSnapshot where
  "zero_HealthSnapshot =
     \<lparr>hs_Profile = [], hs_State = [], hs_LastHandshake = 0, hs_Rx = 0, hs_Tx = 0,
      hs_EgressIP = [], hs_CheckedAt = 0, hs_LiveProbeAt = 0\<rparr>"

subsubsection \<open>health.go\<close>

definition wgProofFresh :: "HealthSnapshot \<Rightarrow> HealthSnapshot \<Rightarrow> Duration \<Rightarrow> bool" where
  "wgProofFresh prev cur freshness =
     (if IsZero (hs_LastHandshake cur) then False
      else let age = Sub (hs_CheckedAt cur) (hs_LastHandshake cur) in
        if age < 0 \<or> freshness < age then False
        else hs_Tx prev < hs_Tx cur)"

definition liveProbeFresh :: "HealthSnapshot \<Rightarrow> Duration \<Rightarrow> bool" where
  "liveProbeFresh cur freshness =
     (if IsZero (hs_LiveProbeAt cur) then False
      else let age = Sub (hs_CheckedAt cur) (hs_LiveProbeAt cur) in 0 \<le> age \<and> age \<le> freshness)"

definition DecideHealth :: "HealthSnapshot \<Rightarrow> HealthSnapshot \<Rightarrow> string \<Rightarrow> Duration \<Rightarrow> vpn_State" where
  "DecideHealth prev cur hostIP freshness =
     (if freshness \<le> 0 then StateDown
      else if hs_EgressIP cur = [] then StateDown
      else if hostIP \<noteq> [] \<and> hs_EgressIP cur = hostIP then StateDown
      else if wgProofFresh prev cur freshness then StateUp
      else if liveProbeFresh cur freshness then StateUp
      else StateDown)"

record DataPlaneEvaluator =
  Freshness :: Duration

definition Evaluate :: "DataPlaneEvaluator \<Rightarrow> HealthSnapshot \<Rightarrow> HealthSnapshot \<Rightarrow> string \<Rightarrow> vpn_State" where
  "Evaluate e prev cur hostIP = DecideHealth prev cur hostIP (Freshness e)"

subsubsection \<open>HTTP GET, as the two clients use it\<close>

text \<open>
  A request that cannot be built or sent, a response whose body cannot be read, or a
  response with its status code and body.
\<close>

datatype http_result = BuildFailed | SendFailed | ReadFailed | Response int string

type_synonym http = "string \<Rightarrow> http_result"

subsubsection \<open>liveness.go\<close>

definition DefaultLivenessTarget :: string where
  "DefaultLivenessTarget = ''https://ipinfo.io/ip''"

text \<open>The prober: its target, and the proxy and timeout that its HTTP client is built with.\<close>

record TunnelProxyProber =
  tp_Target :: string
  tp_Proxy :: string
  tp_Timeout :: Duration

datatype prober_error = UnparseableProxyURL | ProxyURLHasNoHost

text \<open>\<open>url_host\<close> is \<open>url.Parse\<close> followed by \<open>Host\<close>: \<open>None\<close> for a URL that does not parse.\<close>

definition NewTunnelProxyProber ::
  "(string \<Rightarrow> string option) \<Rightarrow> string \<Rightarrow> string \<Rightarrow> Duration \<Rightarrow> prober_error + TunnelProxyProber" where
  "NewTunnelProxyProber url_host proxyURL target timeout =
     (case url_host proxyURL of
        None \<Rightarrow> Inl UnparseableProxyURL
      | Some host \<Rightarrow>
          if host = [] then Inl ProxyURLHasNoHost
          else Inr \<lparr>tp_Target = (if target = [] then DefaultLivenessTarget else target),
                    tp_Proxy = proxyURL,
                    tp_Timeout = (if timeout \<le> 0 then 4 * Second else timeout)\<rparr>)"

datatype probe_error = ProbeBuild | ProbeSend | ProbeRead | ProbeStatus int | ProbeEmptyBody

definition Probe :: "http \<Rightarrow> TunnelProxyProber \<Rightarrow> probe_error option" where
  "Probe http p =
     (case http (tp_Target p) of
        BuildFailed \<Rightarrow> Some ProbeBuild
      | SendFailed \<Rightarrow> Some ProbeSend
      | ReadFailed \<Rightarrow> Some ProbeRead
      | Response status full \<Rightarrow>
          let body = take 4096 full in
          if status < 200 \<or> 300 \<le> status then Some (ProbeStatus status)
          else if TrimSpace body = [] then Some ProbeEmptyBody
          else None)"

subsubsection \<open>gluetun.go\<close>

record ControlClient =
  cc_BaseURL :: string

definition NewControlClient :: "string \<Rightarrow> ControlClient" where
  "NewControlClient baseURL = \<lparr>cc_BaseURL = TrimRight baseURL ''/''\<rparr>"

datatype gluetun_error = GlBuild | GlSend | GlRead | GlStatus int | GlDecode

text \<open>\<open>getJSON\<close> up to the document; filling the target struct is the caller's \<open>fds\<close>.\<close>

definition getJSON ::
  "http \<Rightarrow> ControlClient \<Rightarrow> string \<Rightarrow> (string \<times> 'a field_decoder) list \<Rightarrow> 'a \<Rightarrow> gluetun_error + 'a" where
  "getJSON http c path fds v =
     (case http (cc_BaseURL c @ path) of
        BuildFailed \<Rightarrow> Inl GlBuild
      | SendFailed \<Rightarrow> Inl GlSend
      | ReadFailed \<Rightarrow> Inl GlRead
      | Response status full \<Rightarrow>
          let body = take 65536 full in
          if status \<noteq> 200 then Inl (GlStatus status)
          else (case Option.bind (parse_json body) (fill_struct False fds v) of
                  None \<Rightarrow> Inl GlDecode
                | Some x \<Rightarrow> Inr x))"

record vpnStatusResp =
  vs_Status :: string

record publicIPResp =
  pi_PublicIP :: string

definition vpnStatusResp_fields :: "(string \<times> vpnStatusResp field_decoder) list" where
  "vpnStatusResp_fields = [(''status'', dec_string (\<lambda>s r. r\<lparr>vs_Status := s\<rparr>))]"

definition publicIPResp_fields :: "(string \<times> publicIPResp field_decoder) list" where
  "publicIPResp_fields = [(''public_ip'', dec_string (\<lambda>s r. r\<lparr>pi_PublicIP := s\<rparr>))]"

definition gluetun_Status :: "http \<Rightarrow> ControlClient \<Rightarrow> gluetun_error + string" where
  "gluetun_Status http c =
     (case getJSON http c ''/v1/vpn/status'' vpnStatusResp_fields \<lparr>vs_Status = []\<rparr> of
        Inl e \<Rightarrow> Inl e | Inr r \<Rightarrow> Inr (vs_Status r))"

definition gluetun_EgressIP :: "http \<Rightarrow> ControlClient \<Rightarrow> string \<Rightarrow> gluetun_error + string" where
  "gluetun_EgressIP http c profile =
     (case getJSON http c ''/v1/publicip/ip'' publicIPResp_fields \<lparr>pi_PublicIP = []\<rparr> of
        Inl e \<Rightarrow> Inl e | Inr r \<Rightarrow> Inr (TrimSpace (pi_PublicIP r)))"

subsection \<open>The verdict\<close>

lemma state_distinct [simp]:
  "StateUp \<noteq> StateDown" "StateDown \<noteq> StateUp" "StateUp \<noteq> StateUnknown" "StateUnknown \<noteq> StateUp"
  "StateDown \<noteq> StateUnknown" "StateUnknown \<noteq> StateDown" "StateUp \<noteq> []" "[] \<noteq> StateUp"
  "StateDown \<noteq> []" "[] \<noteq> StateDown"
  by (simp_all add: StateUp_def StateDown_def StateUnknown_def)

text \<open>
  What the documentation asks of an "up" verdict, over plain integers: an egress address
  that is not the host's, and within the freshness window before the check either a
  handshake with transmitted bytes growing since the baseline, or a successful probe.
\<close>

definition egress_ok :: "HealthSnapshot \<Rightarrow> string \<Rightarrow> bool" where
  "egress_ok cur hostIP \<longleftrightarrow> hs_EgressIP cur \<noteq> [] \<and> (hostIP = [] \<or> hs_EgressIP cur \<noteq> hostIP)"

definition within :: "time \<Rightarrow> time \<Rightarrow> Duration \<Rightarrow> bool" where
  "within t now d \<longleftrightarrow> t \<noteq> 0 \<and> t \<le> now \<and> now \<le> t + d"

definition up_evidence :: "HealthSnapshot \<Rightarrow> HealthSnapshot \<Rightarrow> string \<Rightarrow> Duration \<Rightarrow> bool" where
  "up_evidence prev cur hostIP freshness \<longleftrightarrow>
     0 < freshness \<and> egress_ok cur hostIP \<and>
     (within (hs_LastHandshake cur) (hs_CheckedAt cur) freshness \<and> unat (hs_Tx prev) < unat (hs_Tx cur)
      \<or> within (hs_LiveProbeAt cur) (hs_CheckedAt cur) freshness)"

lemma fresh_iff:
  assumes "0 < d" and "d < maxDuration"
  shows "t \<noteq> 0 \<and> 0 \<le> Sub now t \<and> Sub now t \<le> d \<longleftrightarrow> within t now d"
proof -
  have "Sub now t \<le> d \<longleftrightarrow> now \<le> t + d" using assms by (intro Sub_le) auto
  then show ?thesis by (simp add: within_def)
qed

lemma wgProofFresh_iff:
  assumes "0 < d" and "d < maxDuration"
  shows "wgProofFresh prev cur d \<longleftrightarrow>
    within (hs_LastHandshake cur) (hs_CheckedAt cur) d \<and> unat (hs_Tx prev) < unat (hs_Tx cur)"
  unfolding fresh_iff [OF assms, symmetric]
  by (auto simp: wgProofFresh_def IsZero_def Let_def word_less_nat_alt not_less)

lemma liveProbeFresh_iff:
  assumes "0 < d" and "d < maxDuration"
  shows "liveProbeFresh cur d \<longleftrightarrow> within (hs_LiveProbeAt cur) (hs_CheckedAt cur) d"
  unfolding fresh_iff [OF assms, symmetric]
  by (auto simp: liveProbeFresh_def IsZero_def Let_def)

lemma DecideHealth_spec:
  assumes "d < maxDuration"
  shows "DecideHealth prev cur hostIP d = (if up_evidence prev cur hostIP d then StateUp else StateDown)"
proof (cases "0 < d")
  case True
  then show ?thesis
    unfolding up_evidence_def DecideHealth_def egress_ok_def
      wgProofFresh_iff [OF True assms] liveProbeFresh_iff [OF True assms]
    by auto
next
  case False
  then show ?thesis by (simp add: DecideHealth_def up_evidence_def)
qed

lemma DecideHealth_two_valued: "DecideHealth prev cur hostIP d \<in> {StateUp, StateDown}"
  by (simp add: DecideHealth_def)

subsection \<open>The clients\<close>

lemma Probe_None_iff:
  "Probe http p = None \<longleftrightarrow>
     (\<exists>status body. http (tp_Target p) = Response status body \<and> 200 \<le> status \<and> status < 300
        \<and> TrimSpace (take 4096 body) \<noteq> [])"
  by (auto simp: Probe_def Let_def split: http_result.splits)

lemma NewTunnelProxyProber_Inr:
  "NewTunnelProxyProber url_host u target timeout = Inr p \<Longrightarrow>
     tp_Target p \<noteq> [] \<and> 0 < tp_Timeout p \<and> (\<exists>h. url_host u = Some h \<and> h \<noteq> [])"
  by (auto simp: NewTunnelProxyProber_def DefaultLivenessTarget_def Second_def
      split: option.splits if_splits)

lemma getJSON_Inr:
  "getJSON http c path fds v = Inr x \<Longrightarrow>
     \<exists>body doc. http (cc_BaseURL c @ path) = Response 200 body
       \<and> parse_json (take 65536 body) = Some doc \<and> fill_struct False fds v doc = Some x"
  by (auto simp: getJSON_def Let_def bind_eq_Some_conv split: http_result.splits if_splits option.splits)

text \<open>A document that carries no \<open>public_ip\<close> is an empty egress, which is never "up".\<close>

lemma DecideHealth_no_egress: "hs_EgressIP cur = [] \<Longrightarrow> DecideHealth prev cur hostIP d = StateDown"
  by (simp add: DecideHealth_def)

subsection \<open>The evaluator's contract\<close>

text \<open>
  \<open>HealthEvaluator\<close> is the interface the publisher depends on: a verdict is "up" or
  "down", and an "up" verdict has the evidence of its snapshot pair.
\<close>

locale health_evaluator =
  fixes evaluate :: "HealthSnapshot \<Rightarrow> HealthSnapshot \<Rightarrow> string \<Rightarrow> vpn_State"
    and window :: Duration
  assumes verdict: "evaluate prev cur hostIP = StateUp \<or> evaluate prev cur hostIP = StateDown"
    and evidence: "evaluate prev cur hostIP = StateUp \<Longrightarrow> up_evidence prev cur hostIP window"
begin

lemma not_up_is_down: "evaluate prev cur hostIP \<noteq> StateUp \<Longrightarrow> evaluate prev cur hostIP = StateDown"
  using verdict [of prev cur hostIP] by blast

lemma up_has_egress: "evaluate prev cur hostIP = StateUp \<Longrightarrow> egress_ok cur hostIP"
  using evidence by (simp add: up_evidence_def)

lemma no_egress_down: "hs_EgressIP cur = [] \<Longrightarrow> evaluate prev cur hostIP = StateDown"
  using up_has_egress [of prev cur hostIP] not_up_is_down [of prev cur hostIP]
  by (auto simp: egress_ok_def)

end

lemma data_plane_evaluator:
  "d < maxDuration \<Longrightarrow> health_evaluator (Evaluate \<lparr>Freshness = d\<rparr>) d"
  by unfold_locales (auto simp: Evaluate_def DecideHealth_spec split: if_splits)

text \<open>The default window of \<open>cmd/healthd\<close>, 180 seconds.\<close>

interpretation default_eval: health_evaluator "Evaluate \<lparr>Freshness = 180 * Second\<rparr>" "180 * Second"
  by (rule data_plane_evaluator) (simp add: Second_def)

subsection \<open>Properties\<close>

text \<open>
  C12: the health verdict is "up" exactly when the freshness window is positive, the tunnel
  reports an egress address that is not the host's own, and within the window before the
  check there was either a handshake with transmitted bytes above the baseline or a
  successful request through the tunnel; otherwise it is "down". (So a probe alone is enough,
  without any handshake or advancing counter, as the comment on \<open>DecideHealth\<close> has it; the one on
  \<open>HealthEvaluator\<close> asks for both.)
\<close>

theorem DecideHealth_correct:
  assumes "freshness < maxDuration"
  shows "DecideHealth prev cur hostIP freshness =
    (if 0 < freshness \<and> hs_EgressIP cur \<noteq> [] \<and> (hostIP = [] \<or> hs_EgressIP cur \<noteq> hostIP) \<and>
        (hs_LastHandshake cur \<noteq> 0 \<and> hs_LastHandshake cur \<le> hs_CheckedAt cur
           \<and> hs_CheckedAt cur \<le> hs_LastHandshake cur + freshness \<and> unat (hs_Tx prev) < unat (hs_Tx cur)
         \<or> hs_LiveProbeAt cur \<noteq> 0 \<and> hs_LiveProbeAt cur \<le> hs_CheckedAt cur
           \<and> hs_CheckedAt cur \<le> hs_LiveProbeAt cur + freshness)
     then StateUp else StateDown)"
  unfolding DecideHealth_spec [OF assms] up_evidence_def egress_ok_def within_def by (simp add: conj_ac)

theorem DecideHealth_correct_witness:
  "DecideHealth zero_HealthSnapshot
     (zero_HealthSnapshot\<lparr>hs_EgressIP := ''10.8.0.9'', hs_CheckedAt := 100, hs_LastHandshake := 90, hs_Tx := 4\<rparr>)
     ''192.0.2.1'' 180 = StateUp"
  using DecideHealth_correct [of 180 zero_HealthSnapshot
     "zero_HealthSnapshot\<lparr>hs_EgressIP := ''10.8.0.9'', hs_CheckedAt := 100, hs_LastHandshake := 90, hs_Tx := 4\<rparr>"
     "''192.0.2.1''"]
  by (simp add: zero_HealthSnapshot_def)

text \<open>
  A liveness probe succeeds only on a 2xx response whose first 4096 bytes are not
  blank: no error status, empty body or transport failure counts as a sign of life.
\<close>

theorem Probe_success_iff:
  "Probe http p = None \<longleftrightarrow>
     (\<exists>status body. http (tp_Target p) = Response status body \<and> 200 \<le> status \<and> status < 300
        \<and> TrimSpace (take 4096 body) \<noteq> [])"
  by (rule Probe_None_iff)

end
