(* ===== verification/Redis_Bus.thy ===== *)
theory Redis_Bus
  imports Vpn_Health
begin

text \<open>
  \<open>control-plane/internal/redis\<close>: the status-bus values (\<open>redis.go\<close>) and the
  go-redis client (\<open>client.go\<close>). The Redis server and the go-redis package are the
  parameter \<open>srv\<close>, a record of the three commands the client issues; what the client
  relies on is the locale \<open>redis_server\<close>. The clock is the argument \<open>now\<close> of each
  operation.
\<close>

subsection \<open>Definitions\<close>

subsubsection \<open>redis.go\<close>

record Route =
  rt_Target :: string
  rt_Tunnel :: string
  rt_Tier :: int
  rt_BreakerState :: string

record Event =
  ev_ProfileID :: string
  ev_State :: vpn_State

subsubsection \<open>The server\<close>

datatype get_reply = GetNil | GetErr go_error | GetBytes string

record 'r redis =
  rd_Get :: "'r \<Rightarrow> time \<Rightarrow> string \<Rightarrow> get_reply"
  rd_Set :: "'r \<Rightarrow> time \<Rightarrow> string \<Rightarrow> string \<Rightarrow> Duration \<Rightarrow> go_error option \<times> 'r"
  rd_Publish :: "'r \<Rightarrow> time \<Rightarrow> string \<Rightarrow> string \<Rightarrow> go_error option \<times> 'r"

subsubsection \<open>client.go\<close>

definition statusKeyPrefix :: string where "statusKeyPrefix = ''vpn:status:''"
definition routeKeyPrefix :: string where "routeKeyPrefix = ''route:''"
definition eventsChannel :: string where "eventsChannel = ''vpn:events''"

definition ErrRouteNotFound :: go_error where
  "ErrRouteNotFound = Sentinel ''redis: route not found''"

definition StatusKey :: "string \<Rightarrow> string" where
  "StatusKey profile = statusKeyPrefix @ profile"

definition RouteKey :: "string \<Rightarrow> string" where
  "RouteKey target = routeKeyPrefix @ target"

record Client =
  maxAge :: Duration

definition NewClient :: "Duration \<Rightarrow> Client" where
  "NewClient age = \<lparr>maxAge = age\<rparr>"

text \<open>\<open>Open\<close>, given how the PING it sends ends.\<close>

definition redis_Open :: "go_error option \<Rightarrow> Duration \<Rightarrow> Client result" where
  "redis_Open ping age =
     (case ping of Some e \<Rightarrow> Inl (Wrap ''redis: ping: '' e) | None \<Rightarrow> Inr (NewClient age))"

text \<open>
  \<open>json.Marshal\<close> of the three value types; it fails where a time has no RFC 3339 text
  (a year outside 0 to 9999).
\<close>

definition ErrTimeRange :: go_error where
  "ErrTimeRange = Msg ''Time.MarshalJSON: year outside of range [0,9999]''"

definition time_json :: "time \<Rightarrow> json option" where
  "time_json t = map_option JStr (formatRFC3339Nano t)"

definition status_json :: "HealthSnapshot \<Rightarrow> json option" where
  "status_json s =
     Option.bind (time_json (hs_LastHandshake s)) (\<lambda>lh.
     Option.bind (time_json (hs_CheckedAt s)) (\<lambda>ca.
     Option.bind (time_json (hs_LiveProbeAt s)) (\<lambda>lp.
     Some (JObj [(''profile'', JStr (hs_Profile s)), (''state'', JStr (hs_State s)),
                 (''last_handshake'', lh), (''rx'', JNum (show_nat (unat (hs_Rx s)))),
                 (''tx'', JNum (show_nat (unat (hs_Tx s)))), (''egress_ip'', JStr (hs_EgressIP s)),
                 (''checked_at'', ca), (''live_probe_at'', lp)]))))"

definition status_fields :: "(string \<times> HealthSnapshot field_decoder) list" where
  "status_fields =
     [(''profile'', dec_string (\<lambda>v s. s\<lparr>hs_Profile := v\<rparr>)),
      (''state'', dec_string (\<lambda>v s. s\<lparr>hs_State := v\<rparr>)),
      (''last_handshake'', dec_time (\<lambda>v s. s\<lparr>hs_LastHandshake := v\<rparr>)),
      (''rx'', dec_uint64 (\<lambda>v s. s\<lparr>hs_Rx := v\<rparr>)),
      (''tx'', dec_uint64 (\<lambda>v s. s\<lparr>hs_Tx := v\<rparr>)),
      (''egress_ip'', dec_string (\<lambda>v s. s\<lparr>hs_EgressIP := v\<rparr>)),
      (''checked_at'', dec_time (\<lambda>v s. s\<lparr>hs_CheckedAt := v\<rparr>)),
      (''live_probe_at'', dec_time (\<lambda>v s. s\<lparr>hs_LiveProbeAt := v\<rparr>))]"

definition marshal_status :: "HealthSnapshot \<Rightarrow> string option" where
  "marshal_status s = map_option print_json (status_json s)"

definition unmarshal_status :: "string \<Rightarrow> HealthSnapshot option" where
  "unmarshal_status raw =
     Option.bind (parse_json raw) (fill_struct False status_fields zero_HealthSnapshot)"

definition marshal_route :: "Route \<Rightarrow> string" where
  "marshal_route r =
     print_json (JObj [(''target'', JStr (rt_Target r)), (''tunnel'', JStr (rt_Tunnel r)),
                       (''tier'', JNum (show_int (rt_Tier r))),
                       (''breaker_state'', JStr (rt_BreakerState r))])"

definition zero_Route :: Route where
  "zero_Route = \<lparr>rt_Target = [], rt_Tunnel = [], rt_Tier = 0, rt_BreakerState = []\<rparr>"

definition route_fields :: "(string \<times> Route field_decoder) list" where
  "route_fields =
     [(''target'', dec_string (\<lambda>v r. r\<lparr>rt_Target := v\<rparr>)),
      (''tunnel'', dec_string (\<lambda>v r. r\<lparr>rt_Tunnel := v\<rparr>)),
      (''tier'', dec_int (\<lambda>v r. r\<lparr>rt_Tier := v\<rparr>)),
      (''breaker_state'', dec_string (\<lambda>v r. r\<lparr>rt_BreakerState := v\<rparr>))]"

definition unmarshal_route :: "string \<Rightarrow> Route option" where
  "unmarshal_route raw = Option.bind (parse_json raw) (fill_struct False route_fields zero_Route)"

definition marshal_event :: "Event \<Rightarrow> string" where
  "marshal_event e =
     print_json (JObj [(''profile_id'', JStr (ev_ProfileID e)), (''state'', JStr (ev_State e))])"

definition event_fields :: "(string \<times> Event field_decoder) list" where
  "event_fields =
     [(''profile_id'', dec_string (\<lambda>v e. e\<lparr>ev_ProfileID := v\<rparr>)),
      (''state'', dec_string (\<lambda>v e. e\<lparr>ev_State := v\<rparr>))]"

definition unmarshal_event :: "string \<Rightarrow> Event option" where
  "unmarshal_event raw =
     Option.bind (parse_json raw) (fill_struct False event_fields \<lparr>ev_ProfileID = [], ev_State = []\<rparr>)"

definition down_snapshot :: "string \<Rightarrow> time \<Rightarrow> HealthSnapshot" where
  "down_snapshot profile now =
     zero_HealthSnapshot\<lparr>hs_Profile := profile, hs_State := StateDown, hs_CheckedAt := now\<rparr>"

text \<open>\<open>evaluateStatus\<close>: \<open>raw = None\<close> is the call with \<open>found = false\<close>.\<close>

definition evaluateStatus :: "string \<Rightarrow> string option \<Rightarrow> time \<Rightarrow> Duration \<Rightarrow> HealthSnapshot" where
  "evaluateStatus profile raw now age =
     (case raw of
        None \<Rightarrow> down_snapshot profile now
      | Some b \<Rightarrow>
          (case unmarshal_status b of
             None \<Rightarrow> down_snapshot profile now
           | Some snap0 \<Rightarrow>
               let snap = (if hs_Profile snap0 = [] then snap0\<lparr>hs_Profile := profile\<rparr> else snap0) in
               if hs_State snap \<noteq> StateUp then snap
               else if 0 < age \<and> age < Sub now (hs_CheckedAt snap) then snap\<lparr>hs_State := StateDown\<rparr>
               else snap))"

definition SetStatus ::
  "'r redis \<Rightarrow> 'r \<Rightarrow> time \<Rightarrow> HealthSnapshot \<Rightarrow> int \<Rightarrow> go_error option \<times> 'r" where
  "SetStatus srv r now snap ttlSeconds =
     (case marshal_status snap of
        None \<Rightarrow> (Some (Wrap ''redis: marshal status: '' ErrTimeRange), r)
      | Some b \<Rightarrow>
          let ttl = (if 0 < ttlSeconds then wrap_int64 (ttlSeconds * Second) else 0) in
          (case rd_Set srv r now (StatusKey (hs_Profile snap)) b ttl of
             (Some e, r') \<Rightarrow> (Some (Wrap ''redis: set status: '' e), r')
           | (None, r') \<Rightarrow> (None, r')))"

definition GetStatus ::
  "'r redis \<Rightarrow> Client \<Rightarrow> 'r \<Rightarrow> time \<Rightarrow> string \<Rightarrow> HealthSnapshot \<times> go_error option" where
  "GetStatus srv c r now profile =
     (case rd_Get srv r now (StatusKey profile) of
        GetNil \<Rightarrow> (evaluateStatus profile None now (maxAge c), None)
      | GetErr e \<Rightarrow> (evaluateStatus profile None now (maxAge c), Some (Wrap ''redis: get status: '' e))
      | GetBytes raw \<Rightarrow> (evaluateStatus profile (Some raw) now (maxAge c), None))"

definition SetRoute :: "'r redis \<Rightarrow> 'r \<Rightarrow> time \<Rightarrow> Route \<Rightarrow> go_error option \<times> 'r" where
  "SetRoute srv r now route =
     (case rd_Set srv r now (RouteKey (rt_Target route)) (marshal_route route) 0 of
        (Some e, r') \<Rightarrow> (Some (Wrap ''redis: set route: '' e), r')
      | (None, r') \<Rightarrow> (None, r'))"

definition GetRoute :: "'r redis \<Rightarrow> 'r \<Rightarrow> time \<Rightarrow> string \<Rightarrow> Route result" where
  "GetRoute srv r now target =
     (case rd_Get srv r now (RouteKey target) of
        GetNil \<Rightarrow> Inl ErrRouteNotFound
      | GetErr e \<Rightarrow> Inl (Wrap ''redis: get route: '' e)
      | GetBytes raw \<Rightarrow>
          (case unmarshal_route raw of
             None \<Rightarrow> Inl (Wrap ''redis: unmarshal route: '' (Msg ''json''))
           | Some route \<Rightarrow> Inr route))"

definition PublishEvent :: "'r redis \<Rightarrow> 'r \<Rightarrow> time \<Rightarrow> Event \<Rightarrow> go_error option \<times> 'r" where
  "PublishEvent srv r now e =
     (case rd_Publish srv r now eventsChannel (marshal_event e) of
        (Some er, r') \<Rightarrow> (Some (Wrap ''redis: publish event: '' er), r')
      | (None, r') \<Rightarrow> (None, r'))"

text \<open>
  \<open>SubscribeEvents\<close> after the subscription is confirmed: the payloads the channel
  delivers until it closes or the context ends, decoded, undecodable ones skipped.
\<close>

definition SubscribeEvents :: "string list \<Rightarrow> Event list" where
  "SubscribeEvents payloads = List.map_filter unmarshal_event payloads"

subsection \<open>Round trips of the stored values\<close>

definition snapshot_ok :: "HealthSnapshot \<Rightarrow> bool" where
  "snapshot_ok s \<longleftrightarrow> valid_utf8 (hs_Profile s) \<and> valid_utf8 (hs_State s) \<and> valid_utf8 (hs_EgressIP s)"

definition route_ok :: "Route \<Rightarrow> bool" where
  "route_ok r \<longleftrightarrow> valid_utf8 (rt_Target r) \<and> valid_utf8 (rt_Tunnel r) \<and> valid_utf8 (rt_BreakerState r)
     \<and> - (2 ^ 63) \<le> rt_Tier r \<and> rt_Tier r < 2 ^ 63"

lemma ParseInt_show_int:
  assumes "- (2 ^ 63) \<le> i" and "i < 2 ^ 63"
  shows "ParseInt (show_int i) = Inr i"
proof (cases "i < 0")
  case True
  then show ?thesis
    using assms show_nat_digits [of "nat (- i)"] by (simp add: show_int_def ParseInt_def Let_def)
next
  case False
  then show ?thesis using assms ParseInt_show_nat [of "nat i"] by (simp add: show_int_def)
qed

lemma valid_utf8_lit: "visible_string s \<Longrightarrow> valid_utf8 s"
  by (rule visible_utf8)

lemma formatRFC3339Nano_defined:
  "0 \<le> fst (split_days (t div 1000000000 div 86400)) \<Longrightarrow>
   fst (split_days (t div 1000000000 div 86400)) \<le> 9999 \<Longrightarrow> formatRFC3339Nano t \<noteq> None"
  by (auto simp: formatRFC3339Nano_def Let_def split: prod.split)

lemma time_json_Some:
  "time_json t = Some j \<Longrightarrow> \<exists>s. j = JStr s \<and> valid_utf8 s \<and> parseRFC3339 s = Some t"
  by (auto simp: time_json_def dest: parse_formatRFC3339Nano formatRFC3339Nano_utf8)

lemmas decoder_defs = dec_string_def dec_time_def dec_uint64_def dec_int_def

lemma unmarshal_marshal_status:
  assumes "marshal_status s = Some b" and "snapshot_ok s"
  shows "unmarshal_status b = Some s"
proof -
  from assms(1) obtain j where j: "status_json s = Some j" and b: "b = print_json j"
    by (auto simp: marshal_status_def)
  from j obtain lh ca lp where t: "time_json (hs_LastHandshake s) = Some lh"
      "time_json (hs_CheckedAt s) = Some ca" "time_json (hs_LiveProbeAt s) = Some lp"
    and jj: "j = JObj [(''profile'', JStr (hs_Profile s)), (''state'', JStr (hs_State s)),
                 (''last_handshake'', lh), (''rx'', JNum (show_nat (unat (hs_Rx s)))),
                 (''tx'', JNum (show_nat (unat (hs_Tx s)))), (''egress_ip'', JStr (hs_EgressIP s)),
                 (''checked_at'', ca), (''live_probe_at'', lp)]"
    by (auto simp: status_json_def bind_eq_Some_conv)
  from t [THEN time_json_Some] obtain s1 s2 s3 where
    lh: "lh = JStr s1" "valid_utf8 s1" "parseRFC3339 s1 = Some (hs_LastHandshake s)" and
    ca: "ca = JStr s2" "valid_utf8 s2" "parseRFC3339 s2 = Some (hs_CheckedAt s)" and
    lp: "lp = JStr s3" "valid_utf8 s3" "parseRFC3339 s3 = Some (hs_LiveProbeAt s)" by blast
  have "wf_json j"
    using assms(2) lh ca lp by (simp add: jj snapshot_ok_def valid_utf8_lit visible_def del: wf_json.simps(3))
  then have "parse_json b = Some j" unfolding b by (rule parse_print)
  then show ?thesis
    using lh ca lp
    by (simp add: unmarshal_status_def jj fill_struct_def find_field_def status_fields_def
        decoder_defs zero_HealthSnapshot_def)
qed

lemma unmarshal_marshal_route:
  assumes "route_ok r"
  shows "unmarshal_route (marshal_route r) = Some r"
proof -
  let ?j = "JObj [(''target'', JStr (rt_Target r)), (''tunnel'', JStr (rt_Tunnel r)),
                  (''tier'', JNum (show_int (rt_Tier r))), (''breaker_state'', JStr (rt_BreakerState r))]"
  have "wf_json ?j"
    using assms by (simp add: route_ok_def valid_utf8_lit visible_def del: wf_json.simps(3))
  then have "parse_json (marshal_route r) = Some ?j" unfolding marshal_route_def by (rule parse_print)
  then show ?thesis
    using assms ParseInt_show_int
    by (simp add: unmarshal_route_def fill_struct_def find_field_def route_fields_def route_ok_def
        decoder_defs zero_Route_def)
qed

lemma unmarshal_marshal_event:
  assumes "valid_utf8 (ev_ProfileID e)" and "valid_utf8 (ev_State e)"
  shows "unmarshal_event (marshal_event e) = Some e"
proof -
  let ?j = "JObj [(''profile_id'', JStr (ev_ProfileID e)), (''state'', JStr (ev_State e))]"
  have "wf_json ?j" using assms by (simp add: valid_utf8_lit visible_def)
  then have "parse_json (marshal_event e) = Some ?j" unfolding marshal_event_def by (rule parse_print)
  then show ?thesis
    by (simp add: unmarshal_event_def fill_struct_def find_field_def event_fields_def decoder_defs)
qed

lemma SubscribeEvents_delivers:
  assumes "\<And>e. e \<in> set es \<Longrightarrow> valid_utf8 (ev_ProfileID e) \<and> valid_utf8 (ev_State e)"
  shows "SubscribeEvents (map marshal_event es) = es"
  using assms
  by (induction es) (simp_all add: SubscribeEvents_def map_filter_simps unmarshal_marshal_event)

subsection \<open>evaluateStatus fails closed\<close>

lemma evaluateStatus_up_iff:
  "hs_State (evaluateStatus profile raw now age) = StateUp \<longleftrightarrow>
     (\<exists>b snap. raw = Some b \<and> unmarshal_status b = Some snap \<and> hs_State snap = StateUp
        \<and> \<not> (0 < age \<and> age < Sub now (hs_CheckedAt snap)))"
  by (auto simp: evaluateStatus_def down_snapshot_def Let_def split: option.splits)

lemma evaluateStatus_up_eq:
  assumes "hs_State (evaluateStatus profile raw now age) = StateUp"
  obtains b snap where "raw = Some b" "unmarshal_status b = Some snap"
    "evaluateStatus profile raw now age
       = (if hs_Profile snap = [] then snap\<lparr>hs_Profile := profile\<rparr> else snap)"
    "hs_State snap = StateUp" "\<not> (0 < age \<and> age < Sub now (hs_CheckedAt snap))"
  using assms
  by (auto simp: evaluateStatus_def down_snapshot_def Let_def split: option.splits if_splits)

lemma GetStatus_error_down:
  "snd (GetStatus srv c r now p) \<noteq> None \<Longrightarrow> hs_State (fst (GetStatus srv c r now p)) = StateDown"
  by (auto simp: GetStatus_def evaluateStatus_def down_snapshot_def split: get_reply.splits)

subsection \<open>The keys do not collide\<close>

lemma StatusKey_inj [simp]: "StatusKey p = StatusKey q \<longleftrightarrow> p = q"
  by (simp add: StatusKey_def)

lemma RouteKey_inj [simp]: "RouteKey p = RouteKey q \<longleftrightarrow> p = q"
  by (simp add: RouteKey_def)

lemma StatusKey_RouteKey [simp]: "StatusKey p \<noteq> RouteKey t" "RouteKey t \<noteq> StatusKey p"
  by (simp_all add: StatusKey_def RouteKey_def statusKeyPrefix_def routeKeyPrefix_def)

subsection \<open>What the client relies on\<close>

text \<open>
  The documented behaviour of SET with an expiry and of GET, over the server's stored
  entries \<open>view\<close>: a value that is returned is stored and not expired, a nil reply means
  there is none, a successful SET replaces the entry, a failed one replaces it or leaves
  it (the reply may have been lost), and PUBLISH stores nothing.
\<close>

type_synonym entry = "string \<times> time option"

definition live :: "entry option \<Rightarrow> time \<Rightarrow> string option" where
  "live e now = (case e of None \<Rightarrow> None
     | Some (v, x) \<Rightarrow> (case x of None \<Rightarrow> Some v | Some t \<Rightarrow> if now < t then Some v else None))"

definition entry_for :: "string \<Rightarrow> time \<Rightarrow> Duration \<Rightarrow> entry" where
  "entry_for v now ttl = (v, if ttl \<le> 0 then None else Some (now + ttl))"

locale redis_server =
  fixes srv :: "'r redis" and view :: "'r \<Rightarrow> string \<Rightarrow> entry option"
  assumes get_value: "rd_Get srv r now k = GetBytes v \<Longrightarrow> live (view r k) now = Some v"
    and get_nil: "rd_Get srv r now k = GetNil \<Longrightarrow> live (view r k) now = None"
    and set_ok: "rd_Set srv r now k v ttl = (None, r') \<Longrightarrow>
      view r' = (view r)(k \<mapsto> entry_for v now ttl)"
    and set_failed: "rd_Set srv r now k v ttl = (Some e, r') \<Longrightarrow>
      view r' = view r \<or> view r' = (view r)(k \<mapsto> entry_for v now ttl)"
    and publish: "rd_Publish srv r now ch m = (x, r') \<Longrightarrow> view r' = view r"
begin

lemma set_cases:
  "rd_Set srv r now k v ttl = (x, r') \<Longrightarrow>
     view r' = view r \<or> view r' = (view r)(k \<mapsto> entry_for v now ttl)"
  using set_ok set_failed by (cases x) blast+

lemma SetStatus_view:
  "SetStatus srv r now snap ttl = (x, r') \<Longrightarrow>
     view r' = view r \<or>
     (\<exists>b. marshal_status snap = Some b \<and> view r' = (view r)(StatusKey (hs_Profile snap) \<mapsto>
        entry_for b now (if 0 < ttl then wrap_int64 (ttl * Second) else 0)))"
  using set_cases
  by (fastforce simp: SetStatus_def Let_def split: option.splits prod.splits)

lemma SetStatus_ok_view:
  "SetStatus srv r now snap ttl = (None, r') \<Longrightarrow>
     \<exists>b. marshal_status snap = Some b \<and> view r' = (view r)(StatusKey (hs_Profile snap) \<mapsto>
        entry_for b now (if 0 < ttl then wrap_int64 (ttl * Second) else 0))"
  using set_ok by (fastforce simp: SetStatus_def Let_def split: option.splits prod.splits)

lemma SetRoute_view:
  "SetRoute srv r now route = (x, r') \<Longrightarrow>
     view r' = view r \<or> view r' = (view r)(RouteKey (rt_Target route) \<mapsto> (marshal_route route, None))"
  using set_cases [of r now "RouteKey (rt_Target route)" "marshal_route route" 0]
  by (fastforce simp: SetRoute_def entry_for_def split: option.splits prod.splits)

lemma SetRoute_ok_view:
  "SetRoute srv r now route = (None, r') \<Longrightarrow>
     view r' = (view r)(RouteKey (rt_Target route) \<mapsto> (marshal_route route, None))"
  using set_ok [of r now "RouteKey (rt_Target route)" "marshal_route route" 0]
  by (fastforce simp: SetRoute_def entry_for_def split: option.splits prod.splits)

lemma PublishEvent_view: "PublishEvent srv r now e = (x, r') \<Longrightarrow> view r' = view r"
  using publish by (fastforce simp: PublishEvent_def split: option.splits prod.splits)

lemma GetStatus_up:
  assumes "hs_State (fst (GetStatus srv c r now p)) = StateUp"
  obtains b snap where "live (view r (StatusKey p)) now = Some b" "unmarshal_status b = Some snap"
    "hs_State snap = StateUp" "\<not> (0 < maxAge c \<and> maxAge c < Sub now (hs_CheckedAt snap))"
    "snd (GetStatus srv c r now p) = None"
proof (cases "rd_Get srv r now (StatusKey p)")
  case (GetBytes raw)
  then have "hs_State (evaluateStatus p (Some raw) now (maxAge c)) = StateUp"
    using assms by (simp add: GetStatus_def)
  then show ?thesis
    using that get_value [OF GetBytes] GetBytes by (auto simp: evaluateStatus_up_iff GetStatus_def)
qed (use assms in \<open>auto simp: GetStatus_def evaluateStatus_def down_snapshot_def\<close>)

lemma GetRoute_Inr:
  "GetRoute srv r now h = Inr route \<Longrightarrow>
     \<exists>b. live (view r (RouteKey h)) now = Some b \<and> unmarshal_route b = Some route"
  using get_value by (fastforce simp: GetRoute_def split: get_reply.splits option.splits)

text \<open>Reading a route back: what was written, or an error of the transport.\<close>

lemma GetRoute_SetRoute:
  assumes "SetRoute srv r now route = (None, r')" and "route_ok route"
  shows "GetRoute srv r' t (rt_Target route) = Inr route \<or>
    (\<exists>e. rd_Get srv r' t (RouteKey (rt_Target route)) = GetErr e)"
proof (cases "rd_Get srv r' t (RouteKey (rt_Target route))")
  case GetNil
  then show ?thesis
    using get_nil [OF GetNil] SetRoute_ok_view [OF assms(1)] by (simp add: live_def)
next
  case (GetBytes v)
  then have "v = marshal_route route"
    using get_value [OF GetBytes] SetRoute_ok_view [OF assms(1)] by (simp add: live_def)
  then show ?thesis
    using GetBytes unmarshal_marshal_route [OF assms(2)] by (simp add: GetRoute_def)
qed blast

end

subsection \<open>An in-memory server\<close>

text \<open>
  The server the laws describe: a map of entries with their expiry, the log of published
  messages, and a switch that makes every command fail.
\<close>

record mem_state =
  ms_down :: bool
  ms_data :: "string \<Rightarrow> entry option"
  ms_published :: "(string \<times> string) list"

definition mem_get :: "mem_state \<Rightarrow> time \<Rightarrow> string \<Rightarrow> get_reply" where
  "mem_get m now k =
     (if ms_down m then GetErr (Msg ''connection refused'')
      else case live (ms_data m k) now of None \<Rightarrow> GetNil | Some v \<Rightarrow> GetBytes v)"

definition mem_set ::
  "mem_state \<Rightarrow> time \<Rightarrow> string \<Rightarrow> string \<Rightarrow> Duration \<Rightarrow> go_error option \<times> mem_state" where
  "mem_set m now k v ttl =
     (if ms_down m then (Some (Msg ''connection refused''), m)
      else (None, m\<lparr>ms_data := (ms_data m)(k \<mapsto> entry_for v now ttl)\<rparr>))"

definition mem_publish ::
  "mem_state \<Rightarrow> time \<Rightarrow> string \<Rightarrow> string \<Rightarrow> go_error option \<times> mem_state" where
  "mem_publish m now ch v =
     (if ms_down m then (Some (Msg ''connection refused''), m)
      else (None, m\<lparr>ms_published := ms_published m @ [(ch, v)]\<rparr>))"

definition mem_redis :: "mem_state redis" where
  "mem_redis = \<lparr>rd_Get = mem_get, rd_Set = mem_set, rd_Publish = mem_publish\<rparr>"

definition mem_empty :: mem_state where
  "mem_empty = \<lparr>ms_down = False, ms_data = Map.empty, ms_published = []\<rparr>"

lemma mem_redis_sel [simp]:
  "rd_Get mem_redis = mem_get" "rd_Set mem_redis = mem_set" "rd_Publish mem_redis = mem_publish"
  by (simp_all add: mem_redis_def)

interpretation mem: redis_server mem_redis ms_data
  by unfold_locales
    (auto simp: mem_get_def mem_set_def mem_publish_def split: if_splits option.splits)

subsection \<open>Properties\<close>

text \<open>
  C13: reading a status is fail-closed: the answer is "up" exactly when the key is present,
  its bytes decode to a snapshot that says "up", and with a positive maximum age the
  snapshot is not older than that; a miss, a transport error, undecodable bytes and a stale
  snapshot all read as not up.
\<close>

theorem GetStatus_up_iff:
  "hs_State (fst (GetStatus srv c r now p)) = StateUp \<longleftrightarrow>
     (\<exists>b snap. rd_Get srv r now (StatusKey p) = GetBytes b \<and> unmarshal_status b = Some snap
        \<and> hs_State snap = StateUp \<and> \<not> (0 < maxAge c \<and> maxAge c < Sub now (hs_CheckedAt snap)))"
  by (cases "rd_Get srv r now (StatusKey p)") (auto simp: GetStatus_def evaluateStatus_up_iff)

text \<open>A TTL in seconds as the duration it is sent as.\<close>

lemma ttl_wraps:
  "0 < ttl \<Longrightarrow> ttl < 9223372037 \<Longrightarrow> wrap_int64 (ttl * Second) = ttl * Second"
  "9223372037 \<le> ttl \<Longrightarrow> ttl \<le> 18446744073 \<Longrightarrow> wrap_int64 (ttl * Second) \<le> 0"
  "ttl = 18446744074 \<Longrightarrow> wrap_int64 (ttl * Second) = 290448384"
proof -
  assume "0 < ttl" "ttl < 9223372037"
  then show "wrap_int64 (ttl * Second) = ttl * Second" by (simp add: wrap_int64_def Second_def)
next
  assume "9223372037 \<le> ttl" "ttl \<le> 18446744073"
  then have "(ttl * Second + 2 ^ 63) mod 2 ^ 64 = ttl * Second + 2 ^ 63 - 2 ^ 64"
    by (subst mod_pos_geq) (simp_all add: Second_def)
  then show "wrap_int64 (ttl * Second) \<le> 0" using \<open>ttl \<le> 18446744073\<close> by (simp add: wrap_int64_def Second_def)
qed (simp add: wrap_int64_def Second_def)

text \<open>
  C14: on a server that keeps what SET stores until its expiry, a snapshot written reads back
  unchanged while it is fresh, reads back as "down" once it is older than the maximum age, and
  is gone at the end of its expiry: unless the transport fails, in which case the answer is
  "down" with the error. The expiry is the TTL in nanoseconds wrapped to 64 bits: the TTL itself
  below 9223372037 seconds; from there up to 18446744073 seconds a number that is not positive,
  with which the key has no expiry at all; and at 18446744074 seconds less than a third of a
  second.
\<close>

theorem SetStatus_GetStatus:
  assumes "redis_server srv view" and "SetStatus srv r now snap ttl = (None, r')" and "snapshot_ok snap"
    and "hs_Profile snap \<noteq> []" and "expiry = (if 0 < ttl then wrap_int64 (ttl * Second) else 0)"
  shows "(GetStatus srv c r' t (hs_Profile snap) =
      (if 0 < expiry \<and> now + expiry \<le> t then (down_snapshot (hs_Profile snap) t, None)
       else if hs_State snap = StateUp \<and> 0 < maxAge c \<and> maxAge c < Sub t (hs_CheckedAt snap)
         then (snap\<lparr>hs_State := StateDown\<rparr>, None)
       else (snap, None))
    \<or> (\<exists>e. rd_Get srv r' t (StatusKey (hs_Profile snap)) = GetErr e \<and>
        GetStatus srv c r' t (hs_Profile snap) =
          (down_snapshot (hs_Profile snap) t, Some (Wrap ''redis: get status: '' e))))
    \<and> (0 < ttl \<and> ttl < 9223372037 \<longrightarrow> expiry = ttl * Second)
    \<and> (9223372037 \<le> ttl \<and> ttl \<le> 18446744073 \<longrightarrow> expiry \<le> 0)
    \<and> (ttl = 18446744074 \<longrightarrow> expiry = 290448384)"
proof -
  let ?k = "StatusKey (hs_Profile snap)"
  from redis_server.SetStatus_ok_view [OF assms(1,2)] obtain b where b: "marshal_status snap = Some b"
    and v: "view r' ?k = Some (entry_for b now expiry)" unfolding assms(5) by auto
  have live: "live (view r' ?k) t = (if 0 < expiry \<and> now + expiry \<le> t then None else Some b)"
    by (auto simp: v live_def entry_for_def)
  have "GetStatus srv c r' t (hs_Profile snap) =
      (if 0 < expiry \<and> now + expiry \<le> t then (down_snapshot (hs_Profile snap) t, None)
       else if hs_State snap = StateUp \<and> 0 < maxAge c \<and> maxAge c < Sub t (hs_CheckedAt snap)
         then (snap\<lparr>hs_State := StateDown\<rparr>, None)
       else (snap, None))
    \<or> (\<exists>e. rd_Get srv r' t ?k = GetErr e \<and> GetStatus srv c r' t (hs_Profile snap) =
          (down_snapshot (hs_Profile snap) t, Some (Wrap ''redis: get status: '' e)))"
  proof (cases "rd_Get srv r' t ?k")
    case GetNil
    then show ?thesis
      using redis_server.get_nil [OF assms(1) GetNil] live
      by (auto simp: GetStatus_def evaluateStatus_def split: if_splits)
  next
    case (GetErr e)
    then show ?thesis by (simp add: GetStatus_def evaluateStatus_def)
  next
    case (GetBytes x)
    then have "x = b" "\<not> (0 < expiry \<and> now + expiry \<le> t)"
      using redis_server.get_value [OF assms(1) GetBytes] live by (auto split: if_splits)
    then show ?thesis
      using GetBytes unmarshal_marshal_status [OF b assms(3)] assms(4)
      by (auto simp: GetStatus_def evaluateStatus_def Let_def)
  qed
  then show ?thesis using ttl_wraps [of ttl] unfolding assms(5) by auto
qed

definition up_snapshot :: HealthSnapshot where
  "up_snapshot = \<lparr>hs_Profile = ''eu'', hs_State = StateUp, hs_LastHandshake = 0, hs_Rx = 0, hs_Tx = 0,
     hs_EgressIP = ''10.8.0.9'', hs_CheckedAt = 0, hs_LiveProbeAt = 0\<rparr>"

lemma up_snapshot_stored:
  "\<exists>b. marshal_status up_snapshot = Some b \<and>
     SetStatus mem_redis mem_empty 5 up_snapshot 15
       = (None, mem_empty\<lparr>ms_data := [StatusKey ''eu'' \<mapsto> entry_for b 5 (15 * Second)]\<rparr>)"
proof -
  have "formatRFC3339Nano 0 \<noteq> None"
    by (rule formatRFC3339Nano_defined) (simp_all add: split_days_def)
  then obtain b where "marshal_status up_snapshot = Some b"
    by (auto simp: marshal_status_def status_json_def time_json_def up_snapshot_def)
  moreover have "wrap_int64 (15 * Second) = 15 * Second" by (simp add: wrap_int64_def Second_def)
  ultimately show ?thesis
    by (simp add: SetStatus_def mem_set_def mem_empty_def up_snapshot_def)
qed

theorem SetStatus_GetStatus_witness:
  "\<exists>r'. SetStatus mem_redis mem_empty 5 up_snapshot 15 = (None, r') \<and>
    (GetStatus mem_redis \<lparr>maxAge = 0\<rparr> r' 6 ''eu'' = (up_snapshot, None) \<or>
     (\<exists>e. rd_Get mem_redis r' 6 (StatusKey ''eu'') = GetErr e))"
proof -
  obtain r' where s: "SetStatus mem_redis mem_empty 5 up_snapshot 15 = (None, r')"
    using up_snapshot_stored by blast
  have "snapshot_ok up_snapshot"
    by (simp add: snapshot_ok_def up_snapshot_def StateUp_def visible_utf8 visible_def)
  from SetStatus_GetStatus [OF mem.redis_server_axioms s this, of "15 * Second" "\<lparr>maxAge = 0\<rparr>" 6] s show ?thesis
    by (auto simp: up_snapshot_def Second_def wrap_int64_def)
qed

text \<open>
  A route written to the bus reads back exactly as written at any later time, since
  routes carry no expiry, unless the transport fails.
\<close>

theorem SetRoute_GetRoute:
  assumes "redis_server srv view" and "SetRoute srv r now route = (None, r')" and "route_ok route"
  shows "GetRoute srv r' t (rt_Target route) = Inr route
    \<or> (\<exists>e. GetRoute srv r' t (rt_Target route) = Inl (Wrap ''redis: get route: '' e))"
  using redis_server.GetRoute_SetRoute [OF assms, of t] by (auto simp: GetRoute_def)

definition one_route :: Route where
  "one_route = \<lparr>rt_Target = ''wiki.helix'', rt_Tunnel = ''eu'', rt_Tier = 1, rt_BreakerState = ''closed''\<rparr>"

theorem SetRoute_GetRoute_witness:
  "let r' = mem_empty\<lparr>ms_data := [RouteKey ''wiki.helix'' \<mapsto> (marshal_route one_route, None)]\<rparr>
   in GetRoute mem_redis r' 7 ''wiki.helix'' = Inr one_route
    \<or> (\<exists>e. GetRoute mem_redis r' 7 ''wiki.helix'' = Inl (Wrap ''redis: get route: '' e))"
proof -
  let ?r' = "mem_empty\<lparr>ms_data := [RouteKey ''wiki.helix'' \<mapsto> (marshal_route one_route, None)]\<rparr>"
  have "SetRoute mem_redis mem_empty 5 one_route = (None, ?r')"
    by (simp add: SetRoute_def mem_set_def mem_empty_def entry_for_def one_route_def)
  moreover have "route_ok one_route" by (simp add: route_ok_def one_route_def visible_utf8 visible_def)
  ultimately show ?thesis
    using SetRoute_GetRoute [OF mem.redis_server_axioms, of mem_empty 5 one_route ?r' 7]
    by (simp add: one_route_def)
qed

text \<open>
  What subscribers receive is what publishers sent: every event with text fields in
  UTF-8 survives the channel, and foreign payloads are dropped.
\<close>

theorem SubscribeEvents_after_publish:
  assumes "\<forall>e \<in> set es. valid_utf8 (ev_ProfileID e) \<and> valid_utf8 (ev_State e)"
    and "\<forall>x \<in> set junk. unmarshal_event x = None"
  shows "SubscribeEvents (map marshal_event es @ junk) = es"
proof -
  have "SubscribeEvents junk = []"
    using assms(2) by (induction junk) (simp_all add: SubscribeEvents_def map_filter_simps)
  moreover have "SubscribeEvents (xs @ ys) = SubscribeEvents xs @ SubscribeEvents ys" for xs ys
    by (induction xs) (simp_all add: SubscribeEvents_def map_filter_simps split: option.split)
  ultimately show ?thesis using SubscribeEvents_delivers [of es] assms(1) by simp
qed

theorem SubscribeEvents_after_publish_witness:
  "SubscribeEvents (map marshal_event [\<lparr>ev_ProfileID = ''eu'', ev_State = StateUp\<rparr>] @ [[]])
     = [\<lparr>ev_ProfileID = ''eu'', ev_State = StateUp\<rparr>]"
proof (rule SubscribeEvents_after_publish)
  show "\<forall>x \<in> set [[]]. unmarshal_event x = None"
    by (simp add: unmarshal_event_def parse_json_def skip_ws_def)
qed (simp add: StateUp_def visible_utf8 visible_def)

end
