(* ===== verification/Go_Float.thy ===== *)
theory Go_Float
  imports Go_Strings
begin

text \<open>
  Go's \<open>float64\<close> as far as the program needs it: non-negative values, written \<open>(m, e)\<close>
  for \<open>m * 2 ^ e\<close>, the correctly rounded value of a ratio (round half to even, 53 bits,
  subnormals included), the reading of a decimal literal by \<open>strconv.ParseFloat\<close>, and the
  conversion to an integer.
\<close>

subsection \<open>Definitions\<close>

type_synonym float64 = "nat \<times> int"

fun bit_length :: "nat \<Rightarrow> nat" where
  "bit_length n = (if n = 0 then 0 else Suc (bit_length (n div 2)))"

declare bit_length.simps [simp del]

definition half_even :: "nat \<Rightarrow> nat \<Rightarrow> nat" where
  "half_even n d =
     (let q = n div d; r = n mod d in if 2 * r < d \<or> 2 * r = d \<and> even q then q else q + 1)"

text \<open>\<open>n / d * 2 ^ - e\<close> as a ratio of naturals.\<close>

definition scale2 :: "nat \<Rightarrow> nat \<Rightarrow> int \<Rightarrow> nat \<times> nat" where
  "scale2 n d e = (if 0 \<le> e then (n, d * 2 ^ nat e) else (n * 2 ^ nat (- e), d))"

text \<open>The exponent of the last of 53 bits of \<open>n / d\<close>, no less than that of the subnormals.\<close>

definition float_exp :: "nat \<Rightarrow> nat \<Rightarrow> int" where
  "float_exp n d =
     (let k = int (bit_length n) - int (bit_length d);
          up = (case scale2 n d k of (a, b) \<Rightarrow> b \<le> a)
      in max (if up then k - 52 else k - 53) (- 1074))"

definition round_at :: "nat \<Rightarrow> nat \<Rightarrow> int \<Rightarrow> float64 option" where
  "round_at n d e =
     (let m = (case scale2 n d e of (a, b) \<Rightarrow> half_even a b)
      in if 971 < e \<or> e = 971 \<and> 2 ^ 53 \<le> m then None else Some (m, e))"

text \<open>The nearest \<open>float64\<close> to \<open>n / d\<close>; \<open>None\<close> when it overflows to infinity.\<close>

definition round_ratio :: "nat \<Rightarrow> nat \<Rightarrow> float64 option" where
  "round_ratio n d = (if n = 0 then Some (0, 0) else round_at n d (float_exp n d))"

definition float_trunc :: "float64 \<Rightarrow> nat" where
  "float_trunc x = (if 0 \<le> snd x then fst x * 2 ^ nat (snd x) else fst x div 2 ^ nat (- snd x))"

text \<open>
  \<open>int(v)\<close> of a non-negative float on amd64: truncation, and the least integer when the
  value does not fit.
\<close>

definition float_int :: "float64 \<Rightarrow> int" where
  "float_int x = (let t = float_trunc x in if t < 2 ^ 63 then int t else - (2 ^ 63))"

text \<open>
  A JSON number as sign, digits and power of ten, and its reading by \<open>strconv.ParseFloat\<close>:
  the sign and the nearest float of the magnitude, \<open>None\<close> when it is out of range.
\<close>

definition exp_part :: "string \<Rightarrow> int" where
  "exp_part s =
     (case s of
        c # u \<Rightarrow> (case u of
            x # ds \<Rightarrow> if x = CHR ''-'' then - int (dec_val ds)
                       else if x = CHR ''+'' then int (dec_val ds) else int (dec_val u)
          | [] \<Rightarrow> 0)
      | [] \<Rightarrow> 0)"

definition frac_split :: "string \<Rightarrow> string \<times> string" where
  "frac_split s =
     (case s of
        c # u \<Rightarrow> if c = CHR ''.'' then (takeWhile is_digit u, dropWhile is_digit u) else ([], s)
      | [] \<Rightarrow> ([], []))"

definition decimal :: "string \<Rightarrow> nat \<times> int" where
  "decimal t =
     (case frac_split (dropWhile is_digit t) of
        (fp, r) \<Rightarrow> (dec_val (takeWhile is_digit t @ fp), exp_part r - int (length fp)))"

definition ParseFloat :: "string \<Rightarrow> (bool \<times> float64) option" where
  "ParseFloat s =
     (let neg = (s \<noteq> [] \<and> hd s = CHR ''-'') in
      case decimal (if neg then tl s else s) of
        (n, p) \<Rightarrow> map_option (\<lambda>f. (neg, f))
          (if 0 \<le> p then round_ratio (n * 10 ^ nat p) 1 else round_ratio n (10 ^ nat (- p))))"

subsection \<open>Integers below 2^53 are exact\<close>

lemma bit_length_bound: "n < 2 ^ k \<Longrightarrow> bit_length n \<le> k"
proof (induction n arbitrary: k rule: bit_length.induct)
  case (1 n)
  show ?case
  proof (cases "n = 0")
    case True
    then show ?thesis by (simp add: bit_length.simps)
  next
    case False
    with "1.prems" obtain j where k: "k = Suc j" by (cases k) auto
    with "1.prems" have "n div 2 < 2 ^ j" by simp
    with "1.IH" [OF False] False k show ?thesis by (subst bit_length.simps) simp
  qed
qed

lemma half_even_one [simp]: "half_even n 1 = n" "half_even n (Suc 0) = n"
  by (simp_all add: half_even_def)

lemma bit_length_one [simp]: "bit_length (Suc 0) = 1" "bit_length 1 = 1"
  by (simp_all add: bit_length.simps)

lemma float_exp_small: "n < 2 ^ 53 \<Longrightarrow> float_exp n 1 \<le> 0"
  using bit_length_bound [of n 53] by (auto simp: float_exp_def Let_def)

lemma round_at_exact: "e \<le> 0 \<Longrightarrow> round_at n 1 e = Some (n * 2 ^ nat (- e), e)"
  by (cases "e = 0") (simp_all add: round_at_def scale2_def)

lemma round_ratio_exact:
  assumes "n < 2 ^ 53"
  shows "\<exists>x. round_ratio n 1 = Some x \<and> float_trunc x = n \<and> (0 < n \<longrightarrow> 0 < fst x)"
proof (cases "n = 0")
  case True
  then show ?thesis by (simp add: round_ratio_def float_trunc_def)
next
  case False
  then have "round_ratio n 1 = Some (n * 2 ^ nat (- float_exp n 1), float_exp n 1)"
    using round_at_exact [OF float_exp_small [OF assms]] by (simp add: round_ratio_def)
  then show ?thesis using float_exp_small [OF assms] by (simp add: float_trunc_def)
qed

lemma decimal_show_nat: "decimal (show_nat n) = (n, 0)"
proof -
  have "takeWhile is_digit (show_nat n) = show_nat n" "dropWhile is_digit (show_nat n) = []"
    using show_nat_digits [of n] by (simp_all add: takeWhile_eq_all_conv dropWhile_eq_Nil_conv list_all_iff)
  then show ?thesis unfolding decimal_def by (simp only: frac_split_def exp_part_def) simp
qed

lemma ParseFloat_show_nat:
  assumes "n < 2 ^ 53"
  shows "\<exists>x. ParseFloat (show_nat n) = Some (False, x) \<and> float_trunc x = n \<and> (0 < n \<longrightarrow> 0 < fst x)"
proof -
  have "hd (show_nat n) \<noteq> CHR ''-''"
    using show_nat_digits [of n] by (cases "show_nat n") (auto simp: is_digit_def)
  then show ?thesis
    using round_ratio_exact [OF assms] by (auto simp: ParseFloat_def Let_def decimal_show_nat)
qed

end
