(* ===== verification/Go_Template.thy ===== *)
theory Go_Template
  imports Go_Json
begin

text \<open>
  What the renderers of generated files share: text as a list of lines, the UTF-8 bytes of
  the four non-ASCII characters their comments use, and the delimiting of a quoted literal:
  whatever string \<open>%q\<close> is given, the literal it prints ends where the reader of the
  generated file expects it to end, on the same line.
\<close>

subsection \<open>Definitions\<close>

definition unlines :: "string list \<Rightarrow> string" where
  "unlines ls = concat (map (\<lambda>l. l @ [LF]) ls)"

definition em_dash :: string where "em_dash = [CHR 0xE2, CHR 0x80, CHR 0x94]"
definition section_sign :: string where "section_sign = [CHR 0xC2, CHR 0xA7]"
definition right_arrow :: string where "right_arrow = [CHR 0xE2, CHR 0x86, CHR 0x92]"
definition circled_five :: string where "circled_five = [CHR 0xE2, CHR 0x91, CHR 0xA4]"

text \<open>
  Reading a literal after its opening quote: the body up to the next quote that no
  backslash precedes, and the rest. A newline inside is an error, as in JavaScript.
\<close>

fun scan_literal :: "string \<Rightarrow> (string \<times> string) option" where
  "scan_literal [] = None"
| "scan_literal (c # s) =
     (if c = CHR 0x22 then Some ([], s)
      else if c = LF then None
      else if c = CHR 0x5C then
        (case s of
           [] \<Rightarrow> None
         | d # t \<Rightarrow> if d = LF then None else map_option (\<lambda>(b, r). (c # d # b, r)) (scan_literal t))
      else map_option (\<lambda>(b, r). (c # b, r)) (scan_literal s))"

definition quote_body :: "(nat \<Rightarrow> bool) \<Rightarrow> string \<Rightarrow> string" where
  "quote_body wide s = concat (map (escape_rune wide) (runes s))"

subsection \<open>Lines\<close>

lemma unlines_append: "unlines (xs @ ys) = unlines xs @ unlines ys"
  by (simp add: unlines_def)

lemma unlines_Cons: "unlines (x # xs) = x @ LF # unlines xs"
  by (simp add: unlines_def)

lemma Split_unlines: "list_all (\<lambda>l. LF \<notin> set l) ls \<Longrightarrow> Split (unlines ls) LF = ls @ [[]]"
  unfolding unlines_def by (rule Split_lines) (auto simp: list_all_iff)

lemma special_no_LF [simp]:
  "LF \<notin> set em_dash" "LF \<notin> set section_sign" "LF \<notin> set right_arrow" "LF \<notin> set circled_five"
  by (simp_all add: em_dash_def section_sign_def right_arrow_def circled_five_def)

lemma show_int_visible: "visible_string (show_int i)"
  by (simp add: show_int_def visible_def)

lemma show_int_no_LF [simp]: "LF \<notin> set (show_int i)"
  using visible_string_no_control(2) [OF show_int_visible] .

subsection \<open>The bytes of a rune\<close>

lemma DecodeRune_bytes:
  assumes "0x80 \<le> byte_of c" and "d \<in> set (take (snd (DecodeRune (c # t))) (c # t))"
  shows "0x80 \<le> byte_of d"
proof (cases "valid_rune (fst (DecodeRune (c # t)), take (snd (DecodeRune (c # t))) (c # t))")
  case True
  have ne: "c # t \<noteq> []" by simp
  from ne True show ?thesis
  proof (cases rule: DecodeRune_valid_cases)
    case (one x u)
    then show ?thesis using assms by simp
  next
    case (two x y u)
    then show ?thesis using assms by (auto simp: cont_byte_def)
  next
    case (three x y z u)
    then show ?thesis using assms by (auto simp: cont_byte_def split: if_splits)
  next
    case (four x y z w u)
    then show ?thesis using assms by (auto simp: cont_byte_def split: if_splits)
  qed
next
  case False
  then have "take (snd (DecodeRune (c # t))) (c # t) = [c]"
    using DecodeRune_width [of "c # t"] by (auto simp: valid_rune_def take_Cons split: nat.splits)
  then show ?thesis using assms by simp
qed

lemma rune_shape:
  assumes "(r, bs) \<in> set (runes s)"
  shows "r < 0x80 \<and> bs = [char_of r] \<or> 0x80 \<le> r \<and> (\<forall>d \<in> set bs. 0x80 \<le> byte_of d)"
  using assms
proof (induction s rule: runes_induct)
  case (Step s)
  then obtain c t where s: "s = c # t" by (cases s) auto
  have un: "runes s = (fst (DecodeRune s), take (snd (DecodeRune s)) s) # runes (drop (snd (DecodeRune s)) s)"
    by (rule runes_unfold [OF Step.hyps])
  show ?case
  proof (cases "(r, bs) = (fst (DecodeRune s), take (snd (DecodeRune s)) s)")
    case True
    then show ?thesis
      using DecodeRune_bytes [of c _ t] DecodeRune_high [of c t]
      by (cases "byte_of c < (0x80 :: nat)") (auto simp: s DecodeRune_def)
  next
    case False
    then show ?thesis using Step un by auto
  qed
qed simp

lemma DecodeRune_bound: "fst (DecodeRune (c # t)) < 0x200000"
proof (cases "valid_rune (fst (DecodeRune (c # t)), take (snd (DecodeRune (c # t))) (c # t))")
  case True
  have ne: "c # t \<noteq> []" by simp
  from ne True show ?thesis
  proof (cases rule: DecodeRune_valid_cases)
    case (four x y z w u)
    then have "(byte_of x - 0xF0 :: nat) \<le> 4" "(byte_of y - 0x80 :: nat) \<le> 0x3F"
      "(byte_of z - 0x80 :: nat) \<le> 0x3F" "(byte_of w - 0x80 :: nat) \<le> 0x3F"
      by (auto simp: cont_byte_def split: if_splits)
    then show ?thesis using four(7) by simp
  next
    case (three x y z u)
    then have "(byte_of x - 0xE0 :: nat) \<le> 15" "(byte_of y - 0x80 :: nat) \<le> 0x3F"
      "(byte_of z - 0x80 :: nat) \<le> 0x3F"
      by (auto simp: cont_byte_def split: if_splits)
    then show ?thesis using three(6) by simp
  next
    case (two x y u)
    then have "(byte_of x - 0xC0 :: nat) \<le> 31" "(byte_of y - 0x80 :: nat) \<le> 0x3F"
      by (auto simp: cont_byte_def)
    then show ?thesis using two(5) by simp
  qed simp
next
  case False
  then show ?thesis by (simp add: valid_rune_def)
qed

lemma rune_bound: "(r, bs) \<in> set (runes s) \<Longrightarrow> r < 0x200000"
proof (induction s rule: runes_induct)
  case (Step s)
  then obtain c t where s: "s = c # t" by (cases s) auto
  have "runes s = (fst (DecodeRune s), take (snd (DecodeRune s)) s) # runes (drop (snd (DecodeRune s)) s)"
    by (rule runes_unfold [OF Step.hyps])
  with Step show ?case using DecodeRune_bound [of c t] s by auto
qed simp

subsection \<open>A quoted literal ends where it should\<close>

definition plain_char :: "char \<Rightarrow> bool" where
  "plain_char c \<longleftrightarrow> byte_of c \<noteq> (0x22 :: nat) \<and> byte_of c \<noteq> (0x0A :: nat) \<and> byte_of c \<noteq> (0x5C :: nat)"

lemma plain_charD: "plain_char c \<Longrightarrow> c \<noteq> CHR 0x22 \<and> c \<noteq> LF \<and> c \<noteq> CHR 0x5C"
  by (auto simp: plain_char_def)

definition prepend :: "string \<Rightarrow> (string \<times> string) option \<Rightarrow> (string \<times> string) option" where
  "prepend e x = map_option (\<lambda>(b, r). (e @ b, r)) x"

lemma prepend_simps [simp]:
  "prepend [] x = x" "prepend a (prepend b x) = prepend (a @ b) x" "prepend a (Some (b, r)) = Some (a @ b, r)"
  by (cases x; auto simp: prepend_def)+

lemma scan_plain: "list_all plain_char bs \<Longrightarrow> scan_literal (bs @ s) = prepend bs (scan_literal s)"
proof (induction bs)
  case (Cons c bs)
  then have "scan_literal ((c # bs) @ s) = prepend [c] (scan_literal (bs @ s))"
    using plain_charD [of c] by (simp add: prepend_def)
  with Cons show ?case by simp
qed simp

lemma scan_escaped:
  assumes "d \<noteq> LF" and "list_all plain_char bs"
  shows "scan_literal (CHR 0x5C # d # bs @ s) = prepend (CHR 0x5C # d # bs) (scan_literal s)"
proof -
  have "scan_literal (CHR 0x5C # d # bs @ s) = prepend [CHR 0x5C, d] (scan_literal (bs @ s))"
    using assms(1) by (simp add: prepend_def)
  then show ?thesis using assms(2) by (simp add: scan_plain)
qed

lemma plain_hex [simp]: "n < 16 \<Longrightarrow> plain_char (hex_digit n)"
  by (auto simp: plain_char_def hex_digit_def)

lemma plain_high: "0x80 \<le> byte_of c \<Longrightarrow> plain_char c"
  by (auto simp: plain_char_def)

lemma plain_printable:
  "r < 0x80 \<Longrightarrow> IsPrint wide r \<Longrightarrow> r \<noteq> 0x22 \<Longrightarrow> r \<noteq> 0x5C \<Longrightarrow> plain_char (char_of r)"
  by (auto simp: plain_char_def IsPrint_def)

definition escape_form :: "string \<Rightarrow> bool" where
  "escape_form e \<longleftrightarrow> list_all plain_char e
     \<or> (\<exists>d bs. e = CHR 0x5C # d # bs \<and> d \<noteq> LF \<and> list_all plain_char bs)"

lemma scan_form:
  "escape_form e \<Longrightarrow> scan_literal (e @ s) = prepend e (scan_literal s)"
  unfolding escape_form_def using scan_plain scan_escaped by (elim disjE exE conjE) auto

lemma escape_formI: "d \<noteq> LF \<Longrightarrow> list_all plain_char bs \<Longrightarrow> escape_form (CHR 0x5C # d # bs)"
  by (auto simp: escape_form_def)

lemma escape_code_not_LF [simp]: "escape_code r \<noteq> Some LF"
  by (auto simp: escape_code_def split: if_splits)

lemma char_of_not_LF: "char_of (0x22 :: nat) \<noteq> LF" "char_of (0x5C :: nat) \<noteq> LF"
  by (simp_all add: char_of_def)

lemma escape_rune_form:
  assumes "(r, bs) \<in> set (runes s)"
  shows "escape_form (escape_rune wide (r, bs))"
proof -
  have b: "r < 0x200000" by (rule rune_bound [OF assms])
  consider (low) "r < 0x80" "bs = [char_of r]" | (high) "0x80 \<le> r" "\<forall>d \<in> set bs. 0x80 \<le> byte_of d"
    using rune_shape [OF assms] by blast
  then have p: "list_all plain_char bs" if "IsPrint wide r" "r \<noteq> 0x22" "r \<noteq> 0x5C"
    by cases (use that in \<open>auto simp: plain_printable list_all_iff plain_high\<close>)
  have "byte_of (hd bs) < (256 :: nat)" by (rule nat_of_char_less_256)
  then have x: "byte_of (hd bs) div 16 < (16 :: nat)" by linarith
  show ?thesis
    using b x p
    by (auto simp: escape_rune_def Let_def char_of_not_LF intro!: escape_formI
        simp: escape_form_def [of bs] split: option.split)
qed

lemma scan_quote_body:
  "scan_literal (quote_body wide s @ t) = prepend (quote_body wide s) (scan_literal t)"
proof -
  have "list_all (\<lambda>rb. escape_form (escape_rune wide rb)) rs \<Longrightarrow>
      scan_literal (concat (map (escape_rune wide) rs) @ t)
      = prepend (concat (map (escape_rune wide) rs)) (scan_literal t)" for rs
    by (induction rs) (simp_all add: scan_form)
  moreover have "list_all (\<lambda>rb. escape_form (escape_rune wide rb)) (runes s)"
    by (auto simp: list_all_iff escape_rune_form)
  ultimately show ?thesis by (simp add: quote_body_def)
qed

lemma scan_Quote: "scan_literal (quote_body wide s @ CHR 0x22 # t) = Some (quote_body wide s, t)"
  by (simp add: scan_quote_body)

lemma Quote_eq: "Quote wide s = CHR 0x22 # quote_body wide s @ [CHR 0x22]"
  by (simp add: Quote_def quote_body_def)

lemma scan_literal_no_LF: "scan_literal s = Some (b, r) \<Longrightarrow> LF \<notin> set b"
  by (induction s arbitrary: b rule: scan_literal.induct)
    (auto split: if_splits list.splits)

lemma Quote_no_LF [simp]: "LF \<notin> set (Quote wide s)"
  using scan_literal_no_LF [OF scan_Quote [of wide s "[]"]] by (simp add: Quote_eq)

end
