(* ===== verification/Pac.thy ===== *)
theory Pac
  imports Go_Template
begin

text \<open>
  \<open>control-plane/internal/pac\<close>: the generator of the \<open>FindProxyForURL\<close> file that the
  control API serves. \<open>wide\<close> is the table of printable runes behind \<open>%q\<close>.
\<close>

subsection \<open>Definitions\<close>

record Entry =
  en_HostGlob :: string
  en_Proxy :: string

definition DefaultProxy :: string where
  "DefaultProxy = ''PROXY proxy-squid:34128''"

text \<open>The template: its first lines, the line of one entry, its last lines.\<close>

definition pac_head :: "string list" where
  "pac_head =
     [''// Helix Proxy '' @ em_dash @ '' proxy auto-config (GENERATED '' @ em_dash @ '' DO NOT EDIT BY HAND).'',
      ''// VPN-routed target aliases go through the proxy; everything else is DIRECT'',
      ''// (split-tunnel, spec '' @ section_sign @ ''11 '' @ circled_five @ ''). Served by the control-API /proxy.pac endpoint.'',
      ''function FindProxyForURL(url, host) {'']"

definition pac_entry_line :: "(nat \<Rightarrow> bool) \<Rightarrow> string \<Rightarrow> string \<Rightarrow> string" where
  "pac_entry_line wide glob proxy =
     ''    if (shExpMatch(host, '' @ Quote wide glob @ '')) { return '' @ Quote wide proxy @ ''; }''"

definition pac_tail :: "string list" where
  "pac_tail = [''    return '' @ [CHR 0x22] @ ''DIRECT'' @ [CHR 0x22] @ '';'', ''}'']"

text \<open>The loop that copies the entries: those without a glob are left out, an empty proxy is filled in.\<close>

fun kept_entries :: "Entry list \<Rightarrow> Entry list" where
  "kept_entries [] = []"
| "kept_entries (e # entries) =
     (if en_HostGlob e = [] then kept_entries entries
      else (if en_Proxy e = [] then e\<lparr>en_Proxy := DefaultProxy\<rparr> else e) # kept_entries entries)"

text \<open>
  \<open>Generate\<close> over the sort it calls, since \<open>sort.Slice\<close> leaves the order of entries with one glob
  open; and with a stable sort, for callers whose entries differ in their globs.
\<close>

definition Generate_with :: "(Entry list \<Rightarrow> Entry list) \<Rightarrow> (nat \<Rightarrow> bool) \<Rightarrow> Entry list \<Rightarrow> string" where
  "Generate_with srt wide entries =
     unlines (pac_head @ map (\<lambda>e. pac_entry_line wide (en_HostGlob e) (en_Proxy e)) (srt (kept_entries entries))
              @ pac_tail)"

definition Generate :: "(nat \<Rightarrow> bool) \<Rightarrow> Entry list \<Rightarrow> string" where
  "Generate = Generate_with (sort_key en_HostGlob)"

subsection \<open>The shape of the file\<close>

lemma pac_head_no_LF: "list_all (\<lambda>l. LF \<notin> set l) pac_head"
  by (simp add: pac_head_def)

lemma pac_tail_no_LF: "list_all (\<lambda>l. LF \<notin> set l) pac_tail"
  by (simp add: pac_tail_def)

lemma pac_entry_line_no_LF [simp]: "LF \<notin> set (pac_entry_line wide g p)"
  by (simp add: pac_entry_line_def)

lemma pac_lines:
  "Split (unlines (pac_head @ map (\<lambda>e. pac_entry_line wide (f e) (g e)) es @ pac_tail)) LF
     = pac_head @ map (\<lambda>e. pac_entry_line wide (f e) (g e)) es @ pac_tail @ [[]]"
proof -
  have "list_all (\<lambda>l. LF \<notin> set l) (pac_head @ map (\<lambda>e. pac_entry_line wide (f e) (g e)) es @ pac_tail)"
    using pac_head_no_LF pac_tail_no_LF by (auto simp: list_all_iff)
  then show ?thesis using Split_unlines by fastforce
qed

text \<open>
  Reading an entry line back: the two literals, cut out by \<open>scan_literal\<close> between the
  fixed pieces of the line.
\<close>

definition strip :: "string \<Rightarrow> string \<Rightarrow> string option" where
  "strip p s = (if take (length p) s = p then Some (drop (length p) s) else None)"

definition read_entry_line :: "string \<Rightarrow> (string \<times> string) option" where
  "read_entry_line l =
     Option.bind (strip (''    if (shExpMatch(host, '' @ [CHR 0x22]) l) (\<lambda>s1.
     Option.bind (scan_literal s1) (\<lambda>(glob, s2).
     Option.bind (strip ('')) { return '' @ [CHR 0x22]) s2) (\<lambda>s3.
     Option.bind (scan_literal s3) (\<lambda>(proxy, s4).
     if s4 = ''; }'' then Some (glob, proxy) else None))))"

lemma strip_append [simp]: "strip p (p @ s) = Some s"
  by (simp add: strip_def)

lemma read_entry_line:
  "read_entry_line (pac_entry_line wide g p) = Some (quote_body wide g, quote_body wide p)"
proof -
  have line: "pac_entry_line wide g p = (''    if (shExpMatch(host, '' @ [CHR 0x22])
      @ (quote_body wide g @ CHR 0x22 # ('')) { return '' @ [CHR 0x22])
      @ (quote_body wide p @ CHR 0x22 # ''; }''))"
    by (simp add: pac_entry_line_def Quote_eq)
  show ?thesis
    unfolding line read_entry_line_def strip_append Option.bind.bind_lunit append_Cons scan_Quote
    using scan_Quote by (simp add: strip_def)
qed

subsection \<open>The entries of the file\<close>

text \<open>What the file shall say of an entry.\<close>

definition proxy_of :: "Entry \<Rightarrow> string" where
  "proxy_of e = (if en_Proxy e = [] then DefaultProxy else en_Proxy e)"

lemma kept_entries_eq:
  "kept_entries es = map (\<lambda>e. e\<lparr>en_Proxy := proxy_of e\<rparr>) (filter (\<lambda>e. en_HostGlob e \<noteq> []) es)"
  by (induction es) (simp_all add: proxy_of_def)

lemma sorted_by_source:
  assumes "mset ys = mset (map g xs)"
  shows "\<exists>zs. mset zs = mset xs \<and> ys = map g zs"
  using assms
proof (induction ys arbitrary: xs)
  case (Cons y ys)
  then obtain x where x: "x \<in> set xs" "y = g x" by (metis imageE list.set_intros(1) list.set_map mset_eq_setD)
  then have "mset ys = mset (map g (remove1 x xs))"
    using Cons.prems by (simp add: image_mset_Diff) (metis add_mset_remove_trivial)
  then obtain zs where "mset zs = mset (remove1 x xs)" "ys = map g zs" using Cons.IH by blast
  then show ?case using x by (intro exI [of _ "x # zs"]) simp
qed simp

text \<open>With one proxy for every glob the sort does not matter.\<close>

lemma Generate_any_sort:
  assumes "slice_sort en_HostGlob srt" and "\<And>e e'. e \<in> set es \<Longrightarrow> e' \<in> set es \<Longrightarrow> en_HostGlob e = en_HostGlob e' \<Longrightarrow> e = e'"
  shows "Generate_with srt wide es = Generate wide es"
proof -
  have "inj_on en_HostGlob (set (kept_entries es))"
    using assms(2) by (auto simp: kept_entries_eq inj_on_def)
  from slice_sort.determined [OF assms(1) this] show ?thesis by (simp add: Generate_def Generate_with_def)
qed

text \<open>The bytes depend on which entries there are, not on their order, when no two have the same glob.\<close>

lemma Generate_deterministic:
  assumes "slice_sort en_HostGlob srt" and "mset es = mset es'" and "distinct (map en_HostGlob es)"
  shows "Generate_with srt wide es = Generate_with srt wide es'"
proof -
  have "inj_on en_HostGlob (set es)" "set es' = set es" using assms(2,3) by (auto simp: distinct_map dest: mset_eq_setD)
  then have "Generate_with srt wide es = Generate wide es" "Generate_with srt wide es' = Generate wide es'"
    by (auto intro!: Generate_any_sort [OF assms(1)] dest: inj_onD)
  moreover have "sort_key en_HostGlob (kept_entries es) = sort_key en_HostGlob (kept_entries es')"
    using assms(2,3) by (intro sort_key_perm_eq) (simp_all add: kept_entries_eq comp_def distinct_map_filter)
  ultimately show ?thesis by (simp add: Generate_def Generate_with_def)
qed

subsection \<open>Properties\<close>

text \<open>
  C38: whatever sort of the entries by their globs is used, the lines of the generated PAC file
  between its fixed first and last ones are one for each entry that has a host glob, in the
  order of the globs, an entry without a glob having none; and on the line of an entry the two
  quoted literals are its glob and its proxy (the default one for an entry without), ending
  exactly where those do whatever characters they contain, so that no entry can reach outside
  its literals.
\<close>

theorem Generate_entries:
  assumes "slice_sort en_HostGlob srt"
  shows "\<exists>ls qs. Split (Generate_with srt wide es) LF = pac_head @ ls @ pac_tail @ [[]]
     \<and> mset qs = mset (filter (\<lambda>e. en_HostGlob e \<noteq> []) es) \<and> sorted (map en_HostGlob qs)
     \<and> map read_entry_line ls =
         map (\<lambda>e. Some (quote_body wide (en_HostGlob e), quote_body wide (if en_Proxy e = [] then DefaultProxy else en_Proxy e))) qs"
proof -
  let ?n = "\<lambda>e. e\<lparr>en_Proxy := proxy_of e\<rparr>" and ?ys = "srt (kept_entries es)"
  obtain qs where qs: "mset qs = mset (filter (\<lambda>e. en_HostGlob e \<noteq> []) es)" "?ys = map ?n qs"
    using sorted_by_source [of ?ys ?n] slice_sort.perm [OF assms, of "kept_entries es"] unfolding kept_entries_eq by blast
  have "sorted (map en_HostGlob qs)"
    using slice_sort.ordered [OF assms, of "kept_entries es"] by (simp add: qs(2) comp_def)
  then show ?thesis
    using qs unfolding Generate_with_def pac_lines
    by (intro exI [of _ "map (\<lambda>e. pac_entry_line wide (en_HostGlob e) (en_Proxy e)) ?ys"] exI [of _ qs])
      (simp add: read_entry_line proxy_of_def)
qed

theorem Generate_entries_witness:
  "\<exists>ls. Split (Generate_with (sort_key en_HostGlob) (\<lambda>_. True)
        [\<lparr>en_HostGlob = ''b'', en_Proxy = ''DIRECT''\<rparr>, \<lparr>en_HostGlob = [], en_Proxy = []\<rparr>]) LF = pac_head @ ls @ pac_tail @ [[]]
    \<and> map read_entry_line ls = [Some (quote_body (\<lambda>_. True) ''b'', quote_body (\<lambda>_. True) ''DIRECT'')]"
  using Generate_entries [OF stable.slice_sort_axioms, of "\<lambda>_. True"
      "[\<lparr>en_HostGlob = ''b'', en_Proxy = ''DIRECT''\<rparr>, \<lparr>en_HostGlob = [], en_Proxy = []\<rparr>]"]
  by auto

end
