(* ===== verification/Routing.thy ===== *)
theory Routing
  imports Store_Types Redis_Bus Go_Float Pac
begin

text \<open>
  \<open>control-plane/internal/routing/routing.go\<close>, the config compiler: resolving tunnels,
  peers and primary tunnels, rendering the Squid include, the Dante routes and the PAC
  file, and the pass \<open>CompileAll\<close> over the store. The store is the record \<open>Queries\<close> of
  the three reads the compiler makes; \<open>wide\<close> is the table of printable runes behind \<open>%q\<close>.
\<close>

subsection \<open>Definitions\<close>

subsubsection \<open>Types and constants\<close>

definition DefaultPeerPort :: int where "DefaultPeerPort = 8888"

definition DefaultPACProxy :: string where "DefaultPACProxy = ''PROXY proxy-squid:34128''"

record Artifacts =
  ar_SquidInclude :: string
  ar_DanteRoutes :: string
  ar_PAC :: string

record Tunnel =
  tn_Profile :: string
  tn_Name :: string
  tn_PeerHost :: string
  tn_PeerPort :: int

record DanteRoute =
  dr_Name :: string
  dr_TargetCIDR :: string
  dr_PeerHost :: string
  dr_PeerPort :: int

record Engine =
  eg_HelperPath :: string
  eg_PACProxy :: string

definition New :: "string \<Rightarrow> string \<Rightarrow> Engine" where
  "New helperPath pacProxy =
     \<lparr>eg_HelperPath = helperPath, eg_PACProxy = (if pacProxy = [] then DefaultPACProxy else pacProxy)\<rparr>"

record Queries =
  q_ListProfiles :: "VPNProfile list result"
  q_ListTargets :: "TargetHost list result"
  q_ListTiers :: "string \<Rightarrow> TargetTunnelTier list result"

subsubsection \<open>Resolving\<close>

definition token_rune :: "nat \<Rightarrow> bool" where
  "token_rune r \<longleftrightarrow> 97 \<le> r \<and> r \<le> 122 \<or> 65 \<le> r \<and> r \<le> 90 \<or> 48 \<le> r \<and> r \<le> 57
     \<or> r = 95 \<or> r = 45 \<or> r = 46"

definition sanitizeToken :: "string \<Rightarrow> string" where
  "sanitizeToken s =
     (let b = map (\<lambda>(r, _). if token_rune r then char_of r else CHR ''_'') (runes s)
      in if b = [] then ''unnamed'' else b)"

text \<open>
  \<open>json.Unmarshal\<close> into \<open>map[string]any\<close>: an object, its last binding of a key counting,
  or null, which leaves the map empty; \<open>None\<close> is an error, which a number out of the
  range of \<open>float64\<close> anywhere in the document is too.
\<close>

fun numbers_ok :: "json \<Rightarrow> bool" where
  "numbers_ok (JNum s) = (ParseFloat s \<noteq> None)"
| "numbers_ok (JArr vs) = list_all numbers_ok vs"
| "numbers_ok (JObj kvs) = list_all (\<lambda>kv. numbers_ok (snd kv)) kvs"
| "numbers_ok _ = True"

definition unmarshal_map :: "string \<Rightarrow> (string \<Rightarrow> json option) option" where
  "unmarshal_map raw =
     (case parse_json raw of
        Some (JObj kvs) \<Rightarrow> if numbers_ok (JObj kvs) then Some (map_of (rev kvs)) else None
      | Some JNull \<Rightarrow> Some Map.empty
      | _ \<Rightarrow> None)"

definition peerEndpoint :: "VPNProfile \<Rightarrow> string \<times> int" where
  "peerEndpoint p =
     (let host = ''gluetun-'' @ sanitizeToken (vp_Name p);
          port = DefaultPeerPort in
      if vp_Config p = [] then (host, port)
      else case unmarshal_map (vp_Config p) of
          None \<Rightarrow> (host, port)
        | Some m \<Rightarrow>
            (case m ''peer_host'' of Some (JStr v) \<Rightarrow> if v \<noteq> [] then v else host | _ \<Rightarrow> host,
             case m ''peer_port'' of
               Some (JNum s) \<Rightarrow>
                 (case ParseFloat s of
                    Some (neg, x) \<Rightarrow> if \<not> neg \<and> 0 < fst x then float_int x else port
                  | None \<Rightarrow> port)
             | Some (JStr v) \<Rightarrow> (case Atoi v of Inr n \<Rightarrow> if 0 < n then n else port | Inl _ \<Rightarrow> port)
             | _ \<Rightarrow> port))"

definition tunnel_of :: "VPNProfile \<Rightarrow> Tunnel" where
  "tunnel_of p =
     (let (host, port) = peerEndpoint p in
      \<lparr>tn_Profile = vp_Name p, tn_Name = ''tun_'' @ sanitizeToken (vp_Name p),
       tn_PeerHost = host, tn_PeerPort = port\<rparr>)"

definition ResolveTunnels :: "VPNProfile list \<Rightarrow> Tunnel list" where
  "ResolveTunnels profiles = sort_key tn_Profile (map tunnel_of (filter vp_Enabled profiles))"

text \<open>\<open>None\<close> is the result with \<open>ok = false\<close>.\<close>

definition primaryTunnel ::
  "TargetHost \<Rightarrow> TargetTunnelTier list \<Rightarrow> (string \<Rightarrow> string option) \<Rightarrow> (string \<times> int) option" where
  "primaryTunnel tgt tiers nameByID =
     (case tiers of
        t # _ \<Rightarrow>
          (case nameByID (tt_VPNProfileID t) of
             Some name \<Rightarrow> if name \<noteq> [] then Some (name, tt_Tier t) else None
           | None \<Rightarrow> None)
      | [] \<Rightarrow>
          if th_VPNProfileID tgt \<noteq> [] then
            (case nameByID (th_VPNProfileID tgt) of
               Some name \<Rightarrow> if name \<noteq> [] then Some (name, 0) else None
             | None \<Rightarrow> None)
          else None)"

subsubsection \<open>Rendering\<close>

definition squid_head :: "string list" where
  "squid_head =
     [''# ============================================================================='',
      ''# Helix Proxy '' @ em_dash @ '' Squid dynamic-routing include   (GENERATED '' @ em_dash @ '' DO NOT EDIT BY HAND)'',
      ''# ============================================================================='',
      ''# Generated by : control-plane config-compiler (spec '' @ section_sign @ ''4 component 2). ADDITIVE'',
      ''#   include ('' @ section_sign @ ''11.4.122): pulled into config/squid/squid.dynamic.conf BEFORE its'',
      ''#   terminal `http_access deny all`. It supplies `http_access deny !tun_up` and'',
      ''#   then the GATED `http_access allow localnet` '' @ em_dash @ '' the base carries NO unconditional'',
      ''#   `allow localnet`, so a missing include fails closed ('' @ section_sign @ ''11.4.108).'',
      ''#   Re-rendered ONLY on a STRUCTURAL change (tunnel added/removed) + applied via'',
      ''#   Squid `reconfigure` '' @ em_dash @ '' NEVER on a tunnel going up/down (that is the helper'',
      ''#   + Redis, zero reconfigure). Squid 6.13 form `%>ha{Host}` (`%>{Host}` deprecated).'',
      ''# -----------------------------------------------------------------------------'']"

definition squid_tunnel_lines :: "Tunnel \<Rightarrow> string list" where
  "squid_tunnel_lines t =
     [[],
      ''# '' @ tn_Name t @ '': egress via gluetun '' @ tn_PeerHost t @ '':'' @ show_int (tn_PeerPort t)
        @ '' when its tunnel is up'',
      ''cache_peer '' @ tn_PeerHost t @ '' parent '' @ show_int (tn_PeerPort t) @ '' 0 no-query name='' @ tn_Name t,
      ''cache_peer_access '' @ tn_Name t @ '' allow tun_up'',
      ''cache_peer_access '' @ tn_Name t @ '' deny all'']"

definition squid_tail :: "string list" where
  "squid_tail =
     [[],
      ''# --- fail-closed: never egress directly; serve a branded 503 when down -------'',
      ''# ORDERING IS LOAD-BEARING ('' @ section_sign @ ''11.4.108): `deny !tun_up` (tunnel down '' @ right_arrow @ '' branded'',
      ''# 503) is evaluated BEFORE the gated `allow localnet` (tunnel up '' @ right_arrow @ '' permitted).'',
      ''# The base squid.dynamic.conf carries NO unconditional `allow localnet`, so this'',
      ''# is the ONLY client-allow '' @ em_dash @ '' a missing include falls through to `deny all`.'',
      ''never_direct allow all'',
      ''http_access deny !tun_up'',
      ''http_access allow localnet'',
      ''deny_info 503:ERR_TUNNEL_DOWN tun_up'']"

definition RenderSquidInclude :: "string \<Rightarrow> Tunnel list \<Rightarrow> string" where
  "RenderSquidInclude helperPath tunnels =
     (let helper = (if helperPath = [] then ''/usr/lib/helix-proxy/acl-helper'' else helperPath) in
      unlines (squid_head
        @ [''external_acl_type vpn_route ttl=0 negative_ttl=0 %>ha{Host} '' @ helper,
           ''acl tun_up external vpn_route'']
        @ concat (map squid_tunnel_lines tunnels) @ squid_tail))"

definition dante_head :: "string list" where
  "dante_head =
     [''# ============================================================================='',
      ''# Helix Proxy '' @ em_dash @ '' Dante (sockd) dynamic-routing routes   (GENERATED '' @ em_dash @ '' DO NOT EDIT)'',
      ''# ============================================================================='',
      ''# APPENDED (by cmd/compiler) after the shipped config/dante/sockd.conf verbatim '' @ em_dash,
      ''# Dante v1.4.4 has NO `include` directive, so dynamism = concat + SIGHUP ('' @ section_sign @ ''9).'',
      ''# One route block per target/tunnel; base lines are never modified ('' @ section_sign @ ''11.4.122).'',
      ''# -----------------------------------------------------------------------------'']"

definition dante_route_lines :: "DanteRoute \<Rightarrow> string list" where
  "dante_route_lines r =
     [[],
      ''# '' @ dr_Name r @ '': send traffic destined for '' @ dr_TargetCIDR r @ '' out via this tunnel.'',
      ''route {'',
      ''    from: 0.0.0.0/0   to: '' @ dr_TargetCIDR r @ ''   via: '' @ dr_PeerHost r @ '' port = '' @ show_int (dr_PeerPort r),
      ''    proxyprotocol: socks_v5'',
      ''    method: none'',
      ''}'']"

definition RenderDanteRoutes :: "DanteRoute list \<Rightarrow> string" where
  "RenderDanteRoutes routes = unlines (dante_head @ concat (map dante_route_lines routes))"

definition routing_pac_head :: "string list" where
  "routing_pac_head =
     [''// Helix Proxy '' @ em_dash @ '' proxy auto-config (GENERATED '' @ em_dash @ '' DO NOT EDIT BY HAND).'',
      ''// VPN-routed target aliases go through the proxy; everything else is DIRECT'',
      ''// (split-tunnel, spec '' @ section_sign @ ''11 '' @ circled_five @ ''). Regenerated only on a structural change.'',
      ''function FindProxyForURL(url, host) {'']"

text \<open>The rest of this file's own template: the line of an alias, \<open>$.Proxy\<close> being the same on all, and the end.\<close>

definition routing_pac_line :: "(nat \<Rightarrow> bool) \<Rightarrow> string \<Rightarrow> string \<Rightarrow> string" where
  "routing_pac_line wide proxy a =
     ''    if (shExpMatch(host, '' @ Quote wide a @ '')) { return '' @ Quote wide proxy @ ''; }''"

definition routing_pac_tail :: "string list" where
  "routing_pac_tail = [''    return '' @ [CHR 0x22] @ ''DIRECT'' @ [CHR 0x22] @ '';'', ''}'']"

definition RenderPAC :: "(nat \<Rightarrow> bool) \<Rightarrow> string \<Rightarrow> string list \<Rightarrow> string" where
  "RenderPAC wide proxy aliases =
     (let proxy = (if proxy = [] then DefaultPACProxy else proxy) in
      unlines (routing_pac_head @ map (routing_pac_line wide proxy) (sort aliases) @ routing_pac_tail))"

subsubsection \<open>The compile pass\<close>

text \<open>The loop over the targets: the Dante routes and the route decisions it appends.\<close>

fun target_loop ::
  "Queries \<Rightarrow> (string \<Rightarrow> Tunnel option) \<Rightarrow> (string \<Rightarrow> string option) \<Rightarrow> TargetHost list
    \<Rightarrow> DanteRoute list \<Rightarrow> Route list \<Rightarrow> (DanteRoute list \<times> Route list) result" where
  "target_loop q peerByProfile nameByID [] dRoutes routes = Inr (dRoutes, routes)"
| "target_loop q peerByProfile nameByID (tgt # tgts) dRoutes routes =
     (if \<not> th_Enabled tgt then target_loop q peerByProfile nameByID tgts dRoutes routes
      else case q_ListTiers q (th_ID tgt) of
          Inl e \<Rightarrow> Inl (Wrap (''routing: list tiers for '' @ th_PublicAlias tgt @ '': '') e)
        | Inr tiers \<Rightarrow>
            (case primaryTunnel tgt tiers nameByID of
               None \<Rightarrow> target_loop q peerByProfile nameByID tgts dRoutes routes
             | Some (profileName, tier) \<Rightarrow>
                 (case peerByProfile profileName of
                    None \<Rightarrow> target_loop q peerByProfile nameByID tgts dRoutes routes
                  | Some peer \<Rightarrow>
                      target_loop q peerByProfile nameByID tgts
                        (dRoutes @ [\<lparr>dr_Name = tn_Name peer, dr_TargetCIDR = th_PrivateIP tgt,
                                     dr_PeerHost = tn_PeerHost peer, dr_PeerPort = tn_PeerPort peer\<rparr>])
                        (routes @ [\<lparr>rt_Target = th_PublicAlias tgt, rt_Tunnel = profileName,
                                    rt_Tier = tier, rt_BreakerState = ''closed''\<rparr>]))))"

text \<open>A Go map filled in a loop over a list: the last binding of a key counts.\<close>

definition fill_map :: "('a \<Rightarrow> string) \<Rightarrow> ('a \<Rightarrow> 'b) \<Rightarrow> 'a list \<Rightarrow> string \<Rightarrow> 'b option" where
  "fill_map k v xs = map_of (rev (map (\<lambda>x. (k x, v x)) xs))"

definition CompileAll :: "(nat \<Rightarrow> bool) \<Rightarrow> Engine \<Rightarrow> Queries \<Rightarrow> (Artifacts \<times> Route list) result" where
  "CompileAll wide e q =
     (case q_ListProfiles q of
        Inl er \<Rightarrow> Inl (Wrap ''routing: list profiles: '' er)
      | Inr profiles \<Rightarrow>
          (case q_ListTargets q of
             Inl er \<Rightarrow> Inl (Wrap ''routing: list targets: '' er)
           | Inr targets \<Rightarrow>
               let tunnels = ResolveTunnels profiles;
                   peerByProfile = fill_map tn_Profile (\<lambda>t. t) tunnels;
                   nameByID = fill_map vp_ID vp_Name profiles
               in case target_loop q peerByProfile nameByID targets [] [] of
                   Inl er \<Rightarrow> Inl er
                 | Inr (dRoutes, routes) \<Rightarrow>
                     let aliases = map th_PublicAlias (filter th_Enabled targets)
                     in Inr (\<lparr>ar_SquidInclude = RenderSquidInclude (eg_HelperPath e) tunnels,
                              ar_DanteRoutes = RenderDanteRoutes dRoutes,
                              ar_PAC = RenderPAC wide (eg_PACProxy e) aliases\<rparr>, routes)))"

definition Compile :: "(nat \<Rightarrow> bool) \<Rightarrow> Engine \<Rightarrow> Queries \<Rightarrow> Artifacts result" where
  "Compile wide e q = (case CompileAll wide e q of Inl er \<Rightarrow> Inl er | Inr (arts, _) \<Rightarrow> Inr arts)"

subsection \<open>Tokens\<close>

definition token_char :: "char \<Rightarrow> bool" where
  "token_char c \<longleftrightarrow> token_rune (byte_of c)"

lemma token_rune_ascii: "token_rune r \<Longrightarrow> r < 0x80"
  by (auto simp: token_rune_def)

lemma token_char_visible: "token_char c \<Longrightarrow> visible c"
  by (auto simp: token_char_def token_rune_def visible_def)

lemma token_char_underscore: "token_char CHR ''_''"
  by (simp add: token_char_def token_rune_def)

lemma sanitizeToken_token: "list_all token_char (sanitizeToken s)" "sanitizeToken s \<noteq> []"
proof -
  have "token_char (char_of r)" if "token_rune r" for r
    using that token_rune_ascii [OF that] by (simp add: token_char_def)
  then show "list_all token_char (sanitizeToken s)"
    by (auto simp: sanitizeToken_def Let_def list_all_iff token_char_underscore split: prod.splits)
      (auto simp: token_char_def token_rune_def)
  show "sanitizeToken s \<noteq> []" by (simp add: sanitizeToken_def Let_def)
qed

lemma sanitizeToken_id: "list_all token_char s \<Longrightarrow> s \<noteq> [] \<Longrightarrow> sanitizeToken s = s"
proof -
  assume t: "list_all token_char s" "s \<noteq> []"
  then have "runes s = map (\<lambda>c. (byte_of c, [c])) s"
    by (intro runes_ascii) (auto simp: list_all_iff token_char_def dest: token_rune_ascii)
  then show ?thesis
    using t by (auto simp: sanitizeToken_def Let_def list_all_iff token_char_def intro!: map_idI)
qed

lemma tokens_no_LF: "list_all token_char s \<Longrightarrow> LF \<notin> set s"
  using token_char_visible by (fastforce simp: list_all_iff visible_def)

subsection \<open>Tunnels\<close>

lemma ResolveTunnels_set: "set (ResolveTunnels ps) = tunnel_of ` {p \<in> set ps. vp_Enabled p}"
  by (auto simp: ResolveTunnels_def)

lemma tunnel_of_sel [simp]:
  "tn_Profile (tunnel_of p) = vp_Name p" "tn_Name (tunnel_of p) = ''tun_'' @ sanitizeToken (vp_Name p)"
  "tn_PeerHost (tunnel_of p) = fst (peerEndpoint p)" "tn_PeerPort (tunnel_of p) = snd (peerEndpoint p)"
  by (simp_all add: tunnel_of_def case_prod_beta)

lemma ResolveTunnels_perm:
  assumes "mset ps = mset ps'" and "distinct (map vp_Name ps)"
  shows "ResolveTunnels ps = ResolveTunnels ps'"
  unfolding ResolveTunnels_def
proof (rule sort_key_perm_eq)
  show "mset (map tunnel_of (filter vp_Enabled ps)) = mset (map tunnel_of (filter vp_Enabled ps'))"
    using assms(1) by simp
  show "distinct (map tn_Profile (map tunnel_of (filter vp_Enabled ps)))"
    using assms(2) by (simp add: comp_def distinct_map_filter)
qed

text \<open>With unique names it does not matter how \<open>sort.Slice\<close> treats ties.\<close>

lemma ResolveTunnels_any_sort:
  assumes "slice_sort tn_Profile srt" and "distinct (map vp_Name ps)"
  shows "srt (map tunnel_of (filter vp_Enabled ps)) = ResolveTunnels ps"
  unfolding ResolveTunnels_def
  using assms(2) by (intro slice_sort.determined [OF assms(1)]) (auto simp: inj_on_def distinct_map)

lemma peerEndpoint_default: "vp_Config p = [] \<Longrightarrow>
    peerEndpoint p = (''gluetun-'' @ sanitizeToken (vp_Name p), DefaultPeerPort)"
  by (simp add: peerEndpoint_def)

lemma fill_map_Some: "fill_map k v xs x = Some y \<Longrightarrow> \<exists>e \<in> set xs. k e = x \<and> v e = y"
  by (auto simp: fill_map_def dest!: map_of_SomeD)

lemma fill_map_distinct:
  assumes "distinct (map k xs)" and "e \<in> set xs"
  shows "fill_map k v xs (k e) = Some (v e)"
proof -
  have "map_of (rev (map (\<lambda>x. (k x, v x)) xs)) = map_of (map (\<lambda>x. (k x, v x)) xs)"
    using assms(1) by (intro map_of_inject_set [THEN iffD2]) (simp_all add: comp_def rev_map [symmetric])
  then show ?thesis using map_of_distinct_last [OF assms] by (simp add: fill_map_def)
qed

subsection \<open>The target loop\<close>

text \<open>What the loop does with one target, given its tiers.\<close>

definition resolve_target ::
  "Queries \<Rightarrow> (string \<Rightarrow> Tunnel option) \<Rightarrow> (string \<Rightarrow> string option) \<Rightarrow> TargetHost \<Rightarrow> (DanteRoute \<times> Route) option" where
  "resolve_target q peers names tgt =
     (case q_ListTiers q (th_ID tgt) of
        Inl _ \<Rightarrow> None
      | Inr tiers \<Rightarrow>
          Option.bind (primaryTunnel tgt tiers names) (\<lambda>(name, tier).
          map_option (\<lambda>peer.
            (\<lparr>dr_Name = tn_Name peer, dr_TargetCIDR = th_PrivateIP tgt,
              dr_PeerHost = tn_PeerHost peer, dr_PeerPort = tn_PeerPort peer\<rparr>,
             \<lparr>rt_Target = th_PublicAlias tgt, rt_Tunnel = name, rt_Tier = tier, rt_BreakerState = ''closed''\<rparr>))
            (peers name)))"

lemma target_loop_enabled:
  assumes "th_Enabled tgt" and "q_ListTiers q (th_ID tgt) = Inr tiers"
  shows "target_loop q peers names (tgt # tgts) ds rs =
    (case resolve_target q peers names tgt of
       None \<Rightarrow> target_loop q peers names tgts ds rs
     | Some (d, r) \<Rightarrow> target_loop q peers names tgts (ds @ [d]) (rs @ [r]))"
  using assms by (simp add: resolve_target_def split: option.split)

lemma target_loop_Inr:
  assumes "target_loop q peers names tgts ds rs = Inr (ds', rs')"
  shows "ds' = ds @ map fst (List.map_filter (resolve_target q peers names) (filter th_Enabled tgts))
    \<and> rs' = rs @ map snd (List.map_filter (resolve_target q peers names) (filter th_Enabled tgts))"
  using assms
proof (induction tgts arbitrary: ds rs)
  case Nil
  then show ?case by (simp add: map_filter_simps)
next
  case (Cons tgt tgts)
  show ?case
  proof (cases "th_Enabled tgt")
    case False
    then show ?thesis using Cons by simp
  next
    case True
    with Cons.prems obtain tiers where "q_ListTiers q (th_ID tgt) = Inr tiers" by (auto split: sum.splits)
    note step = target_loop_enabled [OF True this]
    show ?thesis
      using Cons.prems [unfolded step] True
      by (cases "resolve_target q peers names tgt") (auto simp: map_filter_simps dest: Cons.IH)
  qed
qed

lemma target_loop_tier_error:
  assumes "tgt \<in> set tgts" and "th_Enabled tgt" and "q_ListTiers q (th_ID tgt) = Inl e"
  shows "\<exists>e'. target_loop q peers names tgts ds rs = Inl e'"
  using assms
  by (induction tgts arbitrary: ds rs) (auto split: sum.splits option.splits prod.splits)

lemma primaryTunnel_Some:
  "primaryTunnel tgt tiers names = Some (name, tier) \<Longrightarrow>
     name \<noteq> [] \<and> (\<exists>i. names i = Some name \<and>
       (case tiers of t # _ \<Rightarrow> i = tt_VPNProfileID t \<and> tier = tt_Tier t
        | [] \<Rightarrow> i = th_VPNProfileID tgt \<and> tier = 0))"
  by (auto simp: primaryTunnel_def split: list.splits option.splits if_splits)

subsection \<open>What Squid reads\<close>

text \<open>
  The directives of a Squid file are its lines that are neither blank nor comments.
\<close>

definition directive :: "string \<Rightarrow> bool" where
  "directive l \<longleftrightarrow> (case l of [] \<Rightarrow> False | c # _ \<Rightarrow> c \<noteq> CHR ''#'')"

definition directives :: "string \<Rightarrow> string list" where
  "directives out = filter directive (Split out LF)"

definition peer_directives :: "Tunnel \<Rightarrow> string list" where
  "peer_directives t =
     [''cache_peer '' @ tn_PeerHost t @ '' parent '' @ show_int (tn_PeerPort t) @ '' 0 no-query name='' @ tn_Name t,
      ''cache_peer_access '' @ tn_Name t @ '' allow tun_up'',
      ''cache_peer_access '' @ tn_Name t @ '' deny all'']"

lemma squid_head_lines: "list_all (\<lambda>l. LF \<notin> set l) squid_head" "filter directive squid_head = []"
  by (simp_all add: squid_head_def directive_def)

lemma squid_tail_lines:
  "list_all (\<lambda>l. LF \<notin> set l) squid_tail"
  "filter directive squid_tail =
     [''never_direct allow all'', ''http_access deny !tun_up'', ''http_access allow localnet'',
      ''deny_info 503:ERR_TUNNEL_DOWN tun_up'']"
  by (simp_all add: squid_tail_def directive_def)

definition tunnel_ok :: "Tunnel \<Rightarrow> bool" where
  "tunnel_ok t \<longleftrightarrow> LF \<notin> set (tn_Name t) \<and> LF \<notin> set (tn_PeerHost t)"

lemma squid_tunnel_lines:
  "tunnel_ok t \<Longrightarrow> list_all (\<lambda>l. LF \<notin> set l) (squid_tunnel_lines t)"
  "filter directive (squid_tunnel_lines t) = peer_directives t"
  by (simp_all add: squid_tunnel_lines_def peer_directives_def directive_def tunnel_ok_def)

lemma filter_concat_map: "filter P (concat (map f xs)) = concat (map (\<lambda>x. filter P (f x)) xs)"
  by (induction xs) auto

lemma directives_RenderSquidInclude:
  assumes "LF \<notin> set helper" and "list_all tunnel_ok ts" and "helper \<noteq> []"
  shows "directives (RenderSquidInclude helper ts) =
    [''external_acl_type vpn_route ttl=0 negative_ttl=0 %>ha{Host} '' @ helper, ''acl tun_up external vpn_route'']
    @ concat (map peer_directives ts)
    @ [''never_direct allow all'', ''http_access deny !tun_up'', ''http_access allow localnet'',
       ''deny_info 503:ERR_TUNNEL_DOWN tun_up'']"
proof -
  let ?e = "''external_acl_type vpn_route ttl=0 negative_ttl=0 %>ha{Host} '' @ helper"
  let ?ls = "squid_head @ [?e, ''acl tun_up external vpn_route''] @ concat (map squid_tunnel_lines ts) @ squid_tail"
  have "list_all (\<lambda>l. LF \<notin> set l) (concat (map squid_tunnel_lines ts))"
    using assms(2) by (induction ts) (simp_all add: squid_tunnel_lines)
  then have "list_all (\<lambda>l. LF \<notin> set l) ?ls"
    using squid_head_lines(1) squid_tail_lines(1) assms(1) by simp
  then have "directives (RenderSquidInclude helper ts) = filter directive (?ls @ [[]])"
    using Split_unlines [of ?ls] assms(3) by (simp add: directives_def RenderSquidInclude_def)
  also have "\<dots> = [?e, ''acl tun_up external vpn_route''] @ concat (map peer_directives ts)
      @ filter directive squid_tail"
    by (simp add: squid_head_lines(2) filter_concat_map squid_tunnel_lines(2) directive_def)
  finally show ?thesis by (simp add: squid_tail_lines(2))
qed

lemma tunnel_ok_resolved:
  "tunnel_ok (tunnel_of p) \<longleftrightarrow> LF \<notin> set (fst (peerEndpoint p))"
  using tokens_no_LF [OF sanitizeToken_token(1)] by (simp add: tunnel_ok_def)

subsection \<open>The two PAC renderers\<close>

lemma routing_pac_no_LF:
  "list_all (\<lambda>l. LF \<notin> set l) routing_pac_head" "list_all (\<lambda>l. LF \<notin> set l) routing_pac_tail" "LF \<notin> set (routing_pac_line wide proxy a)"
  by (simp_all add: routing_pac_head_def routing_pac_tail_def routing_pac_line_def)

lemma RenderPAC_lines:
  "Split (RenderPAC wide proxy aliases) LF =
     routing_pac_head @ map (routing_pac_line wide (if proxy = [] then DefaultPACProxy else proxy)) (sort aliases)
     @ routing_pac_tail @ [[]]"
proof -
  let ?p = "if proxy = [] then DefaultPACProxy else proxy"
  have "list_all (\<lambda>l. LF \<notin> set l) (routing_pac_head @ map (routing_pac_line wide ?p) (sort aliases) @ routing_pac_tail)"
    using routing_pac_no_LF by (auto simp: list_all_iff)
  from Split_unlines [OF this] show ?thesis by (simp add: RenderPAC_def)
qed

lemma sort_key_map_const: "sort_key f (map g xs) = map g (sort xs)" if "\<And>a. f (g a) = (a :: string)"
proof (rule sym, rule sort_key_inj)
  show "mset (map g (sort xs)) = mset (map g xs)" by simp
  show "sorted (map f (map g (sort xs)))" using that by (simp add: comp_def)
  show "inj_on f (set (map g xs))" using that by (auto simp: inj_on_def)
qed

text \<open>The lines of the control API's file, for entries with one proxy.\<close>

lemma Generate_aliases:
  "Split (Generate wide (map (\<lambda>a. \<lparr>en_HostGlob = a, en_Proxy = proxy\<rparr>) aliases)) LF =
     pac_head @ map (\<lambda>a. pac_entry_line wide a (if proxy = [] then DefaultProxy else proxy)) (sort (filter (\<lambda>a. a \<noteq> []) aliases))
     @ pac_tail @ [[]]"
proof -
  let ?e = "\<lambda>a. \<lparr>en_HostGlob = a, en_Proxy = if proxy = [] then DefaultProxy else proxy\<rparr>"
  have "kept_entries (map (\<lambda>a. \<lparr>en_HostGlob = a, en_Proxy = proxy\<rparr>) aliases) = map ?e (filter (\<lambda>a. a \<noteq> []) aliases)"
    by (induction aliases) simp_all
  moreover have "sort_key en_HostGlob (map ?e (filter (\<lambda>a. a \<noteq> []) aliases)) = map ?e (sort (filter (\<lambda>a. a \<noteq> []) aliases))"
    by (rule sort_key_map_const) simp
  ultimately show ?thesis unfolding Generate_def Generate_with_def pac_lines by (simp add: comp_def)
qed

subsection \<open>The routes of a compile pass\<close>

lemma CompileAll_route_sound:
  assumes "CompileAll wide e q = Inr (arts, routes)" and "q_ListProfiles q = Inr ps"
    and "q_ListTargets q = Inr ts" and "r \<in> set routes"
  shows "\<exists>tgt \<in> set ts. \<exists>tiers. th_Enabled tgt \<and> th_PublicAlias tgt = rt_Target r
    \<and> q_ListTiers q (th_ID tgt) = Inr tiers \<and> rt_Tunnel r \<noteq> [] \<and> rt_BreakerState r = ''closed''
    \<and> (\<exists>p \<in> set ps. vp_Name p = rt_Tunnel r \<and>
        (case tiers of t # _ \<Rightarrow> vp_ID p = tt_VPNProfileID t \<and> rt_Tier r = tt_Tier t
         | [] \<Rightarrow> vp_ID p = th_VPNProfileID tgt \<and> rt_Tier r = 0))
    \<and> (\<exists>p \<in> set ps. vp_Enabled p \<and> vp_Name p = rt_Tunnel r \<and> tunnel_of p \<in> set (ResolveTunnels ps))"
proof -
  let ?peers = "fill_map tn_Profile (\<lambda>t. t) (ResolveTunnels ps)" and ?names = "fill_map vp_ID vp_Name ps"
  from assms(1-3) obtain ds where loop: "target_loop q ?peers ?names ts [] [] = Inr (ds, routes)"
    by (auto simp: CompileAll_def Let_def split: sum.splits)
  from target_loop_Inr [OF loop] assms(4) obtain tgt d where
    tgt: "tgt \<in> set ts" "th_Enabled tgt" and res: "resolve_target q ?peers ?names tgt = Some (d, r)"
    by (auto simp: List.map_filter_def)
  from res obtain tiers name tier peer where t: "q_ListTiers q (th_ID tgt) = Inr tiers"
    "primaryTunnel tgt tiers ?names = Some (name, tier)" "?peers name = Some peer"
    "r = \<lparr>rt_Target = th_PublicAlias tgt, rt_Tunnel = name, rt_Tier = tier, rt_BreakerState = ''closed''\<rparr>"
    by (auto simp: resolve_target_def bind_eq_Some_conv split: sum.splits)
  from fill_map_Some [OF t(3)] obtain p where p: "p \<in> set ps" "vp_Enabled p" "vp_Name p = name"
    "tunnel_of p \<in> set (ResolveTunnels ps)"
    by (auto simp: ResolveTunnels_set)
  from primaryTunnel_Some [OF t(2)] obtain i where i: "name \<noteq> []" "?names i = Some name"
    "case tiers of t # _ \<Rightarrow> i = tt_VPNProfileID t \<and> tier = tt_Tier t | [] \<Rightarrow> i = th_VPNProfileID tgt \<and> tier = 0"
    by blast
  from fill_map_Some [OF i(2)] obtain p' where "p' \<in> set ps" "vp_ID p' = i" "vp_Name p' = name" by blast
  with i(3) have "\<exists>p \<in> set ps. vp_Name p = name \<and> (case tiers of t # _ \<Rightarrow> vp_ID p = tt_VPNProfileID t \<and> tier = tt_Tier t
         | [] \<Rightarrow> vp_ID p = th_VPNProfileID tgt \<and> tier = 0)" by (auto split: list.splits)
  moreover have sel: "rt_Tunnel r = name" "rt_Tier r = tier" "rt_Target r = th_PublicAlias tgt" "rt_BreakerState r = ''closed''"
    by (simp_all add: t(4))
  ultimately show ?thesis
    unfolding sel using tgt t(1) i(1) p by (intro bexI [OF _ tgt(1)] exI [of _ tiers]) blast
qed

lemma CompileAll_route_complete:
  assumes "CompileAll wide e q = Inr (arts, routes)" and "q_ListProfiles q = Inr ps"
    and "q_ListTargets q = Inr ts" and "distinct (map vp_ID ps)" and "distinct (map vp_Name ps)"
    and "tgt \<in> set ts" and "th_Enabled tgt" and "q_ListTiers q (th_ID tgt) = Inr tiers"
    and "p \<in> set ps" and "vp_Enabled p" and "vp_Name p \<noteq> []" and "vp_ID p \<noteq> []"
    and "vp_ID p = (case tiers of t # _ \<Rightarrow> tt_VPNProfileID t | [] \<Rightarrow> th_VPNProfileID tgt)"
  shows "\<lparr>rt_Target = th_PublicAlias tgt, rt_Tunnel = vp_Name p,
      rt_Tier = (case tiers of t # _ \<Rightarrow> tt_Tier t | [] \<Rightarrow> 0), rt_BreakerState = ''closed''\<rparr> \<in> set routes"
proof -
  let ?peers = "fill_map tn_Profile (\<lambda>t. t) (ResolveTunnels ps)" and ?names = "fill_map vp_ID vp_Name ps"
  let ?r = "\<lparr>rt_Target = th_PublicAlias tgt, rt_Tunnel = vp_Name p,
      rt_Tier = (case tiers of t # _ \<Rightarrow> tt_Tier t | [] \<Rightarrow> 0), rt_BreakerState = ''closed''\<rparr>"
  from assms(1-3) obtain ds where loop: "target_loop q ?peers ?names ts [] [] = Inr (ds, routes)"
    by (auto simp: CompileAll_def Let_def split: sum.splits)
  have names: "?names (vp_ID p) = Some (vp_Name p)" by (rule fill_map_distinct [OF assms(4,9)])
  have "mset (map tn_Profile (ResolveTunnels ps)) = mset (map vp_Name (filter vp_Enabled ps))"
    by (simp add: ResolveTunnels_def image_mset.compositionality comp_def)
  then have "distinct (map tn_Profile (ResolveTunnels ps))"
    using assms(5) mset_eq_imp_distinct_iff distinct_map_filter by blast
  moreover have "tunnel_of p \<in> set (ResolveTunnels ps)" using assms(9,10) by (simp add: ResolveTunnels_set)
  ultimately have "?peers (vp_Name p) = Some (tunnel_of p)"
    using fill_map_distinct [of tn_Profile "ResolveTunnels ps" "tunnel_of p" "\<lambda>t. t"] by simp
  then have "\<exists>d. resolve_target q ?peers ?names tgt = Some (d, ?r)"
    using assms(8,11-13) names
    by (cases tiers) (auto simp: resolve_target_def primaryTunnel_def)
  then obtain d where "resolve_target q ?peers ?names tgt = Some (d, ?r)" by blast
  then have "(d, ?r) \<in> set (List.map_filter (resolve_target q ?peers ?names) (filter th_Enabled ts))"
    using assms(6,7) by (force simp: List.map_filter_def)
  then show ?thesis using target_loop_Inr [OF loop] by force
qed

subsection \<open>Properties\<close>

definition eu_profile :: VPNProfile where
  "eu_profile = \<lparr>vp_ID = ''p1'', vp_Name = ''eu'', vp_Type = VPNTypeWireGuard, vp_Config = [],
     vp_SecretRef = [], vp_Enabled = True, vp_Created = 0, vp_Updated = 0\<rparr>"

definition wiki_target :: TargetHost where
  "wiki_target = \<lparr>th_ID = ''t1'', th_PublicAlias = ''wiki.helix'', th_PrivateIP = ''10.0.0.1'', th_Port = 80,
     th_Protocol = ''http'', th_VPNProfileID = ''p1'', th_HealthCheck = [], th_Enabled = True,
     th_Created = 0, th_Updated = 0\<rparr>"

definition wiki_queries :: Queries where
  "wiki_queries = \<lparr>q_ListProfiles = Inr [eu_profile], q_ListTargets = Inr [wiki_target],
     q_ListTiers = (\<lambda>_. Inr [])\<rparr>"

lemma wiki_compile:
  "\<exists>arts. CompileAll wide (New [] []) wiki_queries
     = Inr (arts, [\<lparr>rt_Target = ''wiki.helix'', rt_Tunnel = ''eu'', rt_Tier = 0, rt_BreakerState = ''closed''\<rparr>])"
  by (simp add: CompileAll_def wiki_queries_def ResolveTunnels_def fill_map_def primaryTunnel_def
      wiki_target_def eu_profile_def)

text \<open>
  C23: the routes of a compile pass are exactly those the data model asks for: each enabled
  target is routed into its primary tunnel, which is the profile of its first tier, or its own
  profile when it has no tier, as long as that profile is enabled and has a name (identities
  and names of the profiles being unique).
\<close>

theorem CompileAll_routes_exact:
  assumes "CompileAll wide e q = Inr (arts, routes)" and "q_ListProfiles q = Inr ps"
    and "q_ListTargets q = Inr ts" and "distinct (map vp_ID ps)" and "distinct (map vp_Name ps)"
    and "\<forall>p \<in> set ps. vp_ID p \<noteq> []"
  shows "r \<in> set routes \<longleftrightarrow> (\<exists>tgt \<in> set ts. \<exists>p \<in> set ps. \<exists>tiers. th_Enabled tgt \<and> q_ListTiers q (th_ID tgt) = Inr tiers
    \<and> vp_Enabled p \<and> vp_Name p \<noteq> []
    \<and> vp_ID p = (case tiers of t # _ \<Rightarrow> tt_VPNProfileID t | [] \<Rightarrow> th_VPNProfileID tgt)
    \<and> r = \<lparr>rt_Target = th_PublicAlias tgt, rt_Tunnel = vp_Name p,
        rt_Tier = (case tiers of t # _ \<Rightarrow> tt_Tier t | [] \<Rightarrow> 0), rt_BreakerState = ''closed''\<rparr>)"
    (is "_ \<longleftrightarrow> ?asked")
proof
  assume r: "r \<in> set routes"
  from CompileAll_route_sound [OF assms(1-3) r] obtain tgt tiers p p' where
    t: "tgt \<in> set ts" "th_Enabled tgt" "th_PublicAlias tgt = rt_Target r" "q_ListTiers q (th_ID tgt) = Inr tiers"
    and p: "p \<in> set ps" "vp_Name p = rt_Tunnel r" "case tiers of t # _ \<Rightarrow> vp_ID p = tt_VPNProfileID t \<and> rt_Tier r = tt_Tier t
         | [] \<Rightarrow> vp_ID p = th_VPNProfileID tgt \<and> rt_Tier r = 0"
    and p': "p' \<in> set ps" "vp_Enabled p'" "vp_Name p' = rt_Tunnel r" and n: "rt_Tunnel r \<noteq> []" "rt_BreakerState r = ''closed''"
    by blast
  have "p' = p" using p(1,2) p'(1,3) assms(5) by (metis distinct_map inj_onD)
  then show ?asked using t p p'(2) n by (intro bexI [OF _ t(1)] bexI [OF _ p(1)] exI [of _ tiers]) (auto split: list.splits)
next
  assume ?asked
  then show "r \<in> set routes" using CompileAll_route_complete [OF assms(1-5)] assms(6) by blast
qed

theorem CompileAll_routes_exact_witness:
  "\<exists>arts routes. CompileAll (\<lambda>_. True) (New [] []) wiki_queries = Inr (arts, routes)
    \<and> \<lparr>rt_Target = ''wiki.helix'', rt_Tunnel = ''eu'', rt_Tier = 0, rt_BreakerState = ''closed''\<rparr> \<in> set routes"
proof -
  obtain arts routes where c: "CompileAll (\<lambda>_. True) (New [] []) wiki_queries = Inr (arts, routes)"
    using wiki_compile by blast
  have "\<lparr>rt_Target = ''wiki.helix'', rt_Tunnel = ''eu'', rt_Tier = 0, rt_BreakerState = ''closed''\<rparr> \<in> set routes"
    by (subst CompileAll_routes_exact [OF c, of "[eu_profile]" "[wiki_target]"])
      (simp_all add: wiki_queries_def eu_profile_def wiki_target_def)
  then show ?thesis using c by blast
qed

text \<open>
  C39: the two PAC renderers, the compiler's and the control API's, each with a template of its
  own, given the same aliases and the same proxy (an empty one standing for the default of
  either), write the same lines after their three lines of comment if no alias is empty, and
  different ones if some alias is.
\<close>

theorem RenderPAC_agrees_with_Generate:
  "drop 3 (Split (RenderPAC wide proxy aliases) LF) =
    drop 3 (Split (Generate wide (map (\<lambda>a. \<lparr>en_HostGlob = a, en_Proxy = proxy\<rparr>) aliases)) LF)
   \<longleftrightarrow> [] \<notin> set aliases"
proof
  assume "drop 3 (Split (RenderPAC wide proxy aliases) LF) =
    drop 3 (Split (Generate wide (map (\<lambda>a. \<lparr>en_HostGlob = a, en_Proxy = proxy\<rparr>) aliases)) LF)"
  from arg_cong [OF this, of length] have "length (filter (\<lambda>a. a \<noteq> []) aliases) = length aliases"
    by (simp add: RenderPAC_lines Generate_aliases routing_pac_head_def pac_head_def routing_pac_tail_def pac_tail_def)
  then show "[] \<notin> set aliases" by (metis (mono_tags, lifting) length_filter_less less_irrefl)
next
  assume "[] \<notin> set aliases"
  then have f: "filter (\<lambda>a. a \<noteq> []) aliases = aliases" by (auto simp: filter_id_conv)
  show "drop 3 (Split (RenderPAC wide proxy aliases) LF) =
    drop 3 (Split (Generate wide (map (\<lambda>a. \<lparr>en_HostGlob = a, en_Proxy = proxy\<rparr>) aliases)) LF)"
    unfolding RenderPAC_lines Generate_aliases f
    by (simp add: routing_pac_head_def pac_head_def routing_pac_tail_def pac_tail_def routing_pac_line_def [abs_def]
        pac_entry_line_def DefaultPACProxy_def DefaultProxy_def)
qed

text \<open>
  A token is safe in a Squid line: it is not empty and holds only letters, digits,
  underscore, hyphen and dot; a name that is already such a token is kept, and cleaning twice
  is cleaning once.
\<close>

theorem sanitizeToken_correct:
  "sanitizeToken s \<noteq> [] \<and> list_all (\<lambda>c. token_rune (byte_of c)) (sanitizeToken s)
   \<and> sanitizeToken (sanitizeToken s) = sanitizeToken s
   \<and> (sanitizeToken s = s \<longleftrightarrow> s \<noteq> [] \<and> list_all (\<lambda>c. token_rune (byte_of c)) s)"
  using sanitizeToken_token [of s] sanitizeToken_id [of s] sanitizeToken_id [of "sanitizeToken s"]
  unfolding token_char_def [abs_def] by auto

text \<open>
  The peer of a profile is read from its configuration: a host and a port below 2^53,
  written as a number or as a decimal string, are taken as given; without configuration they
  are the gluetun defaults.
\<close>

theorem peerEndpoint_reads_config:
  assumes "valid_utf8 h" and "h \<noteq> []" and "0 < n" and "n < 2 ^ 53"
    and "vp_Config p = print_json (JObj [(''peer_host'', JStr h),
      (''peer_port'', if quoted then JStr (show_nat n) else JNum (show_nat n))])"
  shows "peerEndpoint p = (h, int n)"
proof -
  let ?kvs = "[(''peer_host'', JStr h), (''peer_port'', if quoted then JStr (show_nat n) else JNum (show_nat n))]"
  obtain x where x: "ParseFloat (show_nat n) = Some (False, x)" "float_trunc x = n" "0 < fst x"
    using ParseFloat_show_nat [OF assms(4)] assms(3) by blast
  have fi: "float_int x = int n" using x(2) assms(4) by (simp add: float_int_def)
  have at: "Atoi (show_nat n) = Inr (int n)" using assms(4) by (simp add: Atoi_def ParseInt_show_nat)
  have "wf_json (JObj ?kvs)"
    using assms(1) by (auto simp: visible_utf8 visible_def simp del: wf_json.simps(3))
  then have "parse_json (vp_Config p) = Some (JObj ?kvs)" unfolding assms(5) by (rule parse_print)
  moreover have "numbers_ok (JObj ?kvs)" using x(1) by simp
  ultimately have "unmarshal_map (vp_Config p) = Some (map_of (rev ?kvs))" by (simp add: unmarshal_map_def)
  moreover have "vp_Config p \<noteq> []" unfolding assms(5) by simp
  ultimately show ?thesis using assms(2,3) x fi at by (simp add: peerEndpoint_def)
qed

theorem peerEndpoint_reads_config_witness:
  "peerEndpoint (eu_profile\<lparr>vp_Config := print_json (JObj [(''peer_host'', JStr ''gw''), (''peer_port'', JNum (show_nat 3129))])\<rparr>)
     = (''gw'', int 3129)"
  by (rule peerEndpoint_reads_config [where quoted = False]) (simp_all add: visible_utf8 visible_def)

text \<open>
  The tunnels do not depend on the order in which the profiles are listed, when their
  names are unique, and come out sorted by profile name, one for each enabled profile.
\<close>

theorem ResolveTunnels_deterministic:
  assumes "mset ps = mset ps'" and "distinct (map vp_Name ps)"
  shows "ResolveTunnels ps = ResolveTunnels ps'
    \<and> sorted (map tn_Profile (ResolveTunnels ps))
    \<and> set (ResolveTunnels ps) = tunnel_of ` {p \<in> set ps. vp_Enabled p}"
  using ResolveTunnels_perm [OF assms] ResolveTunnels_set [of ps]
  by (intro conjI) (simp_all add: ResolveTunnels_def)

theorem ResolveTunnels_deterministic_witness:
  "ResolveTunnels [eu_profile, eu_profile\<lparr>vp_Name := ''ap''\<rparr>] = ResolveTunnels [eu_profile\<lparr>vp_Name := ''ap''\<rparr>, eu_profile]
    \<and> sorted (map tn_Profile (ResolveTunnels [eu_profile, eu_profile\<lparr>vp_Name := ''ap''\<rparr>]))
    \<and> set (ResolveTunnels [eu_profile, eu_profile\<lparr>vp_Name := ''ap''\<rparr>])
      = tunnel_of ` {p \<in> set [eu_profile, eu_profile\<lparr>vp_Name := ''ap''\<rparr>]. vp_Enabled p}"
  by (rule ResolveTunnels_deterministic) (simp_all add: eu_profile_def)

end
