(* ===== verification/Store_Compile.thy ===== *)
theory Store_Compile
  imports Store_Directory Routing
begin

text \<open>
  The config compiler over the Postgres store: its three reads are the store's methods, and
  the routes it resolves are exactly those the rows of the database describe.
\<close>

subsection \<open>The compiler's view of the store\<close>

definition listed :: "('a list \<times> go_error option) \<times> session \<Rightarrow> 'a list result" where
  "listed r = (case fst r of (xs, None) \<Rightarrow> Inr xs | (xs, Some e) \<Rightarrow> Inl e)"

text \<open>Each call runs on the pool and meets its own environment.\<close>

definition store_queries ::
  "pg_types \<Rightarrow> stmt_env \<Rightarrow> stmt_env \<Rightarrow> (string \<Rightarrow> stmt_env) \<Rightarrow> db \<Rightarrow> Queries" where
  "store_queries t env_p env_t env_tiers db =
     \<lparr>q_ListProfiles = listed (ListProfiles t env_p (pool db)),
      q_ListTargets = listed (ListTargets t env_t (pool db)),
      q_ListTiers = (\<lambda>i. listed (ListTiers t (env_tiers i) i (pool db)))\<rparr>"

subsection \<open>The routes of a database\<close>

text \<open>
  An enabled target is routed through the profile of its first tier, or through its own
  profile when it has no tier, provided that profile is enabled and has a name.
\<close>

definition tier_chain :: "db \<Rightarrow> target_row \<Rightarrow> tier_row list" where
  "tier_chain db r = sort_key ti_tier (filter (\<lambda>x. ti_target x = tr_id r) (db_tiers db))"

definition primary :: "db \<Rightarrow> target_row \<Rightarrow> (string \<times> int) option" where
  "primary db r =
     (case tier_chain db r of
        x # _ \<Rightarrow> Some (ti_profile x, ti_tier x)
      | [] \<Rightarrow> map_option (\<lambda>i. (i, 0)) (tr_profile r))"

definition db_route :: "db \<Rightarrow> target_row \<Rightarrow> Route option" where
  "db_route db r =
     (if \<not> tr_enabled r then None
      else Option.bind (primary db r) (\<lambda>(i, tier).
        Option.bind (find (\<lambda>p. vr_id p = i) (db_profiles db)) (\<lambda>p.
          if vr_enabled p \<and> vr_name p \<noteq> []
          then Some \<lparr>rt_Target = tr_alias r, rt_Tunnel = vr_name p, rt_Tier = tier, rt_BreakerState = ''closed''\<rparr>
          else None)))"

subsection \<open>The compiler finds them\<close>

lemma target_loop_total:
  assumes "\<And>tgt. tgt \<in> set tgts \<Longrightarrow> \<exists>tiers. q_ListTiers q (th_ID tgt) = Inr tiers"
  shows "\<exists>ds' rs'. target_loop q peers names tgts ds rs = Inr (ds', rs')"
  using assms
proof (induction tgts arbitrary: ds rs)
  case (Cons tgt tgts)
  obtain tiers where "q_ListTiers q (th_ID tgt) = Inr tiers" using Cons.prems by force
  then show ?case using Cons.IH Cons.prems by (auto split: option.splits prod.splits)
qed simp

lemma store_reads:
  assumes "se_fault env = NoFault"
  shows "listed (ListProfiles t env (pool db)) = Inr (map scanProfile (sort_key (\<lambda>r. pg_key t (vr_name r)) (db_profiles db)))"
    and "listed (ListTargets t env (pool db)) = Inr (map scanTarget (sort_key (\<lambda>r. pg_key t (tr_alias r)) (db_targets db)))"
    and "pg_uuid t i = Some i \<Longrightarrow> listed (ListTiers t env i (pool db))
      = Inr (map scanTier (sort_key ti_tier (filter (\<lambda>x. ti_target x = i) (db_tiers db))))"
  using assms
  by (simp_all add: list_methods listed_def list_query_def open_rows_def run_stmt_def scan_loop_ok
      sqlListProfiles_def sqlListTargets_def sqlListTiers_def conv_def)

lemma fill_map_None: "x \<notin> k ` set xs \<Longrightarrow> fill_map k v xs x = None"
  using fill_map_Some by (cases "fill_map k v xs x") fastforce+

text \<open>The two lookup tables of the pass, on rows with distinct names and identifiers.\<close>

lemma names_table:
  assumes "distinct (map vr_id ps)"
  shows "fill_map vp_ID vp_Name (map scanProfile ps) i = map_option vr_name (find (\<lambda>p. vr_id p = i) ps)"
proof (cases "find (\<lambda>p. vr_id p = i) ps")
  case None
  then have "i \<notin> vp_ID ` set (map scanProfile ps)" by (auto simp: find_None_iff)
  then show ?thesis using None by (simp add: fill_map_None)
next
  case (Some p)
  then have p: "p \<in> set ps" "vr_id p = i" using find_SomeE by force+
  have "distinct (map vp_ID (map scanProfile ps))" using assms by (simp add: comp_def)
  from fill_map_distinct [OF this, of "scanProfile p" vp_Name] show ?thesis
    using p Some by simp
qed

lemma peers_table:
  assumes "distinct (map vr_name ps)" and "p \<in> set ps"
  shows "fill_map tn_Profile (\<lambda>t. t) (ResolveTunnels (map scanProfile ps)) (vr_name p)
    = (if vr_enabled p then Some (tunnel_of (scanProfile p)) else None)"
proof -
  let ?ts = "ResolveTunnels (map scanProfile ps)"
  have "mset (map tn_Profile ?ts) = mset (map vr_name (filter vr_enabled ps))"
    by (simp add: ResolveTunnels_def image_mset.compositionality comp_def filter_map)
  then have dist: "distinct (map tn_Profile ?ts)"
    using assms(1) mset_eq_imp_distinct_iff distinct_map_filter by blast
  show ?thesis
  proof (cases "vr_enabled p")
    case True
    then have "tunnel_of (scanProfile p) \<in> set ?ts" using assms(2) by (auto simp: ResolveTunnels_set)
    from fill_map_distinct [OF dist this, of "\<lambda>t. t"] show ?thesis using True by simp
  next
    case False
    then have "vr_name p \<notin> tn_Profile ` set ?ts"
      using assms unfolding ResolveTunnels_set by (auto simp: distinct_map dest: inj_onD)
    then show ?thesis using False by (simp add: fill_map_None)
  qed
qed

lemma resolve_target_row:
  assumes "pg_laws t" and "db_ok t db" and "r \<in> set (db_targets db)"
    and "mset ps = mset (db_profiles db)"
    and "q_ListTiers q (tr_id r) = Inr (map scanTier (tier_chain db r))" and "tr_enabled r"
  shows "map_option snd (resolve_target q (fill_map tn_Profile (\<lambda>t. t) (ResolveTunnels (map scanProfile ps)))
      (fill_map vp_ID vp_Name (map scanProfile ps)) (scanTarget r))
    = db_route db r"
proof -
  let ?names = "fill_map vp_ID vp_Name (map scanProfile ps)"
  let ?peers = "fill_map tn_Profile (\<lambda>t. t) (ResolveTunnels (map scanProfile ps))"
  have set: "set ps = set (db_profiles db)" using assms(4) by (metis set_mset_mset)
  have "distinct (map vr_id (db_profiles db))" "distinct (map vr_name (db_profiles db))"
    using assms(2) by (auto simp: db_ok_def profiles_ok_def)
  moreover have "mset (map f ps) = mset (map f (db_profiles db))" for f :: "profile_row \<Rightarrow> string"
    using assms(4) by simp
  ultimately have dist: "distinct (map vr_id ps)" "distinct (map vr_name ps)"
    "distinct (map vr_id (db_profiles db))"
    using mset_eq_imp_distinct_iff by blast+
  have found: "find (\<lambda>p. vr_id p = i) ps = find (\<lambda>p. vr_id p = i) (db_profiles db)" for i
    using find_key_Some [OF dist(1), of i] find_key_Some [OF dist(3), of i] set by (metis not_Some_eq)
  have peers: "?peers (vr_name p) = (if vr_enabled p then Some (tunnel_of (scanProfile p)) else None)"
    if "find (\<lambda>p. vr_id p = i) (db_profiles db) = Some p" for i p
    using peers_table [OF dist(2), of p] that set find_SomeE by fastforce
  have nonempty: "i \<noteq> []" if "tr_profile r = Some i" for i
    using assms(2,3) that pg_laws.uuid_canon [OF assms(1), of i i]
    by (fastforce simp: db_ok_def targets_ok_def profiles_ok_def list_all_iff references_def)
  show ?thesis
    by (cases "tier_chain db r")
      (auto simp: resolve_target_def assms(5) primaryTunnel_def names_table [OF dist(1)] found peers nonempty
        db_route_def assms(6) primary_def tier_chain_def coalesce_def split: option.splits list.splits)
qed

lemma map_filter_rows:
  assumes "\<And>r. r \<in> set rows \<Longrightarrow> tr_enabled r \<Longrightarrow> map_option snd (f (scan r)) = g r"
    and "\<And>r. th_Enabled (scan r) = tr_enabled r" and "\<And>r. \<not> tr_enabled r \<Longrightarrow> g r = None"
  shows "map snd (List.map_filter f (filter th_Enabled (map scan rows))) = List.map_filter g rows"
  using assms(1)
proof (induction rows)
  case (Cons r rows)
  have "map_option snd (f (scan r)) = g r" if "tr_enabled r" using Cons.prems [of r] that by simp
  then show ?case
    using Cons assms(3) [of r] by (cases "f (scan r)") (auto simp: map_filter_simps assms(2) split: option.splits)
qed (simp add: map_filter_simps)

lemma CompileAll_of_store:
  assumes "pg_laws t" and "db_ok t db"
    and "se_fault env_p = NoFault" and "se_fault env_t = NoFault" and "\<forall>i. se_fault (env_tiers i) = NoFault"
  shows "\<exists>arts. CompileAll wide e (store_queries t env_p env_t env_tiers db)
    = Inr (arts, List.map_filter (db_route db) (sort_key (\<lambda>r. pg_key t (tr_alias r)) (db_targets db)))"
proof -
  let ?q = "store_queries t env_p env_t env_tiers db"
  let ?ps = "sort_key (\<lambda>r. pg_key t (vr_name r)) (db_profiles db)"
  let ?ts = "sort_key (\<lambda>r. pg_key t (tr_alias r)) (db_targets db)"
  let ?peers = "fill_map tn_Profile (\<lambda>t. t) (ResolveTunnels (map scanProfile ?ps))"
  let ?names = "fill_map vp_ID vp_Name (map scanProfile ?ps)"
  have lists: "q_ListProfiles ?q = Inr (map scanProfile ?ps)" "q_ListTargets ?q = Inr (map scanTarget ?ts)"
    using assms(3,4) by (simp_all add: store_queries_def store_reads)
  have tiers: "q_ListTiers ?q (tr_id r) = Inr (map scanTier (tier_chain db r))" if "r \<in> set ?ts" for r
    using that assms(2,5) by (simp add: store_queries_def store_reads tier_chain_def db_ok_def targets_ok_def list_all_iff)
  obtain ds rs where loop: "target_loop ?q ?peers ?names (map scanTarget ?ts) [] [] = Inr (ds, rs)"
    using target_loop_total [of "map scanTarget ?ts" ?q] tiers by fastforce
  have "rs = List.map_filter (db_route db) ?ts"
    using target_loop_Inr [OF loop] resolve_target_row [OF assms(1,2) _ _ tiers, of _ ?ps]
    by (subst map_filter_rows [symmetric, where scan = scanTarget
          and f = "resolve_target ?q ?peers ?names"]) (simp_all add: db_route_def)
  then show ?thesis using loop by (simp add: CompileAll_def lists Let_def)
qed

subsection \<open>Properties\<close>

text \<open>
  C8: the compiler over the store: on a working connection the pass succeeds, and the routes
  it resolves are exactly those of the database, in the order of the aliases: one for each
  enabled target whose first tier, or own profile if it has no tier, is an enabled profile.
\<close>

theorem compile_of_store:
  assumes "pg_laws t" and "db_ok t db"
    and "se_fault env_p = NoFault" and "se_fault env_t = NoFault" and "\<forall>i. se_fault (env_tiers i) = NoFault"
  shows "\<exists>arts. CompileAll wide e (store_queries t env_p env_t env_tiers db)
    = Inr (arts, List.map_filter (db_route db) (sort_key (\<lambda>r. pg_key t (tr_alias r)) (db_targets db)))"
  by (rule CompileAll_of_store [OF assms])

theorem compile_of_store_witness:
  "\<exists>arts. CompileAll (\<lambda>_. True) (New [] []) (store_queries ref_types ref_env ref_env (\<lambda>_. ref_env) wiki_db)
    = Inr (arts, [\<lparr>rt_Target = ''wiki.helix'', rt_Tunnel = ''eu'', rt_Tier = 0, rt_BreakerState = ''closed''\<rparr>])"
proof -
  have nf: "se_fault ref_env = NoFault" by (simp add: ref_env_def)
  have "List.map_filter (db_route wiki_db) (sort_key (\<lambda>r. pg_key ref_types (tr_alias r)) (db_targets wiki_db))
      = [\<lparr>rt_Target = ''wiki.helix'', rt_Tunnel = ''eu'', rt_Tier = 0, rt_BreakerState = ''closed''\<rparr>]"
    by (simp add: wiki_db_def db_route_def primary_def tier_chain_def row_wiki_def row_eu_def map_filter_simps)
  then show ?thesis
    using compile_of_store [OF ref_pg.pg_laws_axioms wiki_db_ok nf nf] nf by metis
qed

text \<open>
  C9: deleting a profile withdraws its routes: whatever is compiled from the store after a
  successful delete, no route leads into the deleted tunnel, and a target that has no
  failover tier left and was bound to it has no route at all.
\<close>

theorem deleted_profile_not_routed:
  assumes "pg_laws t" and "db_ok t (ss_db s)" and "env_ok t env" and "DeleteProfile t env i s = (Inr (), s')"
    and "p \<in> set (db_profiles (ss_db s))" and "pg_uuid t i = Some (vr_id p)"
    and "se_fault env_p = NoFault" and "se_fault env_t = NoFault" and "\<forall>i. se_fault (env_tiers i) = NoFault"
    and "CompileAll wide e (store_queries t env_p env_t env_tiers (ss_db s')) = Inr (arts, routes)"
  shows "vr_name p \<notin> rt_Tunnel ` set routes
    \<and> (\<forall>r \<in> set (db_targets (ss_db s)). tr_profile r = Some (vr_id p) \<and> tier_chain (ss_db s') r = []
         \<longrightarrow> tr_alias r \<notin> rt_Target ` set routes)"
proof -
  let ?db = "ss_db s'"
  have ok: "db_ok t ?db" using writes_keep_schema(2) [OF assms(2,3), of i] assms(4) by simp
  have profiles: "db_profiles ?db = filter (\<lambda>r. vr_id r \<noteq> vr_id p) (db_profiles (ss_db s))"
    and targets: "db_targets ?db = map (\<lambda>r. if tr_profile r = Some (vr_id p) then r\<lparr>tr_profile := None, tr_updated := se_now env\<rparr> else r)
      (db_targets (ss_db s))"
    using assms(4-6) by (auto simp: DeleteProfile_def run_stmt_Inr sqlDeleteProfile_def)
  have "routes = List.map_filter (db_route ?db) (sort_key (\<lambda>r. pg_key t (tr_alias r)) (db_targets ?db))"
    using CompileAll_of_store [OF assms(1) ok assms(7-9), of wide e] assms(10) by auto
  then have routes: "\<exists>r \<in> set (db_targets ?db). db_route ?db r = Some x" if "x \<in> set routes" for x
    using that by (auto simp: List.map_filter_def)
  have "vr_name p \<notin> vr_name ` set (db_profiles ?db)"
    using assms(2,5) unfolding profiles db_ok_def profiles_ok_def by (auto simp: distinct_map dest: inj_onD)
  then have "vr_name p \<notin> rt_Tunnel ` set routes"
    using routes by (fastforce simp: db_route_def bind_eq_Some_conv dest: find_SomeE split: if_splits)
  moreover have "tr_alias r \<notin> rt_Target ` set routes"
    if r: "r \<in> set (db_targets (ss_db s))" "tr_profile r = Some (vr_id p)" "tier_chain ?db r = []" for r
  proof
    assume "tr_alias r \<in> rt_Target ` set routes"
    then obtain x r' where x: "x \<in> set routes" "rt_Target x = tr_alias r"
      and r': "r' \<in> set (db_targets ?db)" "db_route ?db r' = Some x"
      using routes by (metis imageE)
    then have "tr_alias r' = tr_alias r" by (auto simp: db_route_def bind_eq_Some_conv split: if_splits)
    moreover have "r\<lparr>tr_profile := None, tr_updated := se_now env\<rparr> \<in> set (db_targets ?db)"
      using r(1,2) unfolding targets by force
    ultimately have "r' = r\<lparr>tr_profile := None, tr_updated := se_now env\<rparr>"
      using ok r'(1) inj_onD [of tr_alias "set (db_targets ?db)" r' "r\<lparr>tr_profile := None, tr_updated := se_now env\<rparr>"]
      by (simp add: db_ok_def targets_ok_def distinct_map)
    then show False using r'(2) r(3) by (simp add: db_route_def primary_def tier_chain_def split: if_splits)
  qed
  ultimately show ?thesis by blast
qed

theorem deleted_profile_not_routed_witness:
  "\<exists>arts routes. CompileAll (\<lambda>_. True) (New [] []) (store_queries ref_types ref_env ref_env (\<lambda>_. ref_env)
      (ss_db (snd (DeleteProfile ref_types ref_env pid1 (pool wiki_db))))) = Inr (arts, routes)
    \<and> ''eu'' \<notin> rt_Tunnel ` set routes"
proof -
  let ?s = "snd (DeleteProfile ref_types ref_env pid1 (pool wiki_db))"
  have nf: "se_fault ref_env = NoFault" by (simp add: ref_env_def)
  have ok: "db_ok ref_types (ss_db (pool wiki_db))" by (simp add: wiki_db_ok)
  have del: "DeleteProfile ref_types ref_env pid1 (pool wiki_db) = (Inr (), ?s)" by (simp add: eu_deleted)
  have "db_ok ref_types (ss_db ?s)" using writes_keep_schema(2) [OF ok ref_env_ok] .
  from CompileAll_of_store [OF ref_pg.pg_laws_axioms this nf nf, of "\<lambda>_. ref_env"] nf
  obtain arts routes where c: "CompileAll (\<lambda>_. True) (New [] []) (store_queries ref_types ref_env ref_env (\<lambda>_. ref_env) (ss_db ?s))
      = Inr (arts, routes)" by blast
  have "vr_name row_eu \<notin> rt_Tunnel ` set routes"
    using deleted_profile_not_routed [OF ref_pg.pg_laws_axioms ok ref_env_ok del _ _ nf nf _ c, of row_eu] nf ref_uuids
    by (simp add: wiki_db_def row_eu_def ref_types_def)
  then show ?thesis using c by (auto simp: row_eu_def)
qed

end
