(* ===== verification/Acl_Helper.thy ===== *)
theory Acl_Helper
  imports Redis_Bus "HOL-Library.Sublist"
begin

text \<open>
  \<open>control-plane/internal/aclhelper\<close> (the verdict of \<open>decide.go\<close>, the Squid line codec
  of \<open>protocol.go\<close>) and the read-decide-reply loop of \<open>control-plane/cmd/acl-helper\<close>.
  The \<open>Bus\<close> interface is a record of its two lookups and the locale \<open>fail_closed_bus\<close>;
  the Redis client implements it for every server.
\<close>

subsection \<open>Definitions\<close>

subsubsection \<open>decide.go\<close>

record Bus =
  bus_GetRoute :: "string \<Rightarrow> Route result"
  bus_GetStatus :: "string \<Rightarrow> HealthSnapshot \<times> go_error option"

definition Decide :: "Bus \<Rightarrow> string \<Rightarrow> bool \<times> string" where
  "Decide bus host =
     (if host = [] then (False, [])
      else case bus_GetRoute bus host of
          Inl e \<Rightarrow> (False, [])
        | Inr route \<Rightarrow>
            if rt_Tunnel route = [] then (False, [])
            else (case bus_GetStatus bus (rt_Tunnel route) of
                (snap, Some e) \<Rightarrow> (False, [])
              | (snap, None) \<Rightarrow>
                  if hs_State snap \<noteq> StateUp then (False, []) else (True, rt_Tunnel route)))"

text \<open>
  The Redis client as a bus: the route is read at one moment and the status at another, so
  each lookup has its own server state and clock.
\<close>

definition redis_bus :: "'r redis \<Rightarrow> Client \<Rightarrow> 'r \<Rightarrow> time \<Rightarrow> 'r \<Rightarrow> time \<Rightarrow> Bus" where
  "redis_bus srv c r1 t1 r2 t2 =
     \<lparr>bus_GetRoute = GetRoute srv r1 t1, bus_GetStatus = GetStatus srv c r2 t2\<rparr>"

subsubsection \<open>protocol.go\<close>

record Request =
  rq_Channel :: string
  rq_Host :: string

definition isChannelID :: "string \<Rightarrow> bool" where
  "isChannelID tok \<longleftrightarrow> tok \<noteq> [] \<and> list_all (\<lambda>(r, _). \<not> (r < 48 \<or> 57 < r)) (runes tok)"

definition ParseLine :: "string \<Rightarrow> Request" where
  "ParseLine line =
     (let fs = Fields (TrimRight line [CR, LF]) in
      case fs of
        [] \<Rightarrow> \<lparr>rq_Channel = [], rq_Host = []\<rparr>
      | f0 # rest \<Rightarrow>
          let (channel, rawHost) =
            (case rest of
               f1 # _ \<Rightarrow> if isChannelID f0 then (f0, f1) else ([], f0)
             | [] \<Rightarrow> ([], f0))
          in case PathUnescape rawHost of
              None \<Rightarrow> \<lparr>rq_Channel = channel, rq_Host = []\<rparr>
            | Some host \<Rightarrow> \<lparr>rq_Channel = channel, rq_Host = TrimSpace host\<rparr>)"

definition FormatReply :: "string \<Rightarrow> bool \<Rightarrow> string \<Rightarrow> string" where
  "FormatReply channel ok tag =
     (if channel \<noteq> [] then channel @ '' '' else [])
     @ (if ok \<and> tag \<noteq> [] then ''OK tag='' @ tag else if ok then ''OK'' else ''ERR'')
     @ [LF]"

subsubsection \<open>cmd/acl-helper/main.go\<close>

text \<open>
  One turn of the loop in its environment: whether the root context is cancelled when the
  turn starts, the bus as a context with the given timeout sees it (an expired context is
  an error of the lookup), and how writing and flushing the reply end.
\<close>

record turn =
  tn_cancelled :: bool
  tn_bus :: "Duration \<Rightarrow> Bus"
  tn_write :: "go_error option"
  tn_flush :: "go_error option"

definition decideWithTimeout :: "(Duration \<Rightarrow> Bus) \<Rightarrow> string \<Rightarrow> Duration \<Rightarrow> bool \<times> string" where
  "decideWithTimeout dec host timeout = (if host = [] then (False, []) else Decide (dec timeout) host)"

text \<open>\<open>bufio.Reader.ReadString\<close>: the line with its delimiter, the rest, and whether the input ended first.\<close>

definition ReadString :: "string \<Rightarrow> char \<Rightarrow> string \<times> string \<times> bool" where
  "ReadString inp delim =
     (case dropWhile (\<lambda>c. c \<noteq> delim) inp of
        [] \<Rightarrow> (inp, [], True)
      | _ # rest \<Rightarrow> (takeWhile (\<lambda>c. c \<noteq> delim) inp @ [delim], rest, False))"

definition reply_for :: "turn \<Rightarrow> Duration \<Rightarrow> string \<Rightarrow> string" where
  "reply_for tn reqTimeout line =
     (let req = ParseLine line; (ok, tag) = decideWithTimeout (tn_bus tn) (rq_Host req) reqTimeout
      in FormatReply (rq_Channel req) ok tag)"

text \<open>The loop from its \<open>i\<close>-th turn on: the replies that reach Squid and the error it returns.\<close>

function loop :: "(nat \<Rightarrow> turn) \<Rightarrow> Duration \<Rightarrow> nat \<Rightarrow> string \<Rightarrow> string list \<times> go_error option" where
  "loop turns reqTimeout i inp =
     (if tn_cancelled (turns i) then ([], None)
      else case ReadString inp LF of
        (line, rest, eof) \<Rightarrow>
          if line = [] then ([], None)
          else (case tn_write (turns i) of
              Some e \<Rightarrow> ([], Some (Wrap ''write reply: '' e))
            | None \<Rightarrow>
                (case tn_flush (turns i) of
                   Some e \<Rightarrow> ([], Some (Wrap ''flush reply: '' e))
                 | None \<Rightarrow>
                     let reply = reply_for (turns i) reqTimeout line in
                     if eof then ([reply], None)
                     else (case loop turns reqTimeout (Suc i) rest of
                         (replies, err) \<Rightarrow> (reply # replies, err)))))"
  by pat_completeness auto

lemma ReadString_length:
  "ReadString inp d = (line, rest, False) \<Longrightarrow> length rest < length inp"
proof -
  assume "ReadString inp d = (line, rest, False)"
  then obtain c where c: "dropWhile (\<lambda>c. c \<noteq> d) inp = c # rest"
    by (auto simp: ReadString_def split: list.splits)
  show ?thesis using length_dropWhile_le [of "\<lambda>c. c \<noteq> d" inp] c by simp
qed

termination loop
  by (relation "measure (\<lambda>(_, _, _, inp). length inp)") (auto dest: ReadString_length [OF sym])

declare loop.simps [simp del]

subsection \<open>The verdict\<close>

lemma Decide_cases:
  "Decide bus host =
     (case bus_GetRoute bus host of
        Inr route \<Rightarrow>
          if host \<noteq> [] \<and> rt_Tunnel route \<noteq> []
             \<and> snd (bus_GetStatus bus (rt_Tunnel route)) = None
             \<and> hs_State (fst (bus_GetStatus bus (rt_Tunnel route))) = StateUp
          then (True, rt_Tunnel route) else (False, [])
      | Inl _ \<Rightarrow> (False, []))"
  by (auto simp: Decide_def split: sum.splits prod.splits option.splits)

lemma Decide_True:
  "Decide bus host = (True, tag) \<longleftrightarrow>
     host \<noteq> [] \<and> tag \<noteq> [] \<and> (\<exists>route. bus_GetRoute bus host = Inr route \<and> rt_Tunnel route = tag)
     \<and> snd (bus_GetStatus bus tag) = None \<and> hs_State (fst (bus_GetStatus bus tag)) = StateUp"
  by (auto simp: Decide_cases split: sum.splits)

lemma Decide_False: "Decide bus host = (False, tag) \<Longrightarrow> tag = []"
  by (auto simp: Decide_cases split: sum.splits if_splits)

text \<open>
  The \<open>Bus\<close> contract of \<open>decide.go\<close>: a status lookup that fails reports a state other
  than "up". Under it the error result adds nothing to the verdict.
\<close>

locale fail_closed_bus =
  fixes bus :: Bus
  assumes status_error: "snd (bus_GetStatus bus p) \<noteq> None \<Longrightarrow> hs_State (fst (bus_GetStatus bus p)) \<noteq> StateUp"
begin

lemma allowed_iff:
  "fst (Decide bus host) \<longleftrightarrow>
     host \<noteq> [] \<and> (\<exists>route. bus_GetRoute bus host = Inr route \<and> rt_Tunnel route \<noteq> []
       \<and> hs_State (fst (bus_GetStatus bus (rt_Tunnel route))) = StateUp)"
  using status_error by (auto simp: Decide_cases split: sum.splits)

lemma outage_refused:
  assumes "\<And>p. snd (bus_GetStatus bus p) \<noteq> None"
  shows "Decide bus host = (False, [])"
  using assms by (auto simp: Decide_cases simp del: not_None_eq split: sum.splits)

end

interpretation redis_bus: fail_closed_bus "redis_bus srv c r1 t1 r2 t2" for srv c r1 t1 r2 t2
  by unfold_locales (simp add: redis_bus_def GetStatus_error_down)

text \<open>An allowed request, traced to the entries of the server that justify it.\<close>

lemma Decide_redis:
  assumes "redis_server srv view" and "Decide (redis_bus srv c r1 t1 r2 t2) host = (True, tag)"
  shows "\<exists>rb route sb snap. live (view r1 (RouteKey host)) t1 = Some rb
    \<and> unmarshal_route rb = Some route \<and> rt_Tunnel route = tag
    \<and> live (view r2 (StatusKey tag)) t2 = Some sb \<and> unmarshal_status sb = Some snap
    \<and> hs_State snap = StateUp \<and> \<not> (0 < maxAge c \<and> maxAge c < Sub t2 (hs_CheckedAt snap))"
proof -
  from assms(2) obtain route where route: "GetRoute srv r1 t1 host = Inr route" "rt_Tunnel route = tag"
    and up: "hs_State (fst (GetStatus srv c r2 t2 tag)) = StateUp"
    by (auto simp: Decide_True redis_bus_def)
  then show ?thesis
    using redis_server.GetRoute_Inr [OF assms(1)] redis_server.GetStatus_up [OF assms(1) up] by metis
qed

lemma get_live:
  assumes "redis_server srv view" and "live (view r k) t = Some b" and "\<forall>e. rd_Get srv r t k \<noteq> GetErr e"
  shows "rd_Get srv r t k = GetBytes b"
  using assms redis_server.get_nil [OF assms(1)] redis_server.get_value [OF assms(1)]
  by (cases "rd_Get srv r t k") fastforce+

lemma Decide_redis_iff:
  assumes "redis_server srv view" and "host \<noteq> []"
  shows "tag \<noteq> [] \<and> Decide (redis_bus srv c r1 t1 r2 t2) host = (True, tag) \<longleftrightarrow> tag \<noteq> [] \<and> (\<exists>rb route sb snap.
      live (view r1 (RouteKey host)) t1 = Some rb \<and> unmarshal_route rb = Some route \<and> rt_Tunnel route = tag
    \<and> live (view r2 (StatusKey tag)) t2 = Some sb \<and> unmarshal_status sb = Some snap
    \<and> hs_State snap = StateUp \<and> \<not> (0 < maxAge c \<and> maxAge c < Sub t2 (hs_CheckedAt snap)))
    \<and> (\<forall>e. rd_Get srv r1 t1 (RouteKey host) \<noteq> GetErr e) \<and> (\<forall>e. rd_Get srv r2 t2 (StatusKey tag) \<noteq> GetErr e)"
    (is "?allowed \<longleftrightarrow> ?stored")
proof
  assume a: ?allowed
  then have "(\<forall>e. rd_Get srv r1 t1 (RouteKey host) \<noteq> GetErr e) \<and> (\<forall>e. rd_Get srv r2 t2 (StatusKey tag) \<noteq> GetErr e)"
    by (auto simp: Decide_True redis_bus_def GetRoute_def GetStatus_def)
  then show ?stored using a Decide_redis [OF assms(1), of c r1 t1 r2 t2 host tag] by blast
next
  assume ?stored
  then obtain rb route sb snap where s: "tag \<noteq> []" "rd_Get srv r1 t1 (RouteKey host) = GetBytes rb" "unmarshal_route rb = Some route"
    "rt_Tunnel route = tag" "rd_Get srv r2 t2 (StatusKey tag) = GetBytes sb" "unmarshal_status sb = Some snap"
    "hs_State snap = StateUp" "\<not> (0 < maxAge c \<and> maxAge c < Sub t2 (hs_CheckedAt snap))"
    using get_live [OF assms(1)] by blast
  then have "snd (GetStatus srv c r2 t2 tag) = None" "hs_State (fst (GetStatus srv c r2 t2 tag)) = StateUp"
    by (simp_all add: GetStatus_def evaluateStatus_up_iff)
  then show ?allowed using s assms(2) by (auto simp: Decide_True redis_bus_def GetRoute_def)
qed

subsection \<open>The line codec\<close>

lemma isChannelID_digits: "isChannelID tok \<longleftrightarrow> tok \<noteq> [] \<and> list_all is_digit tok"
proof -
  have "list_all (\<lambda>(r, _). \<not> (r < 48 \<or> 57 < r)) (runes tok) \<longleftrightarrow> list_all is_digit tok"
  proof (induction tok rule: runes_induct)
    case (Step s)
    then obtain c t where s: "s = c # t" by (cases s) auto
    note u = runes_unfold [of "c # t", OF list.distinct(2)]
    show ?case
    proof (cases "byte_of c < (0x80 :: nat)")
      case True
      then have "DecodeRune s = (byte_of c, 1)" by (simp add: s DecodeRune_def)
      with Step u show ?thesis by (simp add: s is_digit_def not_less)
    next
      case False
      then have "\<not> fst (DecodeRune (c # t)) < 0x80" using DecodeRune_high [of c t] by simp
      with False u show ?thesis by (simp add: s is_digit_def)
    qed
  qed simp
  then show ?thesis by (simp add: isChannelID_def)
qed

lemma TrimRight_line: "visible_string s \<Longrightarrow> TrimRight (s @ [LF]) [CR, LF] = s"
  by (rule TrimRight_append) (auto dest: visible_last)

lemma TrimRight_line2:
  assumes "visible_string s" and "s \<noteq> []"
  shows "TrimRight (p @ s @ [LF]) [CR, LF] = p @ s"
proof -
  have "visible (last (p @ s))" using assms visible_last by simp
  then have "last (p @ s) \<notin> set [CR, LF]" by auto
  then show ?thesis using TrimRight_append [of "[LF]" "[CR, LF]" "p @ s"] by simp
qed

lemma ascii_space_blank [simp]: "ascii_space (CHR '' '')"
  by (simp add: ascii_space_def)

lemma ParseLine_concurrent:
  assumes "list_all is_digit ch" and "ch \<noteq> []" and "visible_string raw" and "raw \<noteq> []"
  shows "ParseLine (ch @ '' '' @ raw @ [LF]) =
    \<lparr>rq_Channel = ch, rq_Host = (case PathUnescape raw of None \<Rightarrow> [] | Some h \<Rightarrow> TrimSpace h)\<rparr>"
proof -
  have "Fields (TrimRight (ch @ '' '' @ raw @ [LF]) [CR, LF]) = [ch, raw]"
    using assms TrimRight_line2 [of raw "ch @ '' ''"] digits_visible
    by (simp add: Fields_word_Cons Fields_word)
  then show ?thesis
    using assms by (simp add: ParseLine_def isChannelID_digits split: option.split)
qed

lemma ParseLine_serial:
  assumes "visible_string raw" and "raw \<noteq> []"
  shows "ParseLine (raw @ [LF]) =
    \<lparr>rq_Channel = [], rq_Host = (case PathUnescape raw of None \<Rightarrow> [] | Some h \<Rightarrow> TrimSpace h)\<rparr>"
  using assms by (simp add: ParseLine_def TrimRight_line Fields_word split: option.split)

lemma ParseLine_channel: "rq_Channel (ParseLine line) = [] \<or> isChannelID (rq_Channel (ParseLine line))"
  by (auto simp: ParseLine_def Let_def split: list.splits option.splits prod.splits if_splits)

lemma FormatReply_lines:
  assumes "ch = [] \<or> isChannelID ch" and "LF \<notin> set tag"
  shows "\<exists>body. FormatReply ch ok tag = body @ [LF] \<and> LF \<notin> set body"
proof -
  have "LF \<notin> set ch" using assms(1) by (auto simp: isChannelID_digits list_all_iff is_digit_def)
  with assms(2) show ?thesis by (auto simp: FormatReply_def)
qed

subsection \<open>The loop\<close>

text \<open>The request lines of an input: its pieces between newlines, the last one only if it is not empty.\<close>

definition input_lines :: "string \<Rightarrow> string list" where
  "input_lines inp =
     map (\<lambda>l. l @ [LF]) (butlast (Split inp LF))
     @ (if last (Split inp LF) = [] then [] else [last (Split inp LF)])"

fun replies_from :: "(nat \<Rightarrow> turn) \<Rightarrow> Duration \<Rightarrow> nat \<Rightarrow> string list \<Rightarrow> string list" where
  "replies_from turns reqTimeout i [] = []"
| "replies_from turns reqTimeout i (l # ls) =
     reply_for (turns i) reqTimeout l # replies_from turns reqTimeout (Suc i) ls"

definition smooth :: "turn \<Rightarrow> bool" where
  "smooth tn \<longleftrightarrow> \<not> tn_cancelled tn \<and> tn_write tn = None \<and> tn_flush tn = None"

lemma length_replies_from [simp]: "length (replies_from turns T i ls) = length ls"
  by (induction ls arbitrary: i) auto

lemma ReadString_eof:
  assumes "ReadString inp LF = (line, rest, True)"
  shows "input_lines inp = (if line = [] then [] else [line])"
proof -
  have "line = inp" "LF \<notin> set inp"
    using assms by (auto simp: ReadString_def dropWhile_eq_Nil_conv split: list.splits)
  then show ?thesis by (simp add: input_lines_def Split_single)
qed

lemma ReadString_line:
  assumes "ReadString inp LF = (line, rest, False)"
  shows "line \<noteq> []" and "input_lines inp = line # input_lines rest"
proof -
  from assms obtain c where d: "dropWhile (\<lambda>c. c \<noteq> LF) inp = c # rest"
    and line: "line = takeWhile (\<lambda>c. c \<noteq> LF) inp @ [LF]"
    by (auto simp: ReadString_def split: list.splits)
  let ?a = "takeWhile (\<lambda>c. c \<noteq> LF) inp"
  have "c = LF" using d hd_dropWhile [of "\<lambda>c. c \<noteq> LF" inp] by simp
  then have inp: "inp = ?a @ LF # rest" using d takeWhile_dropWhile_id [of "\<lambda>c. c \<noteq> LF" inp] by simp
  have "LF \<notin> set ?a" by (auto dest: set_takeWhileD)
  then have "Split inp LF = ?a # Split rest LF" using Split_append [of LF ?a rest] inp by simp
  then show "input_lines inp = line # input_lines rest" by (simp add: input_lines_def line)
  show "line \<noteq> []" by (simp add: line)
qed

lemma loop_prefix: "prefix (fst (loop turns T i inp)) (replies_from turns T i (input_lines inp))"
proof (induction turns T i inp rule: loop.induct)
  case (1 turns T i inp)
  obtain line rest eof where rs: "ReadString inp LF = (line, rest, eof)" by (metis prod_cases3)
  show ?case
  proof (cases eof)
    case True
    then show ?thesis
      using rs ReadString_eof [of inp line rest]
      by (subst loop.simps) (simp split: option.split)
  next
    case False
    with rs have rs': "ReadString inp LF = (line, rest, False)" by simp
    note l = ReadString_line [OF rs']
    show ?thesis
      using "1.IH" [OF _ rs' [symmetric] refl _ _ _ refl] l rs'
      by (subst loop.simps)
        (auto simp: case_prod_beta split: option.split)
  qed
qed

lemma loop_smooth:
  assumes "\<And>k. k < length (input_lines inp) \<Longrightarrow> smooth (turns (i + k))"
  shows "loop turns T i inp = (replies_from turns T i (input_lines inp), None)"
  using assms
proof (induction turns T i inp rule: loop.induct)
  case (1 turns T i inp)
  obtain line rest eof where rs: "ReadString inp LF = (line, rest, eof)" by (metis prod_cases3)
  show ?case
  proof (cases eof)
    case True
    then show ?thesis
      using rs ReadString_eof [of inp line rest] "1.prems"
      by (subst loop.simps) (auto simp: smooth_def split: if_splits)
  next
    case False
    with rs have rs': "ReadString inp LF = (line, rest, False)" by simp
    note l = ReadString_line [OF rs']
    have sm: "smooth (turns i)" using "1.prems" [of 0] l by simp
    have "loop turns T (Suc i) rest = (replies_from turns T (Suc i) (input_lines rest), None)"
    proof (rule "1.IH" [OF _ rs' [symmetric] refl])
      show "smooth (turns (Suc i + k))" if "k < length (input_lines rest)" for k
        using "1.prems" [of "Suc k"] l that by simp
    qed (use sm l False in \<open>auto simp: smooth_def\<close>)
    then show ?thesis
      using rs l False sm by (subst loop.simps) (auto simp: smooth_def)
  qed
qed

subsection \<open>Properties\<close>

text \<open>
  C11: the helper's reply is what Redis says. To a line with a channel and the escaped name of a
  host the helper answers either ERR or OK with a tag, on that channel; and it answers OK with
  a given tag exactly when both lookups are answered, the server holds, unexpired at the time
  of the first, the bytes of a route for that host that names the tag as its tunnel, and,
  unexpired at the time of the second, the bytes of a status of that tunnel that says "up" and
  is not older than the maximum age. (No other tunnel is ever tried.)
\<close>

theorem reply_follows_redis:
  assumes "redis_server srv view" and "tn_bus tn T = redis_bus srv c r1 t1 r2 t2"
    and "list_all is_digit ch" and "ch \<noteq> []" and "visible_string raw" and "raw \<noteq> []"
    and "encodes raw host" and "visible_string host" and "host \<noteq> []"
  shows "(reply_for tn T (ch @ '' '' @ raw @ [LF]) = ch @ '' ERR'' @ [LF]
      \<or> (\<exists>tag. reply_for tn T (ch @ '' '' @ raw @ [LF]) = ch @ '' OK tag='' @ tag @ [LF]))
    \<and> (reply_for tn T (ch @ '' '' @ raw @ [LF]) = ch @ '' OK tag='' @ tag @ [LF] \<longleftrightarrow>
        tag \<noteq> [] \<and> (\<exists>rb route sb snap.
          live (view r1 (RouteKey host)) t1 = Some rb \<and> unmarshal_route rb = Some route \<and> rt_Tunnel route = tag
        \<and> live (view r2 (StatusKey tag)) t2 = Some sb \<and> unmarshal_status sb = Some snap
        \<and> hs_State snap = StateUp \<and> \<not> (0 < maxAge c \<and> maxAge c < Sub t2 (hs_CheckedAt snap)))
        \<and> (\<forall>e. rd_Get srv r1 t1 (RouteKey host) \<noteq> GetErr e) \<and> (\<forall>e. rd_Get srv r2 t2 (StatusKey tag) \<noteq> GetErr e))"
proof -
  let ?d = "Decide (redis_bus srv c r1 t1 r2 t2) host"
  have "ParseLine (ch @ '' '' @ raw @ [LF]) = \<lparr>rq_Channel = ch, rq_Host = host\<rparr>"
    using ParseLine_concurrent [OF assms(3-6)] PathUnescape_encodes [OF assms(7)] assms(8) by simp
  then have reply: "reply_for tn T (ch @ '' '' @ raw @ [LF]) = FormatReply ch (fst ?d) (snd ?d)"
    using assms(2,9) by (simp add: reply_for_def decideWithTimeout_def case_prod_beta)
  have d: "?d = (False, []) \<or> (\<exists>tag. tag \<noteq> [] \<and> ?d = (True, tag))"
    using Decide_True [of "redis_bus srv c r1 t1 r2 t2" host] Decide_False by (metis (full_types) prod.collapse)
  have "FormatReply ch (fst ?d) (snd ?d) = ch @ '' OK tag='' @ tag @ [LF] \<longleftrightarrow> tag \<noteq> [] \<and> ?d = (True, tag)"
    using d assms(4) by (auto simp: FormatReply_def)
  moreover have "FormatReply ch (fst ?d) (snd ?d) = ch @ '' ERR'' @ [LF] \<or> (\<exists>tag. FormatReply ch (fst ?d) (snd ?d) = ch @ '' OK tag='' @ tag @ [LF])"
    using d assms(4) by (auto simp: FormatReply_def)
  ultimately show ?thesis unfolding reply Decide_redis_iff [OF assms(1,9)] by blast
qed

definition redis_turn :: "mem_state \<Rightarrow> turn" where
  "redis_turn r = \<lparr>tn_cancelled = False, tn_bus = (\<lambda>_. redis_bus mem_redis \<lparr>maxAge = 0\<rparr> r 6 r 7), tn_write = None, tn_flush = None\<rparr>"

theorem reply_follows_redis_witness:
  "\<exists>r. reply_for (redis_turn r) 9 (''7'' @ '' '' @ ''wiki%2Ehelix'' @ [LF]) = ''7'' @ '' OK tag='' @ ''eu'' @ [LF]"
proof -
  obtain b where b: "marshal_status up_snapshot = Some b" using up_snapshot_stored by blast
  let ?r = "mem_empty\<lparr>ms_data := [RouteKey ''wiki.helix'' \<mapsto> (marshal_route one_route, None), StatusKey ''eu'' \<mapsto> entry_for b 5 (15 * Second)]\<rparr>"
  have "snapshot_ok up_snapshot" "route_ok one_route"
    by (simp_all add: snapshot_ok_def up_snapshot_def StateUp_def route_ok_def one_route_def visible_utf8 visible_def)
  then have u: "unmarshal_status b = Some up_snapshot" "unmarshal_route (marshal_route one_route) = Some one_route"
    using unmarshal_marshal_status [OF b] unmarshal_marshal_route by blast+
  have e: "encodes ''wiki%2Ehelix'' ''wiki.helix''" by (intro enc_lit enc_nil enc_hex [where a = 2 and b = 14]) (simp_all add: hex_val_def)
  have sel: "rt_Tunnel one_route = ''eu''" "hs_State up_snapshot = StateUp" by (simp_all add: one_route_def up_snapshot_def)
  have t: "tn_bus (redis_turn ?r) 9 = redis_bus mem_redis \<lparr>maxAge = 0\<rparr> ?r 6 ?r 7" by (simp add: redis_turn_def)
  have "reply_for (redis_turn ?r) 9 (''7'' @ '' '' @ ''wiki%2Ehelix'' @ [LF]) = ''7'' @ '' OK tag='' @ ''eu'' @ [LF]"
    by (rule reply_follows_redis [OF mem.redis_server_axioms t _ _ _ _ e, THEN conjunct2, THEN iffD2])
      (auto simp: u sel live_def entry_for_def is_digit_def visible_def mem_get_def mem_empty_def Second_def)
  then show ?thesis by blast
qed

text \<open>
  C29: both framings of a Squid request line are read back: a channel number and a
  percent-encoded host, or the host alone, whatever bytes the encoder chose to escape.
\<close>

theorem ParseLine_framings:
  assumes "list_all is_digit ch" and "ch \<noteq> []" and "visible_string raw" and "raw \<noteq> []"
    and "encodes raw host" and "visible_string host"
  shows "ParseLine (ch @ '' '' @ raw @ [LF]) = \<lparr>rq_Channel = ch, rq_Host = host\<rparr>
    \<and> ParseLine (raw @ [LF]) = \<lparr>rq_Channel = [], rq_Host = host\<rparr>"
  using assms PathUnescape_encodes [OF assms(5)] ParseLine_concurrent [OF assms(1-4)]
  by (simp add: ParseLine_serial)

theorem ParseLine_framings_witness:
  "ParseLine (''7'' @ '' '' @ ''a%2Db.helix'' @ [LF]) = \<lparr>rq_Channel = ''7'', rq_Host = ''a-b.helix''\<rparr>
    \<and> ParseLine (''a%2Db.helix'' @ [LF]) = \<lparr>rq_Channel = [], rq_Host = ''a-b.helix''\<rparr>"
proof (rule ParseLine_framings)
  show "encodes ''a%2Db.helix'' ''a-b.helix''"
    by (intro enc_lit enc_nil enc_hex [where a = 2 and b = 13]) (simp_all add: hex_val_def)
qed (simp_all add: is_digit_def visible_def)

text \<open>
  C28: the replies written are always the answers to the first request lines, in order, however
  the process is cancelled and its pipe fails; and until it is cancelled and while its pipe
  works, the loop writes exactly one reply for every request line, the last line included when
  it lacks its newline, and returns without error at the end of the input.
\<close>

theorem loop_answers_every_line:
  "prefix (fst (loop turns reqTimeout 0 inp)) (replies_from turns reqTimeout 0 (input_lines inp))
    \<and> ((\<forall>k < length (input_lines inp). smooth (turns k)) \<longrightarrow>
        loop turns reqTimeout 0 inp = (replies_from turns reqTimeout 0 (input_lines inp), None)
        \<and> length (fst (loop turns reqTimeout 0 inp)) = length (input_lines inp))"
  using loop_prefix loop_smooth [of inp turns 0 reqTimeout] by simp

definition idle_turn :: turn where
  "idle_turn = \<lparr>tn_cancelled = False,
     tn_bus = (\<lambda>_. \<lparr>bus_GetRoute = (\<lambda>_. Inl ErrRouteNotFound), bus_GetStatus = (\<lambda>p. (down_snapshot p 0, None))\<rparr>),
     tn_write = None, tn_flush = None\<rparr>"

theorem loop_answers_every_line_witness:
  "loop (\<lambda>_. idle_turn) 2 0 (''1 a'' @ [LF] @ ''2 b'')
     = (replies_from (\<lambda>_. idle_turn) 2 0 (input_lines (''1 a'' @ [LF] @ ''2 b'')), None)
    \<and> length (fst (loop (\<lambda>_. idle_turn) 2 0 (''1 a'' @ [LF] @ ''2 b''))) = length (input_lines (''1 a'' @ [LF] @ ''2 b''))"
  using loop_answers_every_line [of "\<lambda>_. idle_turn" 2 "''1 a'' @ [LF] @ ''2 b''"]
  by (simp add: smooth_def idle_turn_def del: loop.simps append.simps)

text \<open>
  A reply is one line that starts with the channel number of its request, if it had one,
  and says ERR unless the verdict is to allow, provided no tunnel name holds a newline.
\<close>

theorem reply_shape:
  assumes "\<forall>t. Decide (tn_bus tn reqTimeout) (rq_Host (ParseLine line)) = (True, t) \<longrightarrow> LF \<notin> set t"
  shows "\<exists>answer. reply_for tn reqTimeout line =
      (if rq_Channel (ParseLine line) = [] then [] else rq_Channel (ParseLine line) @ '' '') @ answer @ [LF]
    \<and> LF \<notin> set (rq_Channel (ParseLine line)) \<and> LF \<notin> set answer
    \<and> (answer = ''ERR'' \<or> (\<exists>t. answer = ''OK tag='' @ t
         \<and> Decide (tn_bus tn reqTimeout) (rq_Host (ParseLine line)) = (True, t)))"
proof -
  let ?req = "ParseLine line"
  obtain ok tag where d: "decideWithTimeout (tn_bus tn) (rq_Host ?req) reqTimeout = (ok, tag)" by fastforce
  have ch: "LF \<notin> set (rq_Channel ?req)"
    using ParseLine_channel [of line] by (auto simp: isChannelID_digits list_all_iff is_digit_def)
  have t: "tag \<noteq> [] \<and> Decide (tn_bus tn reqTimeout) (rq_Host ?req) = (True, tag)" if ok
    using d that by (auto simp: decideWithTimeout_def Decide_True split: if_splits)
  show ?thesis
    using ch t assms
    by (cases ok) (auto simp: reply_for_def Let_def d FormatReply_def)
qed

theorem reply_shape_witness:
  "\<exists>answer. reply_for idle_turn 2 ''7 wiki'' =
      (if rq_Channel (ParseLine ''7 wiki'') = [] then [] else rq_Channel (ParseLine ''7 wiki'') @ '' '') @ answer @ [LF]
    \<and> LF \<notin> set (rq_Channel (ParseLine ''7 wiki'')) \<and> LF \<notin> set answer
    \<and> (answer = ''ERR'' \<or> (\<exists>t. answer = ''OK tag='' @ t
         \<and> Decide (tn_bus idle_turn 2) (rq_Host (ParseLine ''7 wiki'')) = (True, t)))"
  by (rule reply_shape) (simp add: idle_turn_def Decide_True)

end
