(* ===== verification/Healthd.thy ===== *)
theory Healthd
  imports Redis_Bus
begin

text \<open>
  \<open>control-plane/cmd/healthd/main.go\<close>: sampling a tunnel, the sample-decide cycle
  \<open>pollOnce\<close>, the per-profile poll loop \<open>runProfile\<close>, and the naming helpers.
  What one poll meets outside the process is the record \<open>poll_env\<close>: the clock readings,
  the gluetun control API, the \<open>wg\<close> binary, the network behind the tunnel proxy.
\<close>

subsection \<open>Definitions\<close>

subsubsection \<open>Sampling\<close>

record liveSampler =
  ls_ctrl :: ControlClient
  ls_wg :: WGReader
  ls_ifName :: string
  ls_live :: "TunnelProxyProber option"

record poll_env =
  pe_now :: time          \<comment> \<open>\<open>time.Now\<close> at the start of the sample\<close>
  pe_failed_at :: time    \<comment> \<open>\<open>time.Now\<close> when a failed sample is turned into a snapshot\<close>
  pe_http :: http
  pe_exec :: exec
  pe_tunnel :: "string \<Rightarrow> http"  \<comment> \<open>GET through the proxy of that URL\<close>
  pe_set_at :: time       \<comment> \<open>the server's clock at the SET and at the PUBLISH\<close>
  pe_publish_at :: time

definition sample :: "poll_env \<Rightarrow> liveSampler \<Rightarrow> string \<Rightarrow> HealthSnapshot \<times> gluetun_error option" where
  "sample env s profile =
     (let snap = zero_HealthSnapshot\<lparr>hs_Profile := profile, hs_CheckedAt := pe_now env\<rparr> in
      case gluetun_EgressIP (pe_http env) (ls_ctrl s) profile of
        Inl err \<Rightarrow> (snap, Some err)
      | Inr egress \<Rightarrow>
          let snap = snap\<lparr>hs_EgressIP := egress\<rparr>;
              snap = (case wg_Sample (pe_exec env) (ls_wg s) (ls_ifName s) of
                  Inr (rx, tx, latest) \<Rightarrow> snap\<lparr>hs_Rx := rx, hs_Tx := tx, hs_LastHandshake := latest\<rparr>
                | Inl werr \<Rightarrow> snap);
              snap = (case ls_live s of
                  None \<Rightarrow> snap
                | Some p \<Rightarrow>
                    (case Probe (pe_tunnel env (tp_Proxy p)) p of
                       None \<Rightarrow> snap\<lparr>hs_LiveProbeAt := hs_CheckedAt snap\<rparr>
                     | Some perr \<Rightarrow> snap))
          in (snap, None))"

subsubsection \<open>One poll\<close>

definition pollOnce ::
  "poll_env \<Rightarrow> string \<Rightarrow> liveSampler \<Rightarrow> DataPlaneEvaluator \<Rightarrow> HealthSnapshot \<Rightarrow> string \<Rightarrow> HealthSnapshot" where
  "pollOnce env profile s eval prev hostIP =
     (case sample env s profile of
        (cur, Some err) \<Rightarrow>
          zero_HealthSnapshot\<lparr>hs_Profile := profile, hs_State := StateDown, hs_CheckedAt := pe_failed_at env\<rparr>
      | (cur, None) \<Rightarrow> cur\<lparr>hs_State := Evaluate eval prev cur hostIP\<rparr>)"

subsubsection \<open>The poll loop\<close>

record run_config =
  rc_ttlSeconds :: int
  rc_hostIP :: string

text \<open>The expiry \<open>SetStatus\<close> gives a status: the seconds as a 64-bit count of nanoseconds.\<close>

definition status_ttl :: "run_config \<Rightarrow> Duration" where
  "status_ttl c = (if 0 < rc_ttlSeconds c then wrap_int64 (rc_ttlSeconds c * Second) else 0)"

text \<open>The variables of \<open>runProfile\<close> that live from tick to tick.\<close>

record prof_state =
  ps_prev :: HealthSnapshot
  ps_lastReported :: vpn_State

definition prof_init :: prof_state where
  "prof_init = \<lparr>ps_prev = zero_HealthSnapshot, ps_lastReported = StateUnknown\<rparr>"

text \<open>
  The closure \<open>tick\<close>: the snapshot it hands to \<open>SetStatus\<close>, the event it hands to \<open>PublishEvent\<close>,
  if any, with the outcome of that call, the new loop variables and the server afterwards.
  Errors of the bus are only logged: the state counts as reported even if publishing failed.
\<close>

definition tick ::
  "'r redis \<Rightarrow> run_config \<Rightarrow> string \<Rightarrow> liveSampler \<Rightarrow> DataPlaneEvaluator \<Rightarrow> poll_env
    \<Rightarrow> prof_state \<Rightarrow> 'r \<Rightarrow> HealthSnapshot \<times> (Event \<times> go_error option) option \<times> prof_state \<times> 'r" where
  "tick srv c profile s eval env st r =
     (let cur = pollOnce env profile s eval (ps_prev st) (rc_hostIP c);
          (_, r1) = SetStatus srv r (pe_set_at env) cur (rc_ttlSeconds c);
          (ev, last, r2) =
            (if hs_State cur \<noteq> ps_lastReported st then
               (let e = \<lparr>ev_ProfileID = profile, ev_State = hs_State cur\<rparr>;
                    (err, r2) = PublishEvent srv r1 (pe_publish_at env) e
                in (Some (e, err), hs_State cur, r2))
             else (None, ps_lastReported st, r1));
          prev = (if hs_State cur = StateUp \<or> 0 < hs_Tx cur \<or> \<not> IsZero (hs_LastHandshake cur)
                  then cur else ps_prev st)
      in (cur, ev, \<lparr>ps_prev = prev, ps_lastReported = last\<rparr>, r2))"

text \<open>
  \<open>runProfile\<close> until its context ends, one tick per element of \<open>envs\<close>: the first at
  once, the others when the ticker fires. The result is the snapshots of the ticks, the
  calls of \<open>PublishEvent\<close> with their outcomes, and the final state.
\<close>

fun runProfile ::
  "'r redis \<Rightarrow> run_config \<Rightarrow> string \<Rightarrow> liveSampler \<Rightarrow> DataPlaneEvaluator \<Rightarrow> poll_env list
    \<Rightarrow> prof_state \<Rightarrow> 'r \<Rightarrow> HealthSnapshot list \<times> (Event \<times> go_error option) list \<times> prof_state \<times> 'r" where
  "runProfile srv c profile s eval [] st r = ([], [], st, r)"
| "runProfile srv c profile s eval (env # envs) st r =
     (let (cur, ev, st1, r1) = tick srv c profile s eval env st r;
          (curs, evs, st2, r2) = runProfile srv c profile s eval envs st1 r1
      in (cur # curs, (case ev of None \<Rightarrow> [] | Some e \<Rightarrow> [e]) @ evs, st2, r2))"

subsubsection \<open>Configuration helpers\<close>

definition splitCSV :: "string \<Rightarrow> string list" where
  "splitCSV s = filter (\<lambda>p. p \<noteq> []) (map TrimSpace (Split s CHR '',''))"

text \<open>
  \<open>strings.ToUpper\<close>, as far as the case distinction of \<open>envKey\<close> sees it: the ASCII
  letters, and the two other runes whose upper case is an ASCII letter, the dotless i and
  the long s.
\<close>

definition upper_rune :: "nat \<Rightarrow> nat" where
  "upper_rune r = (if 97 \<le> r \<and> r \<le> 122 then r - 32 else if r = 0x131 then 73
                   else if r = 0x17F then 83 else r)"

definition envKey :: "string \<Rightarrow> string" where
  "envKey profile =
     map (\<lambda>(r, _). let u = upper_rune r in
            if 65 \<le> u \<and> u \<le> 90 \<or> 48 \<le> u \<and> u \<le> 57 then char_of u else CHR ''_'')
       (runes profile)"

text \<open>The per-profile lookups of \<open>loadConfig\<close> over the environment \<open>getenv\<close> (unset is empty).\<close>

definition gluetunBase :: "(string \<Rightarrow> string) \<Rightarrow> string \<Rightarrow> string" where
  "gluetunBase getenv profile =
     (let port = (if getenv ''GLUETUN_CONTROL_PORT'' \<noteq> [] then getenv ''GLUETUN_CONTROL_PORT'' else ''8000'');
          baseDefault = (if getenv ''HEALTHD_GLUETUN_BASE'' \<noteq> [] then getenv ''HEALTHD_GLUETUN_BASE''
                         else ''http://127.0.0.1:'' @ port);
          v = getenv (''HEALTHD_GLUETUN_BASE_'' @ envKey profile)
      in if v \<noteq> [] then v else baseDefault)"

definition wgIf :: "(string \<Rightarrow> string) \<Rightarrow> string \<Rightarrow> string" where
  "wgIf getenv profile =
     (let v = getenv (''HEALTHD_WG_IF_'' @ envKey profile) in
      if v \<noteq> [] then v
      else if getenv ''HEALTHD_WG_IF'' \<noteq> [] then getenv ''HEALTHD_WG_IF'' else profile)"

definition tunnelProxy :: "(string \<Rightarrow> string) \<Rightarrow> string \<Rightarrow> string" where
  "tunnelProxy getenv profile =
     (let v = getenv (''HEALTHD_TUNNEL_PROXY_'' @ envKey profile) in
      if v \<noteq> [] then v else getenv ''HEALTHD_TUNNEL_PROXY'')"

definition buildLivenessProber ::
  "(string \<Rightarrow> string option) \<Rightarrow> string \<Rightarrow> string \<Rightarrow> Duration \<Rightarrow> TunnelProxyProber option" where
  "buildLivenessProber url_host proxyURL probeTarget probeTimeout =
     (if proxyURL = [] then None
      else case NewTunnelProxyProber url_host proxyURL probeTarget probeTimeout of
          Inl err \<Rightarrow> None
        | Inr p \<Rightarrow> Some p)"

subsection \<open>A snapshot tells the truth about its poll\<close>

lemma sample_facts:
  assumes "sample env s profile = (snap, None)"
  shows "hs_Profile snap = profile" and "hs_CheckedAt snap = pe_now env"
    and "gluetun_EgressIP (pe_http env) (ls_ctrl s) profile = Inr (hs_EgressIP snap)"
    and "hs_LastHandshake snap \<noteq> 0 \<or> hs_Tx snap \<noteq> 0 \<Longrightarrow>
      wg_Sample (pe_exec env) (ls_wg s) (ls_ifName s) = Inr (hs_Rx snap, hs_Tx snap, hs_LastHandshake snap)"
    and "hs_LiveProbeAt snap \<noteq> 0 \<Longrightarrow>
      hs_LiveProbeAt snap = pe_now env \<and>
      (\<exists>p. ls_live s = Some p \<and> Probe (pe_tunnel env (tp_Proxy p)) p = None)"
  using assms
  by (auto simp: sample_def Let_def zero_HealthSnapshot_def split: sum.splits option.splits prod.splits)

lemma pollOnce_Profile [simp]: "hs_Profile (pollOnce env p s eval prev h) = p"
  by (auto simp: pollOnce_def zero_HealthSnapshot_def sample_facts(1) split: prod.splits option.splits)

lemma pollOnce_two_valued: "hs_State (pollOnce env p s eval prev h) \<in> {StateUp, StateDown}"
  using DecideHealth_two_valued
  by (auto simp: pollOnce_def Evaluate_def split: prod.splits option.splits)

lemma up_evidence_State [simp]: "up_evidence prev (cur\<lparr>hs_State := x\<rparr>) h d = up_evidence prev cur h d"
  by (simp add: up_evidence_def egress_ok_def)

text \<open>
  What "up" rests on in the outside world: an egress address from the control API, and
  either the counters and handshake of the \<open>wg\<close> binary or a request that came back
  through the tunnel proxy during this very poll.
\<close>

definition poll_evidence :: "poll_env \<Rightarrow> liveSampler \<Rightarrow> string \<Rightarrow> HealthSnapshot \<Rightarrow> string \<Rightarrow> Duration \<Rightarrow> bool" where
  "poll_evidence env s profile prev hostIP d \<longleftrightarrow>
     (\<exists>egress. gluetun_EgressIP (pe_http env) (ls_ctrl s) profile = Inr egress
        \<and> egress \<noteq> [] \<and> (hostIP = [] \<or> egress \<noteq> hostIP)) \<and>
     ((\<exists>rx tx latest. wg_Sample (pe_exec env) (ls_wg s) (ls_ifName s) = Inr (rx, tx, latest)
         \<and> within latest (pe_now env) d \<and> unat (hs_Tx prev) < unat tx)
      \<or> (\<exists>p. ls_live s = Some p \<and> Probe (pe_tunnel env (tp_Proxy p)) p = None))"

lemma pollOnce_up:
  assumes "hs_State (pollOnce env p s \<lparr>Freshness = d\<rparr> prev h) = StateUp" and "d < maxDuration"
  shows "poll_evidence env s p prev h d" and "0 < d"
    and "hs_CheckedAt (pollOnce env p s \<lparr>Freshness = d\<rparr> prev h) = pe_now env"
proof -
  obtain cur where s: "sample env s p = (cur, None)"
    and cur: "pollOnce env p s \<lparr>Freshness = d\<rparr> prev h = cur\<lparr>hs_State := StateUp\<rparr>"
    and up: "DecideHealth prev cur h d = StateUp"
    using assms(1) by (auto simp: pollOnce_def Evaluate_def split: prod.splits option.splits)
  note f = sample_facts [OF s]
  have ev: "up_evidence prev cur h d" using up assms(2) by (simp add: DecideHealth_spec split: if_splits)
  show "0 < d" using ev by (simp add: up_evidence_def)
  show "hs_CheckedAt (pollOnce env p s \<lparr>Freshness = d\<rparr> prev h) = pe_now env"
    using cur f(2) by simp
  show "poll_evidence env s p prev h d"
    using ev f unfolding poll_evidence_def up_evidence_def egress_ok_def
    by (auto simp: within_def)
qed

subsection \<open>Events are the transitions\<close>

lemma tick_proj:
  assumes "tick srv c p s eval env st r = (cur, ev, st', r')"
  shows "cur = pollOnce env p s eval (ps_prev st) (rc_hostIP c)"
    and "map_option fst ev = (if hs_State cur = ps_lastReported st then None
               else Some \<lparr>ev_ProfileID = p, ev_State = hs_State cur\<rparr>)"
    and "ps_lastReported st' = hs_State cur"
    and "ps_prev st' = (if hs_State cur = StateUp \<or> 0 < hs_Tx cur \<or> hs_LastHandshake cur \<noteq> 0
                        then cur else ps_prev st)"
  using assms by (auto simp: tick_def Let_def IsZero_def split: prod.splits if_splits)

lemma remdups_adj_Cons_transitions:
  "tl (remdups_adj (a # b # xs)) = (if a = b then [] else [b]) @ tl (remdups_adj (b # xs))"
proof -
  have "remdups_adj (b # xs) = b # tl (remdups_adj (b # xs))"
    by (simp add: remdups_adj_Cons split: list.split)
  then show ?thesis by (auto simp: remdups_adj_Cons split: list.split)
qed

lemma runProfile_events:
  assumes "runProfile srv c p s eval envs st r = (curs, evs, st', r')"
  shows "map fst evs = map (\<lambda>x. \<lparr>ev_ProfileID = p, ev_State = x\<rparr>)
                 (tl (remdups_adj (ps_lastReported st # map hs_State curs)))"
  using assms
proof (induction envs arbitrary: st r curs evs)
  case Nil
  then show ?case by simp
next
  case (Cons env envs)
  obtain cur ev st1 r1 where t: "tick srv c p s eval env st r = (cur, ev, st1, r1)"
    by (metis prod_cases4)
  obtain curs1 evs1 where u: "runProfile srv c p s eval envs st1 r1 = (curs1, evs1, st', r')"
    and e: "curs = cur # curs1" "evs = (case ev of None \<Rightarrow> [] | Some e \<Rightarrow> [e]) @ evs1"
    using Cons.prems t by (auto split: prod.splits)
  show ?case
    using Cons.IH [OF u] tick_proj(2,3) [OF t] e
    by (cases ev) (auto simp: remdups_adj_Cons_transitions simp del: remdups_adj.simps split: if_splits)
qed

subsection \<open>What reaches the server\<close>

text \<open>A server that notes the commands it is sent, whatever becomes of them.\<close>

datatype command = Cmd_Set string string Duration | Cmd_Publish string string

definition tap :: "'r redis \<Rightarrow> ('r \<times> command list) redis" where
  "tap srv =
     \<lparr>rd_Get = (\<lambda>(r, log). rd_Get srv r),
      rd_Set = (\<lambda>(r, log) now k v ttl. case rd_Set srv r now k v ttl of (e, r') \<Rightarrow> (e, r', log @ [Cmd_Set k v ttl])),
      rd_Publish = (\<lambda>(r, log) now ch v. case rd_Publish srv r now ch v of (e, r') \<Rightarrow> (e, r', log @ [Cmd_Publish ch v]))\<rparr>"

definition set_commands :: "int \<Rightarrow> HealthSnapshot \<Rightarrow> command list" where
  "set_commands ttl cur =
     (case marshal_status cur of
        None \<Rightarrow> []
      | Some b \<Rightarrow> [Cmd_Set (StatusKey (hs_Profile cur)) b (if 0 < ttl then wrap_int64 (ttl * Second) else 0)])"

lemma SetStatus_tap:
  "SetStatus (tap srv) (r, log) now cur ttl = (case SetStatus srv r now cur ttl of (e, r') \<Rightarrow> (e, r', log @ set_commands ttl cur))"
  by (auto simp: SetStatus_def tap_def set_commands_def Let_def split: option.split prod.split)

lemma PublishEvent_tap:
  "PublishEvent (tap srv) (r, log) now e =
     (case PublishEvent srv r now e of (x, r') \<Rightarrow> (x, r', log @ [Cmd_Publish eventsChannel (marshal_event e)]))"
  by (auto simp: PublishEvent_def tap_def split: option.split prod.split)

lemma tick_tap:
  assumes "tick srv c p s eval env st r = (cur, ev, st', r')"
  shows "tick (tap srv) c p s eval env st (r, log) = (cur, ev, st', r', log @ set_commands (rc_ttlSeconds c) cur
    @ map (\<lambda>e. Cmd_Publish eventsChannel (marshal_event (fst e))) (case ev of None \<Rightarrow> [] | Some e \<Rightarrow> [e]))"
  using assms by (auto simp: tick_def Let_def SetStatus_tap PublishEvent_tap split: prod.splits if_splits)

fun publication :: "command \<Rightarrow> (string \<times> string) option" where
  "publication (Cmd_Publish ch v) = Some (ch, v)"
| "publication (Cmd_Set k v ttl) = None"

fun storing :: "command \<Rightarrow> (string \<times> string \<times> Duration) option" where
  "storing (Cmd_Set k v ttl) = Some (k, v, ttl)"
| "storing (Cmd_Publish ch v) = None"

lemma runProfile_tap:
  assumes "runProfile srv c p s eval envs st r = (curs, evs, st', r')"
  shows "\<exists>cmds. runProfile (tap srv) c p s eval envs st (r, log) = (curs, evs, st', r', log @ cmds)
    \<and> List.map_filter publication cmds = map (\<lambda>e. (eventsChannel, marshal_event (fst e))) evs
    \<and> List.map_filter storing cmds = List.map_filter (\<lambda>cur. map_option (\<lambda>b. (StatusKey p, b, status_ttl c)) (marshal_status cur)) curs"
  using assms
proof (induction envs arbitrary: st r curs evs log)
  case Nil
  then show ?case by (simp add: map_filter_simps)
next
  case (Cons env envs)
  obtain cur ev st1 r1 where t: "tick srv c p s eval env st r = (cur, ev, st1, r1)"
    by (metis prod_cases4)
  obtain curs1 evs1 where u: "runProfile srv c p s eval envs st1 r1 = (curs1, evs1, st', r')"
    and e: "curs = cur # curs1" "evs = (case ev of None \<Rightarrow> [] | Some e \<Rightarrow> [e]) @ evs1"
    using Cons.prems t by (auto split: prod.splits)
  have p: "hs_Profile cur = p" using tick_proj(1) [OF t] by simp
  let ?first = "set_commands (rc_ttlSeconds c) cur
    @ map (\<lambda>e. Cmd_Publish eventsChannel (marshal_event (fst e))) (case ev of None \<Rightarrow> [] | Some e \<Rightarrow> [e])"
  from Cons.IH [OF u, of "log @ ?first"] obtain cmds where c: "runProfile (tap srv) c p s eval envs st1 (r1, log @ ?first)
      = (curs1, evs1, st', r', log @ ?first @ cmds)"
    "List.map_filter publication cmds = map (\<lambda>e. (eventsChannel, marshal_event (fst e))) evs1"
    "List.map_filter storing cmds = List.map_filter (\<lambda>cur. map_option (\<lambda>b. (StatusKey p, b, status_ttl c)) (marshal_status cur)) curs1"
    by auto
  show ?case
    using c tick_tap [OF t, of log] p
    by (intro exI [of _ "?first @ cmds"])
      (auto simp: e map_filter_append map_filter_simps set_commands_def status_ttl_def split: option.split)
qed

subsection \<open>Helpers\<close>

lemma splitCSV_nonempty: "p \<in> set (splitCSV s) \<Longrightarrow> p \<noteq> []"
  by (auto simp: splitCSV_def)

lemma splitCSV_Join:
  assumes "ps \<noteq> []" and "\<And>p. p \<in> set ps \<Longrightarrow> visible_string p \<and> p \<noteq> [] \<and> CHR '','' \<notin> set p"
  shows "splitCSV (Join ps '','') = ps"
proof -
  have "Split (Join ps '','') CHR '','' = ps" using assms by (intro Split_Join) auto
  moreover have "map TrimSpace ps = ps" using assms(2) by (simp add: map_idI)
  moreover have "filter (\<lambda>p. p \<noteq> []) ps = ps" using assms(2) by (simp add: filter_id_conv)
  ultimately show ?thesis by (simp add: splitCSV_def)
qed

lemma envKey_chars: "c \<in> set (envKey p) \<Longrightarrow> c = CHR ''_'' \<or> 65 \<le> byte_of c \<and> byte_of c \<le> 90 \<or> is_digit c"
  by (auto simp: envKey_def Let_def is_digit_def split: if_splits)

lemma buildLivenessProber_Some:
  "buildLivenessProber uh u t d = Some p \<Longrightarrow> u \<noteq> [] \<and> 0 < tp_Timeout p \<and> tp_Target p \<noteq> []"
  by (auto simp: buildLivenessProber_def dest: NewTunnelProxyProber_Inr split: if_splits sum.splits)

subsection \<open>A concrete poll\<close>

text \<open>A profile \<open>eu\<close> without \<open>wg\<close> counters whose tunnel proxy answers.\<close>

definition ex_t0 :: time where "ex_t0 = 63900000000000000000"

definition ex_body :: string where
  "ex_body = print_json (JObj [(''public_ip'', JStr ''10.8.0.9'')])"

definition ex_env :: poll_env where
  "ex_env = \<lparr>pe_now = ex_t0, pe_failed_at = ex_t0, pe_http = (\<lambda>_. Response 200 ex_body),
     pe_exec = (\<lambda>_. None), pe_tunnel = (\<lambda>_ _. Response 200 ''10.8.0.9''),
     pe_set_at = ex_t0 + Second, pe_publish_at = ex_t0 + Second\<rparr>"

definition ex_sampler :: "string \<Rightarrow> liveSampler" where
  "ex_sampler p = \<lparr>ls_ctrl = \<lparr>cc_BaseURL = ''http://gluetun:8000''\<rparr>, ls_wg = \<lparr>Bin = []\<rparr>, ls_ifName = p,
     ls_live = Some \<lparr>tp_Target = ''http://echo/'', tp_Proxy = ''http://gluetun:8888'', tp_Timeout = 4 * Second\<rparr>\<rparr>"

definition ex_cfg :: run_config where
  "ex_cfg = \<lparr>rc_ttlSeconds = 15, rc_hostIP = ''192.0.2.1''\<rparr>"

definition ex_eval :: DataPlaneEvaluator where
  "ex_eval = \<lparr>Freshness = 180 * Second\<rparr>"

definition ex_snap :: HealthSnapshot where
  "ex_snap = \<lparr>hs_Profile = ''eu'', hs_State = StateUp, hs_LastHandshake = 0, hs_Rx = 0, hs_Tx = 0,
     hs_EgressIP = ''10.8.0.9'', hs_CheckedAt = ex_t0, hs_LiveProbeAt = ex_t0\<rparr>"

lemma ex_parse: "parse_json ex_body = Some (JObj [(''public_ip'', JStr ''10.8.0.9'')])"
  unfolding ex_body_def
  by (rule parse_print) (simp add: visible_utf8 visible_def)

lemma ex_body_length: "take 65536 ex_body = ex_body"
proof -
  have "length ex_body \<le> 65536"
    by (simp add: ex_body_def print_string_def runes_ascii print_rune_def)
  then show ?thesis by simp
qed

lemma ex_egress: "gluetun_EgressIP (pe_http ex_env) (ls_ctrl (ex_sampler p)) p = Inr ''10.8.0.9''"
  by (simp add: gluetun_EgressIP_def getJSON_def ex_env_def ex_body_length ex_parse
      fill_struct_def find_field_def publicIPResp_fields_def dec_string_def visible_def)

lemma ex_sample:
  "sample ex_env (ex_sampler ''eu'') ''eu'' = (ex_snap\<lparr>hs_State := []\<rparr>, None)"
proof -
  have wg: "wg_Sample (pe_exec ex_env) w i = Inl (ExecError ''transfer'')" for w i
    by (simp add: wg_Sample_def ex_env_def)
  have probe: "Probe (pe_tunnel ex_env u) p = None" for u p
    by (simp add: Probe_def ex_env_def visible_def)
  have live: "ls_live (ex_sampler ''eu'') \<noteq> None" by (simp add: ex_sampler_def)
  have now: "pe_now ex_env = ex_t0" by (simp add: ex_env_def)
  show ?thesis
    using live unfolding sample_def ex_egress wg probe now
    by (auto simp: probe ex_snap_def zero_HealthSnapshot_def)
qed

lemma ex_decide: "DecideHealth zero_HealthSnapshot (ex_snap\<lparr>hs_State := []\<rparr>) ''192.0.2.1'' (180 * Second) = StateUp"
proof -
  have "liveProbeFresh (ex_snap\<lparr>hs_State := []\<rparr>) (180 * Second)"
    by (simp add: liveProbeFresh_def IsZero_def ex_snap_def ex_t0_def Second_def)
  moreover have "hs_EgressIP (ex_snap\<lparr>hs_State := []\<rparr>) = ''10.8.0.9''" by (simp add: ex_snap_def)
  moreover have "0 < 180 * Second" by (simp add: Second_def)
  ultimately show ?thesis unfolding DecideHealth_def by simp
qed

lemma ex_poll: "pollOnce ex_env ''eu'' (ex_sampler ''eu'') ex_eval zero_HealthSnapshot (rc_hostIP ex_cfg) = ex_snap"
proof -
  have "Evaluate ex_eval zero_HealthSnapshot (ex_snap\<lparr>hs_State := []\<rparr>) (rc_hostIP ex_cfg) = StateUp"
    using ex_decide by (simp add: Evaluate_def ex_eval_def ex_cfg_def)
  then show ?thesis unfolding pollOnce_def ex_sample by (simp add: ex_snap_def)
qed

subsection \<open>Properties\<close>

text \<open>
  C15: a poll reports "up" only on evidence from outside the process: the control API named
  an egress address that is not the host's, and either the \<open>wg\<close> tables showed a handshake
  within the freshness window and more bytes sent than the baseline, or a request came back
  through the tunnel proxy in this poll. The snapshot carries the time of this poll.
\<close>

theorem pollOnce_up_has_evidence:
  assumes "hs_State (pollOnce env p s \<lparr>Freshness = d\<rparr> prev hostIP) = StateUp" and "d < maxDuration"
  shows "poll_evidence env s p prev hostIP d
    \<and> hs_CheckedAt (pollOnce env p s \<lparr>Freshness = d\<rparr> prev hostIP) = pe_now env"
  using pollOnce_up [OF assms] by blast

theorem pollOnce_up_has_evidence_witness:
  "poll_evidence ex_env (ex_sampler ''eu'') ''eu'' zero_HealthSnapshot ''192.0.2.1'' (180 * Second)
    \<and> hs_CheckedAt (pollOnce ex_env ''eu'' (ex_sampler ''eu'') \<lparr>Freshness = 180 * Second\<rparr> zero_HealthSnapshot ''192.0.2.1'')
      = pe_now ex_env"
  using pollOnce_up_has_evidence [of ex_env "''eu''" "ex_sampler ''eu''" "180 * Second" zero_HealthSnapshot "''192.0.2.1''"]
    ex_poll by (simp add: ex_eval_def ex_cfg_def ex_snap_def Second_def)

text \<open>
  C16: over any sequence of polls the PUBLISH commands the loop of a profile sends, whether or
  not they succeed, are on the events channel and are exactly the changes of its polled state,
  starting from "unknown": no change is missed and none is sent twice. And the SET commands it
  sends are exactly the snapshots of all its polls, in order, under the profile's key and with
  the configured expiry (a snapshot whose times cannot be written as JSON being left out).
\<close>

theorem runProfile_publishes_transitions:
  "case runProfile srv c p s eval envs prof_init r of (curs, evs, st, r') \<Rightarrow>
     \<exists>log. runProfile (tap srv) c p s eval envs prof_init (r, []) = (curs, evs, st, r', log)
       \<and> List.map_filter publication log = map (\<lambda>x. (eventsChannel, marshal_event \<lparr>ev_ProfileID = p, ev_State = x\<rparr>))
           (tl (remdups_adj (StateUnknown # map hs_State curs)))
       \<and> List.map_filter storing log = List.map_filter (\<lambda>cur. map_option (\<lambda>b. (StatusKey p, b, status_ttl c)) (marshal_status cur)) curs"
proof -
  obtain curs evs st r' where u: "runProfile srv c p s eval envs prof_init r = (curs, evs, st, r')" by (metis prod_cases4)
  have "map (\<lambda>e. (eventsChannel, marshal_event (fst e))) evs = map (\<lambda>x. (eventsChannel, marshal_event \<lparr>ev_ProfileID = p, ev_State = x\<rparr>))
      (tl (remdups_adj (StateUnknown # map hs_State curs)))"
    using arg_cong [OF runProfile_events [OF u], of "map (\<lambda>e. (eventsChannel, marshal_event e))"]
    by (simp add: comp_def prof_init_def)
  then show ?thesis using runProfile_tap [OF u, of "[]"] by (auto simp: u)
qed

text \<open>
  The profile list reads back from its comma-separated form, and the environment
  variable suffix of a profile consists of capital letters, digits and underscores only.
\<close>

theorem config_names:
  assumes "ps \<noteq> []" and "\<forall>p \<in> set ps. visible_string p \<and> p \<noteq> [] \<and> CHR '','' \<notin> set p"
  shows "splitCSV (Join ps '','') = ps
    \<and> set (concat (map envKey ps)) \<subseteq> {c. c = CHR ''_'' \<or> 65 \<le> byte_of c \<and> byte_of c \<le> 90 \<or> is_digit c}"
  using splitCSV_Join [of ps] assms envKey_chars by (simp add: subset_iff) blast

theorem config_names_witness:
  "splitCSV (Join [''eu-wg'', ''us''] '','') = [''eu-wg'', ''us'']
    \<and> set (concat (map envKey [''eu-wg'', ''us''])) \<subseteq> {c. c = CHR ''_'' \<or> 65 \<le> byte_of c \<and> byte_of c \<le> 90 \<or> is_digit c}"
  by (rule config_names) (simp_all add: visible_def)

end
