(* ===== verification/Go_Cmd.thy ===== *)
theory Go_Cmd
  imports Go_Strings
begin

text \<open>
  What the four commands use of the standard library around their \<open>run\<close> functions: the
  parsing of a command line by \<open>flag\<close>, \<open>filepath.Dir\<close>, and how a process ends.
\<close>

subsection \<open>Flags\<close>

datatype flag_value = FBool bool | FString string

text \<open>A flag set is the list of its flags with their defaults; a value keeps its kind.\<close>

type_synonym flag_set = "(string \<times> flag_value) list"

abbreviation flag_of :: "flag_set \<Rightarrow> string \<Rightarrow> flag_value option" where
  "flag_of \<equiv> map_of"

definition flag_string :: "flag_set \<Rightarrow> string \<Rightarrow> string" where
  "flag_string fs n = (case flag_of fs n of Some (FString v) \<Rightarrow> v | _ \<Rightarrow> [])"

definition flag_bool :: "flag_set \<Rightarrow> string \<Rightarrow> bool" where
  "flag_bool fs n = (flag_of fs n = Some (FBool True))"

definition flag_set_to :: "string \<Rightarrow> flag_value \<Rightarrow> flag_set \<Rightarrow> flag_set" where
  "flag_set_to n v fs = map (\<lambda>(m, old). (m, if m = n then v else old)) fs"

definition ParseBool :: "string \<Rightarrow> bool option" where
  "ParseBool s =
     (if s \<in> {''1'', ''t'', ''T'', ''true'', ''TRUE'', ''True''} then Some True
      else if s \<in> {''0'', ''f'', ''F'', ''false'', ''FALSE'', ''False''} then Some False
      else None)"

definition ErrHelp :: go_error where "ErrHelp = Sentinel ''flag: help requested''"

text \<open>The text after the dashes: the name, and the value after the first \<open>=\<close> that is not its first byte.\<close>

definition cut_value :: "string \<Rightarrow> string \<times> string option" where
  "cut_value s =
     (case s of
        [] \<Rightarrow> ([], None)
      | c # cs \<Rightarrow>
          (c # takeWhile (\<lambda>x. x \<noteq> CHR ''='') cs,
           case dropWhile (\<lambda>x. x \<noteq> CHR ''='') cs of [] \<Rightarrow> None | _ # v \<Rightarrow> Some v))"

text \<open>
  \<open>FlagSet.Parse\<close>: the values and the remaining arguments, or the error that ends it. A flag
  that is not boolean takes the next argument when it carries no value of its own.
\<close>

fun Parse :: "(nat \<Rightarrow> bool) \<Rightarrow> flag_set \<Rightarrow> string list \<Rightarrow> (flag_set \<times> string list) result" where
  "Parse wide fs [] = Inr (fs, [])"
| "Parse wide fs (s # args) =
     (if length s < 2 \<or> s ! 0 \<noteq> CHR ''-'' then Inr (fs, s # args)
      else if s = ''--'' then Inr (fs, args)
      else let name = drop (if s ! 1 = CHR ''-'' then 2 else 1) s
      in if name = [] \<or> hd name = CHR ''-'' \<or> hd name = CHR ''='' then Inl (Msg (''bad flag syntax: '' @ s))
      else case cut_value name of (n, value) \<Rightarrow>
        (case flag_of fs n of
           None \<Rightarrow>
             if n = ''help'' \<or> n = ''h'' then Inl ErrHelp
             else Inl (Msg (''flag provided but not defined: -'' @ n))
         | Some (FBool _) \<Rightarrow>
             (case ParseBool (case value of Some v \<Rightarrow> v | None \<Rightarrow> ''true'') of
                None \<Rightarrow> Inl (Msg (''invalid boolean value '' @ Quote wide (the value) @ '' for -'' @ n @ '': parse error''))
              | Some b \<Rightarrow> Parse wide (flag_set_to n (FBool b) fs) args)
         | Some (FString _) \<Rightarrow>
             (case value of
                Some v \<Rightarrow> Parse wide (flag_set_to n (FString v) fs) args
              | None \<Rightarrow>
                  (case args of
                     [] \<Rightarrow> Inl (Msg (''flag needs an argument: -'' @ n))
                   | v # args' \<Rightarrow> Parse wide (flag_set_to n (FString v) fs) args'))))"

subsection \<open>Paths\<close>

text \<open>
  \<open>filepath.Clean\<close> on a Unix path: the elements kept so far, last first. A \<open>..\<close> removes the
  element before it; at the root it is dropped, at the start of a relative path it stays.
\<close>

fun clean_elems :: "bool \<Rightarrow> string list \<Rightarrow> string list \<Rightarrow> string list" where
  "clean_elems rooted out [] = rev out"
| "clean_elems rooted out (e # es) =
     (if e = [] \<or> e = ''.'' then clean_elems rooted out es
      else if e = ''..'' then
        (if out \<noteq> [] \<and> hd out \<noteq> ''..'' then clean_elems rooted (tl out) es
         else if rooted then clean_elems rooted out es
         else clean_elems rooted (''..'' # out) es)
      else clean_elems rooted (e # out) es)"

definition Clean :: "string \<Rightarrow> string" where
  "Clean path =
     (let rooted = (path \<noteq> [] \<and> hd path = CHR ''/'');
          body = Join (clean_elems rooted [] (Split path (CHR ''/''))) ''/''
      in if rooted then CHR ''/'' # body else if body = [] then ''.'' else body)"

definition Dir :: "string \<Rightarrow> string" where
  "Dir path = Clean (rev (dropWhile (\<lambda>c. c \<noteq> CHR ''/'') (rev path)))"

subsection \<open>Processes\<close>

text \<open>How a command ends: its exit status and what it wrote to its two outputs.\<close>

record process_end =
  pr_exit :: nat
  pr_stdout :: string
  pr_stderr :: string

definition exit_ok :: "string \<Rightarrow> process_end" where
  "exit_ok out = \<lparr>pr_exit = 0, pr_stdout = out, pr_stderr = []\<rparr>"

text \<open>\<open>fmt.Fprintln(os.Stderr, "name:", err)\<close> and \<open>os.Exit(1)\<close>.\<close>

definition exit_error :: "string \<Rightarrow> go_error \<Rightarrow> process_end" where
  "exit_error name e = \<lparr>pr_exit = 1, pr_stdout = [], pr_stderr = name @ '': '' @ error_text e @ [LF]\<rparr>"

text \<open>
  \<open>flag.Parse\<close> of the default flag set, which exits by itself: status 0 after a request for
  help, 2 after an error, with the error and the usage on the standard error.
\<close>

definition exit_flags :: "string \<Rightarrow> go_error \<Rightarrow> process_end" where
  "exit_flags usage e =
     (if errors_Is e ErrHelp then \<lparr>pr_exit = 0, pr_stdout = [], pr_stderr = usage\<rparr>
      else \<lparr>pr_exit = 2, pr_stdout = [], pr_stderr = error_text e @ [LF] @ usage\<rparr>)"

subsection \<open>Lemmas\<close>

lemma exit_status [simp]: "pr_exit (exit_ok out) = 0" "pr_exit (exit_error name e) = 1"
  by (simp_all add: exit_ok_def exit_error_def)

lemma flag_of_set_to:
  "flag_of (flag_set_to n v fs) m = (if m = n \<and> flag_of fs m \<noteq> None then Some v else flag_of fs m)"
  by (induction fs) (auto simp: flag_set_to_def)

lemma flag_string_set_to:
  "flag_of fs n = Some (FString w) \<Longrightarrow> flag_string (flag_set_to n (FString v) fs) m = (if m = n then v else flag_string fs m)"
  by (simp add: flag_string_def flag_of_set_to)

text \<open>A command line that spells settings as \<open>--name=value\<close> sets exactly those, the last of a name winning.\<close>

definition setting :: "string \<times> string \<Rightarrow> string" where
  "setting = (\<lambda>(n, v). ''--'' @ n @ ''='' @ v)"

definition settable :: "flag_set \<Rightarrow> string \<Rightarrow> bool" where
  "settable fs n \<longleftrightarrow> n \<noteq> [] \<and> hd n \<noteq> CHR ''-'' \<and> CHR ''='' \<notin> set n \<and> (\<exists>w. flag_of fs n = Some (FString w))"

definition set_all :: "(string \<times> string) list \<Rightarrow> flag_set \<Rightarrow> flag_set" where
  "set_all xs fs = fold (\<lambda>(n, v). flag_set_to n (FString v)) xs fs"

lemma set_all_simps [simp]: "set_all [] fs = fs" "set_all ((n, v) # xs) fs = set_all xs (flag_set_to n (FString v) fs)"
  by (simp_all add: set_all_def)

lemma settable_set_to: "settable fs n \<Longrightarrow> settable (flag_set_to n (FString v) fs) m \<longleftrightarrow> settable fs m"
  by (auto simp: settable_def flag_of_set_to)

lemma settable_Cons:
  assumes "list_all (settable fs \<circ> fst) ((n, v) # xs)"
  shows "settable fs n" "list_all (settable (flag_set_to n (FString v) fs) \<circ> fst) xs"
  using assms settable_set_to by (simp_all add: comp_def)

lemma cut_value_setting:
  assumes "n \<noteq> []" and "CHR ''='' \<notin> set n"
  shows "cut_value (n @ ''='' @ v) = (n, Some v)"
proof (cases n)
  case (Cons c cs)
  then have "CHR ''='' \<notin> set cs" using assms(2) by simp
  then have "takeWhile (\<lambda>x. x \<noteq> CHR ''='') (cs @ CHR ''='' # v) = cs"
    "dropWhile (\<lambda>x. x \<noteq> CHR ''='') (cs @ CHR ''='' # v) = CHR ''='' # v"
    by (induction cs) auto
  then show ?thesis using Cons by (simp add: cut_value_def)
qed (use assms in simp)

lemma Parse_setting:
  assumes "settable fs n"
  shows "Parse wide fs (setting (n, v) # args) = Parse wide (flag_set_to n (FString v) fs) args"
proof -
  from assms obtain c cs w where n: "n = c # cs" "c \<noteq> CHR ''-''" "c \<noteq> CHR ''=''" "CHR ''='' \<notin> set n" "flag_of fs n = Some (FString w)"
    unfolding settable_def by (cases n) auto
  have c: "cut_value (n @ CHR ''='' # v) = (n, Some v)"
    using cut_value_setting [of n v] n by simp
  show ?thesis using n c by (simp add: setting_def Let_def)
qed

lemma Parse_settings:
  "list_all (settable fs \<circ> fst) xs \<Longrightarrow> Parse wide fs (map setting xs @ args) = Parse wide (set_all xs fs) args"
proof (induction xs arbitrary: fs)
  case (Cons x xs)
  obtain n v where x: "x = (n, v)" by fastforce
  note s = settable_Cons [OF Cons.prems [unfolded x]]
  show ?case using Cons.IH [OF s(2)] Parse_setting [OF s(1)] by (simp add: x del: Parse.simps)
qed simp

lemma flag_string_set_all:
  "list_all (settable fs \<circ> fst) xs \<Longrightarrow>
    flag_string (set_all xs fs) m = (case map_of (rev xs) m of Some v \<Rightarrow> v | None \<Rightarrow> flag_string fs m)"
proof (induction xs arbitrary: fs)
  case (Cons x xs)
  obtain n v where x: "x = (n, v)" by fastforce
  note s = settable_Cons [OF Cons.prems [unfolded x]]
  then obtain w where "flag_of fs n = Some (FString w)" by (auto simp: settable_def)
  from flag_string_set_to [OF this] Cons.IH [OF s(2)] show ?case by (auto simp: x map_add_def split: option.splits)
qed simp

lemma flag_bool_set_all: "flag_bool (set_all xs fs) m \<longleftrightarrow> flag_bool fs m \<and> m \<notin> fst ` set xs"
  by (induction xs arbitrary: fs) (force simp: flag_bool_def flag_of_set_to split: if_splits)+

end
