(* ===== verification/Cmd_Compiler.thy ===== *)
theory Cmd_Compiler
  imports Routing Go_Cmd
begin

text \<open>
  \<open>control-plane/cmd/compiler/main.go\<close>: the command from its arguments to its exit status, the
  files on disk and the routes in Redis. The file system is a map from paths to contents
  with the outcomes of reads and writes as parameters; the Redis server is the parameter
  \<open>srv\<close>. \<open>internal/otel\<close>, whose hook the command installs, stands here too.
\<close>

subsection \<open>Definitions\<close>

definition compiler_version :: string where "compiler_version = ''0.1.0''"

definition DefaultHelperPath :: string where "DefaultHelperPath = ''/usr/lib/helix-proxy/acl-helper''"

record flags =
  fl_showVersion :: bool
  fl_dsn :: string
  fl_redisAddr :: string
  fl_helperPath :: string
  fl_pacProxy :: string
  fl_squidOut :: string
  fl_danteBase :: string
  fl_danteOut :: string
  fl_pacOut :: string

text \<open>The flag set with its defaults, two of them from the environment, and the variables it is bound to.\<close>

definition compiler_flags :: "(string \<Rightarrow> string) \<Rightarrow> flag_set" where
  "compiler_flags os =
     [(''version'', FBool False), (''dsn'', FString (os ''HELIX_PG_DSN'')),
      (''redis-addr'', FString (os ''HELIX_REDIS_ADDR'')), (''helper-path'', FString DefaultHelperPath),
      (''pac-proxy'', FString DefaultPACProxy), (''squid-out'', FString []), (''dante-base'', FString []),
      (''dante-out'', FString []), (''pac-out'', FString [])]"

definition bound_flags :: "flag_set \<Rightarrow> flags" where
  "bound_flags s =
     \<lparr>fl_showVersion = flag_bool s ''version'', fl_dsn = flag_string s ''dsn'',
      fl_redisAddr = flag_string s ''redis-addr'', fl_helperPath = flag_string s ''helper-path'',
      fl_pacProxy = flag_string s ''pac-proxy'', fl_squidOut = flag_string s ''squid-out'',
      fl_danteBase = flag_string s ''dante-base'', fl_danteOut = flag_string s ''dante-out'',
      fl_pacOut = flag_string s ''pac-out''\<rparr>"

text \<open>\<open>otel.Init\<close>: a shutdown hook that does nothing, and no error.\<close>

definition otel_Init :: "string \<Rightarrow> (unit \<Rightarrow> go_error option) \<times> go_error option" where
  "otel_Init serviceName = ((\<lambda>_. None), None)"

type_synonym files = "string \<Rightarrow> string option"

text \<open>
  What a run meets: opening the store and its answers, opening Redis, reading a file,
  making a directory with its parents, the outcome of writing a path
  (an error with what the path then holds), and the clock of each SET.
\<close>

record comp_env =
  ce_open_store :: "go_error option"
  ce_queries :: Queries
  ce_read :: "files \<Rightarrow> string \<Rightarrow> string result"
  ce_mkdir :: "string \<Rightarrow> go_error option"
  ce_write :: "string \<Rightarrow> (go_error \<times> string option) option"
  ce_open_redis :: "go_error option"
  ce_set_at :: time

definition writeFile :: "comp_env \<Rightarrow> files \<Rightarrow> string \<Rightarrow> string \<Rightarrow> go_error option \<times> files" where
  "writeFile env fs path b =
     (case (let dir = Dir path in
             if dir \<noteq> [] \<and> dir \<noteq> ''.'' then map_option (Wrap (''mkdir '' @ dir @ '': '')) (ce_mkdir env dir) else None) of
        Some e \<Rightarrow> (Some e, fs)
      | None \<Rightarrow>
          (case ce_write env path of
             Some (e, left) \<Rightarrow> (Some (Wrap (''write '' @ path @ '': '') e), fs(path := left))
           | None \<Rightarrow> (None, fs(path \<mapsto> b))))"

definition write_if :: "comp_env \<Rightarrow> files \<Rightarrow> string \<Rightarrow> string \<Rightarrow> go_error option \<times> files" where
  "write_if env fs path b = (if path \<noteq> [] then writeFile env fs path b else (None, fs))"

text \<open>The deployed Dante file: the base verbatim, a newline, the routes.\<close>

definition dante_deployed :: "comp_env \<Rightarrow> flags \<Rightarrow> files \<Rightarrow> string \<Rightarrow> string result" where
  "dante_deployed env fl fs routes =
     (if fl_danteBase fl = [] then Inr routes
      else case ce_read env fs (fl_danteBase fl) of
          Inl e \<Rightarrow> Inl (Wrap (''read dante base '' @ fl_danteBase fl @ '': '') e)
        | Inr base \<Rightarrow> Inr (base @ [LF] @ routes))"

definition write_dante :: "comp_env \<Rightarrow> flags \<Rightarrow> files \<Rightarrow> string \<Rightarrow> go_error option \<times> files" where
  "write_dante env fl fs routes =
     (if fl_danteOut fl = [] then (None, fs)
      else case dante_deployed env fl fs routes of
          Inl e \<Rightarrow> (Some e, fs)
        | Inr deployed \<Rightarrow> writeFile env fs (fl_danteOut fl) deployed)"

text \<open>The seeding loop: the number of routes seeded, the error it stops at, the server after it.\<close>

fun seed :: "'r redis \<Rightarrow> time \<Rightarrow> Route list \<Rightarrow> nat \<Rightarrow> 'r \<Rightarrow> nat \<times> go_error option \<times> 'r" where
  "seed srv now [] seeded r = (seeded, None, r)"
| "seed srv now (x # xs) seeded r =
     (case SetRoute srv r now x of
        (Some e, r') \<Rightarrow> (seeded, Some (Wrap (''seed route '' @ rt_Target x @ '': '') e), r')
      | (None, r') \<Rightarrow> seed srv now xs (Suc seeded) r')"

text \<open>The line a run ends with.\<close>

definition compiler_report :: "Artifacts \<Rightarrow> Route list \<Rightarrow> nat \<Rightarrow> string" where
  "compiler_report arts routes seeded =
     ''compiler '' @ compiler_version @ '': rendered squid('' @ show_nat (length (ar_SquidInclude arts))
     @ ''B) dante('' @ show_nat (length (ar_DanteRoutes arts)) @ ''B) pac('' @ show_nat (length (ar_PAC arts))
     @ ''B); resolved '' @ show_nat (length routes) @ '' route(s), seeded '' @ show_nat seeded @ '' to redis'' @ [LF]"

text \<open>\<open>run\<close> after the flags are parsed: what it prints or the error it returns, the files, the server.\<close>

definition compiler_run ::
  "(nat \<Rightarrow> bool) \<Rightarrow> 'r redis \<Rightarrow> comp_env \<Rightarrow> flags \<Rightarrow> files \<Rightarrow> 'r \<Rightarrow> string result \<times> files \<times> 'r" where
  "compiler_run wide srv env fl fs r =
     (if fl_showVersion fl then (Inr (''compiler '' @ compiler_version @ [LF]), fs, r)
      else if fl_dsn fl = [] then (Inl (Msg ''--dsn (or $HELIX_PG_DSN) is required''), fs, r)
      else case ce_open_store env of
          Some e \<Rightarrow> (Inl (Wrap ''open store: '' e), fs, r)
        | None \<Rightarrow>
            (case CompileAll wide (New (fl_helperPath fl) (fl_pacProxy fl)) (ce_queries env) of
               Inl e \<Rightarrow> (Inl (Wrap ''compile: '' e), fs, r)
             | Inr (arts, routes) \<Rightarrow>
                 (case write_if env fs (fl_squidOut fl) (ar_SquidInclude arts) of
                    (Some e, fs1) \<Rightarrow> (Inl e, fs1, r)
                  | (None, fs1) \<Rightarrow>
                      (case write_dante env fl fs1 (ar_DanteRoutes arts) of
                         (Some e, fs2) \<Rightarrow> (Inl e, fs2, r)
                       | (None, fs2) \<Rightarrow>
                           (case write_if env fs2 (fl_pacOut fl) (ar_PAC arts) of
                              (Some e, fs3) \<Rightarrow> (Inl e, fs3, r)
                            | (None, fs3) \<Rightarrow>
                                if fl_redisAddr fl = [] then (Inr (compiler_report arts routes 0), fs3, r)
                                else (case ce_open_redis env of
                                    Some e \<Rightarrow> (Inl (Wrap (''open redis '' @ fl_redisAddr fl @ '': '') e), fs3, r)
                                  | None \<Rightarrow>
                                      (case seed srv (ce_set_at env) routes 0 r of
                                         (_, Some e, r') \<Rightarrow> (Inl e, fs3, r')
                                       | (seeded, None, r') \<Rightarrow> (Inr (compiler_report arts routes seeded), fs3, r'))))))))"

text \<open>
  The command: \<open>run\<close> on its arguments, then the exit status. The flag set is one that returns
  its errors, having printed them and the usage, so that \<open>run\<close> returns them as its own.
\<close>

definition compiler_main ::
  "(nat \<Rightarrow> bool) \<Rightarrow> 'r redis \<Rightarrow> comp_env \<Rightarrow> (string \<Rightarrow> string) \<Rightarrow> string list \<Rightarrow> files \<Rightarrow> 'r \<Rightarrow> process_end \<times> files \<times> 'r" where
  "compiler_main wide srv env os args fs r =
     (case Parse wide (compiler_flags os) args of
        Inl e \<Rightarrow> (exit_error ''compiler'' e, fs, r)
      | Inr (s, _) \<Rightarrow>
          (case compiler_run wide srv env (bound_flags s) fs r of
             (Inl e, fs', r') \<Rightarrow> (exit_error ''compiler'' e, fs', r')
           | (Inr out, fs', r') \<Rightarrow> (exit_ok out, fs', r')))"

subsection \<open>Seeding\<close>

lemma seed_view:
  assumes "redis_server srv view" and "seed srv now xs n r = (n', err, r')"
  shows "view r' k = view r k \<or>
      (\<exists>x \<in> set xs. k = RouteKey (rt_Target x) \<and> view r' k = Some (marshal_route x, None))"
  using assms(2)
proof (induction xs arbitrary: n r)
  case Nil
  then show ?case by simp
next
  case (Cons x xs)
  obtain e r1 where s: "SetRoute srv r now x = (e, r1)" by fastforce
  have v: "view r1 k = view r k \<or> k = RouteKey (rt_Target x) \<and> view r1 k = Some (marshal_route x, None)"
    using redis_server.SetRoute_view [OF assms(1) s] by (auto split: if_splits)
  show ?case
  proof (cases e)
    case None
    then have "view r' k = view r1 k \<or>
        (\<exists>x \<in> set xs. k = RouteKey (rt_Target x) \<and> view r' k = Some (marshal_route x, None))"
      using Cons.IH [of "Suc n" r1] Cons.prems s by simp
    then show ?thesis using v by auto
  next
    case (Some a)
    then show ?thesis using Cons.prems s v by auto
  qed
qed

lemma seed_count: "seed srv now xs n r = (n', None, r') \<Longrightarrow> n' = n + length xs"
  by (induction xs arbitrary: n r) (fastforce split: prod.splits option.splits)+

lemma seed_all:
  assumes "redis_server srv view" and "seed srv now xs n r = (n', None, r')" and "distinct (map rt_Target xs)"
    and "x \<in> set xs"
  shows "view r' (RouteKey (rt_Target x)) = Some (marshal_route x, None)"
  using assms(2-4)
proof (induction xs arbitrary: n r)
  case (Cons y ys)
  obtain r1 where s: "SetRoute srv r now y = (None, r1)" and t: "seed srv now ys (Suc n) r1 = (n', None, r')"
    using Cons.prems(1) by (auto split: prod.splits option.splits)
  note v1 = redis_server.SetRoute_ok_view [OF assms(1) s]
  have v2: "view r' (RouteKey (rt_Target y)) = view r1 (RouteKey (rt_Target y))"
    using seed_view [OF assms(1) t, of "RouteKey (rt_Target y)"] Cons.prems(2) by (auto simp: image_iff)
  show ?case
  proof (cases "x = y")
    case True
    then show ?thesis using v1 v2 by simp
  next
    case False
    then show ?thesis using Cons.IH [OF t] Cons.prems by simp
  qed
qed simp

subsection \<open>A run\<close>

lemma compiler_run_ok:
  assumes "compiler_run wide srv env fl fs r = (Inr out, fs', r')" and "\<not> fl_showVersion fl"
  obtains arts routes where
    "CompileAll wide (New (fl_helperPath fl) (fl_pacProxy fl)) (ce_queries env) = Inr (arts, routes)"
    "fl_redisAddr fl = [] \<and> r' = r \<or> (\<exists>n. seed srv (ce_set_at env) routes 0 r = (n, None, r'))"
    "fl_squidOut fl \<noteq> [] \<Longrightarrow> fl_squidOut fl \<noteq> fl_danteOut fl \<Longrightarrow> fl_squidOut fl \<noteq> fl_pacOut fl \<Longrightarrow>
       fs' (fl_squidOut fl) = Some (ar_SquidInclude arts)"
    "fl_pacOut fl \<noteq> [] \<Longrightarrow> fs' (fl_pacOut fl) = Some (ar_PAC arts)"
    "out = compiler_report arts routes (if fl_redisAddr fl = [] then 0 else length routes)"
  using assms
  by (auto simp: compiler_run_def write_if_def write_dante_def writeFile_def
      split: if_splits option.splits sum.splits prod.splits dest: seed_count)

text \<open>
  When a file can be written: its directory can be made, unless it is the current one, and the
  write goes through. The Dante file, which is made of the base as it is after the Squid
  include is written and the routes; and all files of a run.
\<close>

definition writable :: "comp_env \<Rightarrow> string \<Rightarrow> bool" where
  "writable env path \<longleftrightarrow> (Dir path \<in> {[], ''.''} \<or> ce_mkdir env (Dir path) = None) \<and> ce_write env path = None"

definition dante_text :: "comp_env \<Rightarrow> flags \<Rightarrow> files \<Rightarrow> Artifacts \<Rightarrow> string option" where
  "dante_text env fl fs arts =
     (if fl_danteBase fl = [] then Some (ar_DanteRoutes arts)
      else case ce_read env (if fl_squidOut fl = [] then fs else fs(fl_squidOut fl \<mapsto> ar_SquidInclude arts)) (fl_danteBase fl) of
          Inl e \<Rightarrow> None
        | Inr base \<Rightarrow> Some (base @ [LF] @ ar_DanteRoutes arts))"

definition files_ok :: "comp_env \<Rightarrow> flags \<Rightarrow> files \<Rightarrow> Artifacts \<Rightarrow> bool" where
  "files_ok env fl fs arts \<longleftrightarrow> (fl_squidOut fl \<noteq> [] \<longrightarrow> writable env (fl_squidOut fl))
     \<and> (fl_danteOut fl \<noteq> [] \<longrightarrow> writable env (fl_danteOut fl) \<and> dante_text env fl fs arts \<noteq> None)
     \<and> (fl_pacOut fl \<noteq> [] \<longrightarrow> writable env (fl_pacOut fl))"

definition files_after :: "comp_env \<Rightarrow> flags \<Rightarrow> files \<Rightarrow> Artifacts \<Rightarrow> files" where
  "files_after env fl fs arts path =
     (if path \<noteq> [] \<and> path = fl_pacOut fl then Some (ar_PAC arts)
      else if path \<noteq> [] \<and> path = fl_danteOut fl then dante_text env fl fs arts
      else if path \<noteq> [] \<and> path = fl_squidOut fl then Some (ar_SquidInclude arts)
      else fs path)"

lemma writeFile_cases:
  "writable env path \<Longrightarrow> writeFile env fs path b = (None, fs(path \<mapsto> b))"
  "\<not> writable env path \<Longrightarrow> \<exists>e fs'. writeFile env fs path b = (Some e, fs')"
  by (auto simp: writable_def writeFile_def Let_def split: option.splits)

definition after_squid :: "flags \<Rightarrow> files \<Rightarrow> Artifacts \<Rightarrow> files" where
  "after_squid fl fs arts = (if fl_squidOut fl = [] then fs else fs(fl_squidOut fl \<mapsto> ar_SquidInclude arts))"

lemma write_if_cases:
  "(path \<noteq> [] \<longrightarrow> writable env path) \<Longrightarrow> write_if env fs path b = (None, if path = [] then fs else fs(path \<mapsto> b))"
  "path \<noteq> [] \<Longrightarrow> \<not> writable env path \<Longrightarrow> \<exists>e fs'. write_if env fs path b = (Some e, fs')"
  by (auto simp: write_if_def writeFile_cases)

lemma dante_deployed_text:
  "dante_text env fl fs arts = Some d \<Longrightarrow> dante_deployed env fl (after_squid fl fs arts) (ar_DanteRoutes arts) = Inr d"
  "dante_text env fl fs arts = None \<Longrightarrow> \<exists>e. dante_deployed env fl (after_squid fl fs arts) (ar_DanteRoutes arts) = Inl e"
  unfolding dante_text_def dante_deployed_def after_squid_def [symmetric] by (auto split: if_splits sum.splits)

lemma write_dante_cases:
  "(fl_danteOut fl \<noteq> [] \<longrightarrow> writable env (fl_danteOut fl) \<and> dante_text env fl fs arts \<noteq> None) \<Longrightarrow>
     write_dante env fl (after_squid fl fs arts) (ar_DanteRoutes arts) =
       (None, if fl_danteOut fl = [] then after_squid fl fs arts else (after_squid fl fs arts)(fl_danteOut fl := dante_text env fl fs arts))"
  "fl_danteOut fl \<noteq> [] \<Longrightarrow> \<not> (writable env (fl_danteOut fl) \<and> dante_text env fl fs arts \<noteq> None) \<Longrightarrow>
     \<exists>e fs'. write_dante env fl (after_squid fl fs arts) (ar_DanteRoutes arts) = (Some e, fs')"
  using dante_deployed_text [of env fl fs arts]
  by (auto simp: write_dante_def writeFile_cases split: sum.splits)

text \<open>The run once the store is open, as far as its result: done exactly when every file and every route is.\<close>

lemma compiler_run_done:
  assumes "\<not> fl_showVersion fl" and "fl_dsn fl \<noteq> []" and "ce_open_store env = None"
    and "CompileAll wide (New (fl_helperPath fl) (fl_pacProxy fl)) (ce_queries env) = Inr (arts, routes)"
  shows "files_ok env fl fs arts \<Longrightarrow> compiler_run wide srv env fl fs r =
      (if fl_redisAddr fl = [] then (Inr (compiler_report arts routes 0), files_after env fl fs arts, r)
       else case ce_open_redis env of
           Some e \<Rightarrow> (Inl (Wrap (''open redis '' @ fl_redisAddr fl @ '': '') e), files_after env fl fs arts, r)
         | None \<Rightarrow> (case seed srv (ce_set_at env) routes 0 r of
             (_, Some e, r') \<Rightarrow> (Inl e, files_after env fl fs arts, r')
           | (seeded, None, r') \<Rightarrow> (Inr (compiler_report arts routes seeded), files_after env fl fs arts, r')))"
    and "\<not> files_ok env fl fs arts \<Longrightarrow> \<exists>e fs'. compiler_run wide srv env fl fs r = (Inl e, fs', r)"
proof -
  let ?w1 = "write_if env fs (fl_squidOut fl) (ar_SquidInclude arts)"
  let ?w2 = "write_dante env fl (after_squid fl fs arts) (ar_DanteRoutes arts)"
  let ?fs2 = "if fl_danteOut fl = [] then after_squid fl fs arts else (after_squid fl fs arts)(fl_danteOut fl := dante_text env fl fs arts)"
  note run = compiler_run_def [of wide srv env fl fs r, unfolded assms(3,4) option.case sum.case prod.case]
  assume ok: "files_ok env fl fs arts"
  then have "?w1 = (None, after_squid fl fs arts)" by (simp add: files_ok_def write_if_cases after_squid_def)
  moreover have "?w2 = (None, ?fs2)" by (rule write_dante_cases(1)) (use ok in \<open>simp add: files_ok_def\<close>)
  moreover have "write_if env ?fs2 (fl_pacOut fl) (ar_PAC arts) = (None, files_after env fl fs arts)"
    using ok by (auto simp: files_ok_def write_if_cases files_after_def after_squid_def)
  ultimately show "compiler_run wide srv env fl fs r =
      (if fl_redisAddr fl = [] then (Inr (compiler_report arts routes 0), files_after env fl fs arts, r)
       else case ce_open_redis env of
           Some e \<Rightarrow> (Inl (Wrap (''open redis '' @ fl_redisAddr fl @ '': '') e), files_after env fl fs arts, r)
         | None \<Rightarrow> (case seed srv (ce_set_at env) routes 0 r of
             (_, Some e, r') \<Rightarrow> (Inl e, files_after env fl fs arts, r')
           | (seeded, None, r') \<Rightarrow> (Inr (compiler_report arts routes seeded), files_after env fl fs arts, r')))"
    using assms(1,2) unfolding run by simp
next
  let ?fs2 = "if fl_danteOut fl = [] then after_squid fl fs arts else (after_squid fl fs arts)(fl_danteOut fl := dante_text env fl fs arts)"
  note run = compiler_run_def [of wide srv env fl fs r, unfolded assms(3,4) option.case sum.case prod.case]
  assume bad: "\<not> files_ok env fl fs arts"
  show "\<exists>e fs'. compiler_run wide srv env fl fs r = (Inl e, fs', r)"
  proof (cases "fl_squidOut fl \<noteq> [] \<longrightarrow> writable env (fl_squidOut fl)")
    case False
    then obtain e fs' where "write_if env fs (fl_squidOut fl) (ar_SquidInclude arts) = (Some e, fs')" using write_if_cases(2) by blast
    then show ?thesis using assms(1,2) unfolding run by simp
  next
    case True
    then have 1: "write_if env fs (fl_squidOut fl) (ar_SquidInclude arts) = (None, after_squid fl fs arts)"
      by (simp add: write_if_cases after_squid_def)
    show ?thesis
    proof (cases "fl_danteOut fl \<noteq> [] \<longrightarrow> writable env (fl_danteOut fl) \<and> dante_text env fl fs arts \<noteq> None")
      case False
      then obtain e fs' where "write_dante env fl (after_squid fl fs arts) (ar_DanteRoutes arts) = (Some e, fs')" using write_dante_cases(2) by blast
      then show ?thesis using 1 assms(1,2) unfolding run by simp
    next
      case d: True
      then have "fl_pacOut fl \<noteq> []" "\<not> writable env (fl_pacOut fl)" using bad True by (auto simp: files_ok_def)
      then obtain e fs' where "write_if env ?fs2 (fl_pacOut fl) (ar_PAC arts) = (Some e, fs')" using write_if_cases(2) by blast
      then show ?thesis using 1 write_dante_cases(1) [OF d] assms(1,2) unfolding run by simp
    qed
  qed
qed

lemma compiler_run_redis:
  assumes "compiler_run wide srv env fl fs r = (res, fs', r')"
  shows "r' = r \<or> (\<exists>arts routes n e.
    CompileAll wide (New (fl_helperPath fl) (fl_pacProxy fl)) (ce_queries env) = Inr (arts, routes)
    \<and> seed srv (ce_set_at env) routes 0 r = (n, e, r'))"
  using assms
  by (auto simp: compiler_run_def split: if_splits option.splits sum.splits prod.splits)

lemma compiler_main_redis:
  assumes "compiler_main wide srv env os args fs r = (fin, fs', r')"
  shows "r' = r \<or> (\<exists>h pac arts routes n e.
    CompileAll wide (New h pac) (ce_queries env) = Inr (arts, routes) \<and> seed srv (ce_set_at env) routes 0 r = (n, e, r'))"
  using assms compiler_run_redis by (fastforce simp: compiler_main_def split: sum.splits prod.splits)

subsection \<open>The command line\<close>

text \<open>
  The value of a string flag on a command line of settings \<open>--name=value\<close>: the last setting of
  the name, else the default.
\<close>

definition compiler_opt :: "(string \<Rightarrow> string) \<Rightarrow> (string \<times> string) list \<Rightarrow> string \<Rightarrow> string" where
  "compiler_opt os xs n = (case map_of (rev xs) n of Some v \<Rightarrow> v | None \<Rightarrow> flag_string (compiler_flags os) n)"

definition compiler_args :: "(string \<times> string) list \<Rightarrow> bool" where
  "compiler_args xs \<longleftrightarrow> fst ` set xs \<subseteq> {''dsn'', ''redis-addr'', ''helper-path'', ''pac-proxy'', ''squid-out'', ''dante-base'', ''dante-out'', ''pac-out''}"

lemma settable_compiler_args: "compiler_args xs \<Longrightarrow> list_all (settable (compiler_flags os) \<circ> fst) xs"
  unfolding list_all_iff compiler_args_def by (fastforce simp: settable_def compiler_flags_def)

lemma compiler_main_settings:
  assumes "compiler_args xs"
  shows "compiler_main wide srv env os (map setting xs) fs r =
    (case compiler_run wide srv env (bound_flags (set_all xs (compiler_flags os))) fs r of
       (Inl e, fs', r') \<Rightarrow> (exit_error ''compiler'' e, fs', r')
     | (Inr out, fs', r') \<Rightarrow> (exit_ok out, fs', r'))"
  using Parse_settings [OF settable_compiler_args [OF assms], of wide os "[]"] by (simp add: compiler_main_def)

lemma bound_flags_settings:
  assumes "compiler_args xs"
  shows "bound_flags (set_all xs (compiler_flags os)) =
    \<lparr>fl_showVersion = False, fl_dsn = compiler_opt os xs ''dsn'', fl_redisAddr = compiler_opt os xs ''redis-addr'',
     fl_helperPath = compiler_opt os xs ''helper-path'', fl_pacProxy = compiler_opt os xs ''pac-proxy'',
     fl_squidOut = compiler_opt os xs ''squid-out'', fl_danteBase = compiler_opt os xs ''dante-base'',
     fl_danteOut = compiler_opt os xs ''dante-out'', fl_pacOut = compiler_opt os xs ''pac-out''\<rparr>"
proof -
  have "\<not> flag_bool (compiler_flags os) ''version''" by (simp add: flag_bool_def compiler_flags_def)
  then show ?thesis
    using flag_string_set_all [OF settable_compiler_args [OF assms, of os]]
    by (simp add: bound_flags_def compiler_opt_def flag_bool_set_all)
qed

lemma compiler_main_cases [consumes 2, case_names err ok]:
  assumes "compiler_args xs" and "compiler_main wide srv env os (map setting xs) fs r = (p, fs', r')"
  obtains e where "p = exit_error ''compiler'' e"
  | out where "p = exit_ok out"
      "compiler_run wide srv env (bound_flags (set_all xs (compiler_flags os))) fs r = (Inr out, fs', r')"
proof -
  obtain res fs1 r1 where run: "compiler_run wide srv env (bound_flags (set_all xs (compiler_flags os))) fs r = (res, fs1, r1)"
    by (metis prod_cases3)
  then show thesis using assms(2) that by (cases res) (auto simp: compiler_main_settings [OF assms(1)])
qed

lemma compiler_main_ok:
  assumes "compiler_args xs" and "compiler_main wide srv env os (map setting xs) fs r = (p, fs', r')" and "pr_exit p = 0"
  obtains arts routes where
    "CompileAll wide (New (compiler_opt os xs ''helper-path'') (compiler_opt os xs ''pac-proxy'')) (ce_queries env) = Inr (arts, routes)"
    "compiler_opt os xs ''redis-addr'' = [] \<and> r' = r \<or> (\<exists>n. seed srv (ce_set_at env) routes 0 r = (n, None, r'))"
    "compiler_opt os xs ''squid-out'' \<notin> {[], compiler_opt os xs ''dante-out'', compiler_opt os xs ''pac-out''} \<Longrightarrow>
       fs' (compiler_opt os xs ''squid-out'') = Some (ar_SquidInclude arts)"
    "compiler_opt os xs ''pac-out'' \<noteq> [] \<Longrightarrow> fs' (compiler_opt os xs ''pac-out'') = Some (ar_PAC arts)"
    "pr_stdout p = compiler_report arts routes (if compiler_opt os xs ''redis-addr'' = [] then 0 else length routes)"
  using assms(1,2)
proof (cases rule: compiler_main_cases)
  case (ok out)
  show thesis
    by (rule compiler_run_ok [OF ok(2)])
      (use that in \<open>auto simp: bound_flags_settings [OF assms(1)] ok(1) exit_ok_def\<close>)
qed (use assms(3) in simp)

text \<open>The route of a host reads back, unless the transport fails.\<close>

definition route_readable :: "'r redis \<Rightarrow> 'r \<Rightarrow> time \<Rightarrow> Route \<Rightarrow> bool" where
  "route_readable srv r t x \<longleftrightarrow> GetRoute srv r t (rt_Target x) = Inr x
     \<or> (\<exists>e. GetRoute srv r t (rt_Target x) = Inl (Wrap ''redis: get route: '' e))"

lemma seed_readable:
  assumes "redis_server srv view" and "seed srv now routes n r = (n', None, r')"
    and "distinct (map rt_Target routes)" and "x \<in> set routes" and "route_ok x"
  shows "route_readable srv r' t x"
proof (cases "rd_Get srv r' t (RouteKey (rt_Target x))")
  case GetNil
  then show ?thesis
    using redis_server.get_nil [OF assms(1) GetNil] seed_all [OF assms(1-4)] by (simp add: live_def)
next
  case (GetErr e)
  then show ?thesis by (simp add: GetRoute_def route_readable_def)
next
  case (GetBytes b)
  then have "b = marshal_route x"
    using redis_server.get_value [OF assms(1) GetBytes] seed_all [OF assms(1-4)] by (simp add: live_def)
  then show ?thesis using GetBytes unmarshal_marshal_route assms(5) by (simp add: GetRoute_def route_readable_def)
qed

subsection \<open>Properties\<close>

text \<open>
  C30: the exit status of the compiler tells whether its work is done. Started with settings of
  its flags other than the version, it exits with 0 exactly when it has a DSN, the store opens and the data model
  compiles, every file it was told to write can be written (for the Dante file also its base
  read), and, given an address, Redis opens and takes every route. It has then written those
  files and no others, with what the pass rendered, the Dante routes after the base and a
  newline; if its routes are for different hosts, each that can be written as JSON is readable
  in Redis as it was resolved, whenever a read is answered; and its line on
  standard output counts them. Otherwise it exits with 1 and names an error.
\<close>

theorem compiler_exit_status:
  assumes "redis_server srv view" and "compiler_args xs"
    and "compiler_main wide srv env os (map setting xs) fs r = (p, fs', r')"
    and "fl = \<lparr>fl_showVersion = False, fl_dsn = compiler_opt os xs ''dsn'', fl_redisAddr = compiler_opt os xs ''redis-addr'',
       fl_helperPath = compiler_opt os xs ''helper-path'', fl_pacProxy = compiler_opt os xs ''pac-proxy'',
       fl_squidOut = compiler_opt os xs ''squid-out'', fl_danteBase = compiler_opt os xs ''dante-base'',
       fl_danteOut = compiler_opt os xs ''dante-out'', fl_pacOut = compiler_opt os xs ''pac-out''\<rparr>"
  shows "(pr_exit p = 0 \<longleftrightarrow> fl_dsn fl \<noteq> [] \<and> ce_open_store env = None \<and> (\<exists>arts routes.
        CompileAll wide (New (fl_helperPath fl) (fl_pacProxy fl)) (ce_queries env) = Inr (arts, routes)
      \<and> files_ok env fl fs arts
      \<and> (fl_redisAddr fl \<noteq> [] \<longrightarrow> ce_open_redis env = None \<and> fst (snd (seed srv (ce_set_at env) routes 0 r)) = None)))
    \<and> (pr_exit p = 0 \<longrightarrow> (\<exists>arts routes.
        CompileAll wide (New (fl_helperPath fl) (fl_pacProxy fl)) (ce_queries env) = Inr (arts, routes)
      \<and> fs' = files_after env fl fs arts
      \<and> (fl_redisAddr fl \<noteq> [] \<longrightarrow> distinct (map rt_Target routes) \<longrightarrow>
          (\<forall>x \<in> set routes. route_ok x \<longrightarrow> route_readable srv r' t x))
      \<and> pr_stdout p = compiler_report arts routes (if fl_redisAddr fl = [] then 0 else length routes)))
    \<and> (pr_exit p \<noteq> 0 \<longrightarrow> pr_exit p = 1 \<and> pr_stdout p = [] \<and> (\<exists>e. pr_stderr p = ''compiler: '' @ error_text e @ [LF]))"
proof -
  obtain res where run: "compiler_run wide srv env fl fs r = (res, fs', r')"
    and p: "p = (case res of Inl e \<Rightarrow> exit_error ''compiler'' e | Inr out \<Rightarrow> exit_ok out)"
    using assms(3) unfolding compiler_main_settings [OF assms(2)] bound_flags_settings [OF assms(2)] assms(4) [symmetric]
    by (auto split: prod.splits sum.splits)
  have flag: "\<not> fl_showVersion fl" by (simp add: assms(4))
  have err: "pr_exit p \<noteq> 0 \<longrightarrow> pr_exit p = 1 \<and> pr_stdout p = [] \<and> (\<exists>e. pr_stderr p = ''compiler: '' @ error_text e @ [LF])"
    and exit: "pr_exit p = 0 \<longleftrightarrow> \<not> isl res" and out: "\<And>x. res = Inr x \<Longrightarrow> pr_stdout p = x"
    using p by (auto simp: exit_error_def exit_ok_def split: sum.splits)
  show ?thesis
  proof (cases "fl_dsn fl \<noteq> [] \<and> ce_open_store env = None
      \<and> (\<exists>x. CompileAll wide (New (fl_helperPath fl) (fl_pacProxy fl)) (ce_queries env) = Inr x)")
    case False
    then have "isl res" using run flag by (auto simp: compiler_run_def split: if_splits option.splits sum.splits prod.splits)
    then show ?thesis using False err exit by auto
  next
    case True
    then obtain arts routes where c: "CompileAll wide (New (fl_helperPath fl) (fl_pacProxy fl)) (ce_queries env) = Inr (arts, routes)"
      by auto
    from True have dsn: "fl_dsn fl \<noteq> []" "ce_open_store env = None" by auto
    note d = compiler_run_done [OF flag dsn c, of fs srv r]
    show ?thesis
    proof (cases "files_ok env fl fs arts")
      case False
      then have "isl res" using d(2) run by auto
      then show ?thesis using False c err exit by auto
    next
      case True
      note d = d(1) [OF True, unfolded run]
      obtain n e r2 where sd: "seed srv (ce_set_at env) routes 0 r = (n, e, r2)" by (metis prod_cases3)
      have "pr_exit p = 0 \<longleftrightarrow> (fl_redisAddr fl \<noteq> [] \<longrightarrow> ce_open_redis env = None \<and> e = None)"
        using d exit by (auto simp: sd split: if_splits option.splits)
      moreover have "fs' = files_after env fl fs arts" using d by (auto simp: sd split: if_splits option.splits)
      moreover have "pr_exit p = 0 \<Longrightarrow> pr_stdout p = compiler_report arts routes (if fl_redisAddr fl = [] then 0 else length routes)"
        using d exit out seed_count [of srv "ce_set_at env" routes 0 r] by (auto simp: sd split: if_splits option.splits)
      moreover have "route_readable srv r' t x"
        if "pr_exit p = 0" "fl_redisAddr fl \<noteq> []" "distinct (map rt_Target routes)" "x \<in> set routes" "route_ok x" for x
      proof -
        have "e = None" "r' = r2" using d exit that(1,2) by (auto simp: sd split: option.splits)
        then show ?thesis using seed_readable [OF assms(1) _ that(3-5)] sd by blast
      qed
      ultimately show ?thesis using True c dsn err sd by auto
    qed
  qed
qed

definition wiki_env :: comp_env where
  "wiki_env = \<lparr>ce_open_store = None, ce_queries = wiki_queries, ce_read = (\<lambda>_ _. Inl (Msg ''no file'')),
     ce_mkdir = (\<lambda>_. None), ce_write = (\<lambda>_. None), ce_open_redis = None, ce_set_at = 5\<rparr>"

definition wiki_args :: "(string \<times> string) list" where
  "wiki_args = [(''dsn'', ''dsn''), (''redis-addr'', ''redis:6379''), (''squid-out'', ''squid''), (''pac-out'', ''out/proxy.pac'')]"

definition wiki_route :: Route where
  "wiki_route = \<lparr>rt_Target = ''wiki.helix'', rt_Tunnel = ''eu'', rt_Tier = 0, rt_BreakerState = ''closed''\<rparr>"

lemma wiki_opt:
  "compiler_args wiki_args" "compiler_opt (\<lambda>_. []) wiki_args ''dsn'' = ''dsn''"
  "compiler_opt (\<lambda>_. []) wiki_args ''redis-addr'' = ''redis:6379''" "compiler_opt (\<lambda>_. []) wiki_args ''squid-out'' = ''squid''"
  "compiler_opt (\<lambda>_. []) wiki_args ''pac-out'' = ''out/proxy.pac''" "compiler_opt (\<lambda>_. []) wiki_args ''dante-out'' = []"
  by (simp_all add: compiler_args_def wiki_args_def compiler_opt_def compiler_flags_def flag_string_def)

lemma wiki_compile_any: "\<exists>arts. CompileAll wide (New h p) wiki_queries = Inr (arts, [wiki_route])"
  by (simp add: CompileAll_def wiki_queries_def ResolveTunnels_def fill_map_def primaryTunnel_def
      wiki_target_def eu_profile_def wiki_route_def)

lemma wiki_exit: "pr_exit (fst (compiler_main wide mem_redis wiki_env (\<lambda>_. []) (map setting wiki_args) Map.empty
    (mem_empty\<lparr>ms_data := m\<rparr>))) = 0"
proof -
  let ?h = "compiler_opt (\<lambda>_. []) wiki_args ''helper-path''" and ?p = "compiler_opt (\<lambda>_. []) wiki_args ''pac-proxy''"
  obtain arts where "CompileAll wide (New ?h ?p) wiki_queries = Inr (arts, [wiki_route])"
    using wiki_compile_any by blast
  moreover have "Dir ''squid'' = ''.''" "Dir ''out/proxy.pac'' = ''out''" by code_simp+
  ultimately show ?thesis
    by (simp add: compiler_main_settings wiki_opt bound_flags_settings compiler_run_def wiki_env_def write_if_def write_dante_def
        writeFile_def SetRoute_def mem_set_def mem_empty_def exit_ok_def)
qed

theorem compiler_exit_status_witness:
  "\<exists>p fs' r' (arts :: Artifacts). compiler_main (\<lambda>_. True) mem_redis wiki_env (\<lambda>_. []) (map setting wiki_args) Map.empty mem_empty = (p, fs', r')
    \<and> pr_exit p = 0 \<and> route_readable mem_redis r' 9 wiki_route
    \<and> fs' ''squid'' = Some (ar_SquidInclude arts) \<and> fs' ''out/proxy.pac'' = Some (ar_PAC arts)"
proof -
  let ?o = "compiler_opt (\<lambda>_. []) wiki_args"
  obtain p fs' r' where run: "compiler_main (\<lambda>_. True) mem_redis wiki_env (\<lambda>_. []) (map setting wiki_args) Map.empty mem_empty = (p, fs', r')"
    by (metis prod_cases3)
  have p: "pr_exit p = 0" using wiki_exit [of "\<lambda>_. True" Map.empty] run by (simp add: mem_empty_def)
  obtain arts where c: "CompileAll (\<lambda>_. True) (New (?o ''helper-path'') (?o ''pac-proxy'')) (ce_queries wiki_env) = Inr (arts, [wiki_route])"
    using wiki_compile_any [of "\<lambda>_. True" "?o ''helper-path''" "?o ''pac-proxy''"] by (auto simp: wiki_env_def)
  have ok: "route_ok wiki_route" by (simp add: route_ok_def wiki_route_def visible_utf8 visible_def)
  show ?thesis
    using compiler_exit_status [OF mem.redis_server_axioms wiki_opt(1) run refl, of 9] run p c ok
    by (auto simp: wiki_opt files_after_def)
qed

text \<open>
  C31: the compiler never withdraws a route: whatever its arguments are and however it ends,
  the entry of every host that is not among the routes it resolved is the same afterwards. A
  target that was disabled or deleted since the last run keeps its route.
\<close>

theorem compiler_keeps_old_routes:
  assumes "redis_server srv view" and "compiler_main wide srv env os args fs r = (p, fs', r')"
    and "\<forall>h pac arts routes. CompileAll wide (New h pac) (ce_queries env) = Inr (arts, routes) \<longrightarrow> host \<notin> rt_Target ` set routes"
  shows "view r' (RouteKey host) = view r (RouteKey host)"
  using compiler_main_redis [OF assms(2)]
proof (elim disjE exE conjE)
  fix h pac arts routes n e
  assume "CompileAll wide (New h pac) (ce_queries env) = Inr (arts, routes)"
    and s: "seed srv (ce_set_at env) routes 0 r = (n, e, r')"
  then have "host \<notin> rt_Target ` set routes" using assms(3) by blast
  then show ?thesis using seed_view [OF assms(1) s, of "RouteKey host"] by auto
qed simp

theorem compiler_keeps_old_routes_witness:
  "\<exists>p fs' r'. compiler_main (\<lambda>_. True) mem_redis wiki_env (\<lambda>_. []) (map setting wiki_args) Map.empty
      (mem_empty\<lparr>ms_data := [RouteKey ''old.helix'' \<mapsto> (''x'', None)]\<rparr>) = (p, fs', r')
    \<and> pr_exit p = 0 \<and> ms_data r' (RouteKey ''old.helix'') = Some (''x'', None)"
proof -
  let ?m = "mem_empty\<lparr>ms_data := [RouteKey ''old.helix'' \<mapsto> (''x'', None)]\<rparr>"
  obtain p fs' r' where run: "compiler_main (\<lambda>_. True) mem_redis wiki_env (\<lambda>_. []) (map setting wiki_args) Map.empty ?m = (p, fs', r')"
    by (metis prod_cases3)
  have c: "\<exists>arts. CompileAll (\<lambda>_. True) (New h pac) (ce_queries wiki_env) = Inr (arts, [wiki_route])" for h pac
    using wiki_compile_any by (simp add: wiki_env_def)
  have "ms_data r' (RouteKey ''old.helix'') = ms_data ?m (RouteKey ''old.helix'')"
  proof (rule compiler_keeps_old_routes [OF mem.redis_server_axioms run], intro allI impI)
    fix h pac arts routes assume "CompileAll (\<lambda>_. True) (New h pac) (ce_queries wiki_env) = Inr (arts, routes)"
    then have "routes = [wiki_route]" using c [of h pac] by auto
    then show "''old.helix'' \<notin> rt_Target ` set routes" by (simp add: wiki_route_def)
  qed
  moreover have "pr_exit p = 0" using wiki_exit [of "\<lambda>_. True" "[RouteKey ''old.helix'' \<mapsto> (''x'', None)]"] run by simp
  ultimately show ?thesis using run by simp
qed

end
