(* ===== verification/System.thy ===== *)
theory System
  imports Acl_Helper Healthd Cmd_Compiler
begin

text \<open>
  The control plane as one system: the health publisher polling its profiles, the compiler
  seeding routes, and the helper reading what both left in Redis. The processes share
  nothing but the server, so a run is a sequence of their steps in any order; the log
  records every poll with what it met.
\<close>

subsection \<open>Definitions\<close>

record log_entry =
  lg_profile :: string
  lg_env :: poll_env
  lg_prev :: HealthSnapshot
  lg_snap :: HealthSnapshot

record 'r system =
  sy_redis :: 'r
  sy_prof :: "string \<Rightarrow> prof_state"
  sy_log :: "log_entry list"

definition sys_init :: "'r \<Rightarrow> 'r system" where
  "sys_init r = \<lparr>sy_redis = r, sy_prof = (\<lambda>_. prof_init), sy_log = []\<rparr>"

inductive sys_step ::
  "'r redis \<Rightarrow> (string \<Rightarrow> liveSampler) \<Rightarrow> run_config \<Rightarrow> DataPlaneEvaluator \<Rightarrow> 'r system \<Rightarrow> 'r system \<Rightarrow> bool"
  for srv :: "'r redis" and smp :: "string \<Rightarrow> liveSampler" and c :: run_config and ev :: DataPlaneEvaluator
where
  poll: "tick srv c p (smp p) ev env (sy_prof s p) (sy_redis s) = (cur, e, st', r') \<Longrightarrow>
    sys_step srv smp c ev s
      (s\<lparr>sy_redis := r', sy_prof := (sy_prof s)(p := st'),
         sy_log := \<lparr>lg_profile = p, lg_env = env, lg_prev = ps_prev (sy_prof s p), lg_snap = cur\<rparr> # sy_log s\<rparr>)"
| compile: "seed srv now routes n (sy_redis s) = (n', err, r') \<Longrightarrow>
    sys_step srv smp c ev s (s\<lparr>sy_redis := r'\<rparr>)"
| restart: "sys_step srv smp c ev s (s\<lparr>sy_prof := (sy_prof s)(p := prof_init)\<rparr>)"

inductive_cases sys_stepE: "sys_step srv smp c ev s s'"

inductive sys_reach ::
  "'r redis \<Rightarrow> (string \<Rightarrow> liveSampler) \<Rightarrow> run_config \<Rightarrow> DataPlaneEvaluator \<Rightarrow> 'r \<Rightarrow> 'r system \<Rightarrow> bool"
  for srv :: "'r redis" and smp :: "string \<Rightarrow> liveSampler" and c :: run_config and ev :: DataPlaneEvaluator
    and r0 :: 'r
where
  start: "sys_reach srv smp c ev r0 (sys_init r0)"
| step: "sys_reach srv smp c ev r0 s \<Longrightarrow> sys_step srv smp c ev s s' \<Longrightarrow> sys_reach srv smp c ev r0 s'"

subsection \<open>The tick on the server\<close>

lemma tick_view:
  assumes "redis_server srv view" and "tick srv c p s ev env st r = (cur, e, st', r')"
  shows "view r' = view r \<or> (\<exists>b. marshal_status cur = Some b \<and>
    view r' = (view r)(StatusKey p \<mapsto> entry_for b (pe_set_at env) (status_ttl c)))"
proof -
  let ?cur = "pollOnce env p s ev (ps_prev st) (rc_hostIP c)"
  obtain x r1 where set: "SetStatus srv r (pe_set_at env) ?cur (rc_ttlSeconds c) = (x, r1)" by fastforce
  have cur: "cur = ?cur" using tick_proj(1) [OF assms(2)] .
  have "view r' = view r1"
  proof (cases "hs_State ?cur = ps_lastReported st")
    case True
    then show ?thesis using assms(2) set by (simp add: tick_def Let_def)
  next
    case False
    obtain y r2 where p: "PublishEvent srv r1 (pe_publish_at env) \<lparr>ev_ProfileID = p, ev_State = hs_State ?cur\<rparr> = (y, r2)"
      by fastforce
    then have "r' = r2" using False assms(2) set by (simp add: tick_def Let_def)
    then show ?thesis using redis_server.PublishEvent_view [OF assms(1) p] by simp
  qed
  then show ?thesis
    using redis_server.SetStatus_view [OF assms(1) set] unfolding status_ttl_def cur by simp
qed

subsection \<open>The invariant\<close>

text \<open>Every stored status was written by a poll of its profile, and carries that poll's expiry.\<close>

definition logged :: "(string \<Rightarrow> liveSampler) \<Rightarrow> run_config \<Rightarrow> DataPlaneEvaluator \<Rightarrow> string \<Rightarrow> entry \<Rightarrow> log_entry \<Rightarrow> bool" where
  "logged smp c ev p en k \<longleftrightarrow>
     lg_profile k = p
     \<and> lg_snap k = pollOnce (lg_env k) p (smp p) ev (lg_prev k) (rc_hostIP c)
     \<and> (\<exists>b. marshal_status (lg_snap k) = Some b \<and> en = entry_for b (pe_set_at (lg_env k)) (status_ttl c))"

definition status_inv ::
  "('r \<Rightarrow> string \<Rightarrow> entry option) \<Rightarrow> (string \<Rightarrow> liveSampler) \<Rightarrow> run_config \<Rightarrow> DataPlaneEvaluator \<Rightarrow> 'r system \<Rightarrow> bool" where
  "status_inv view smp c ev s \<longleftrightarrow>
     (\<forall>p en. view (sy_redis s) (StatusKey p) = Some en \<longrightarrow> (\<exists>k \<in> set (sy_log s). logged smp c ev p en k))"

lemma status_inv_step:
  assumes "redis_server srv view" and "status_inv view smp c ev s" and "sys_step srv smp c ev s s'"
  shows "status_inv view smp c ev s'"
  using assms(3)
proof (cases rule: sys_step.cases)
  case (poll p env cur e st' r')
  note cur = tick_proj(1) [OF poll(2)]
  let ?k = "\<lparr>lg_profile = p, lg_env = env, lg_prev = ps_prev (sy_prof s p), lg_snap = cur\<rparr>"
  have new: "logged smp c ev p (entry_for b (pe_set_at env) (status_ttl c)) ?k" if "marshal_status cur = Some b" for b
    using that cur by (auto simp: logged_def)
  from tick_view [OF assms(1) poll(2)] show ?thesis
    using assms(2) new unfolding poll(1) status_inv_def by (auto split: if_splits) blast
next
  case (compile now routes n n' err r')
  have "view r' (StatusKey p) = view (sy_redis s) (StatusKey p)" for p
    using seed_view [OF assms(1) compile(2), of "StatusKey p"] by auto
  then show ?thesis using assms(2) unfolding compile(1) status_inv_def by simp
next
  case (restart p)
  then show ?thesis using assms(2) by (simp add: status_inv_def)
qed

lemma status_inv_reach:
  assumes "redis_server srv view" and "\<And>p. view r0 (StatusKey p) = None"
    and "sys_reach srv smp c ev r0 s"
  shows "status_inv view smp c ev s"
  using assms(3)
proof induction
  case start
  then show ?case using assms(2) by (simp add: status_inv_def sys_init_def)
next
  case (step s s')
  then show ?case using status_inv_step [OF assms(1)] by blast
qed

lemma live_entry_for:
  "live (Some (entry_for b t ttl)) now = Some v \<longleftrightarrow> v = b \<and> (ttl \<le> 0 \<or> now < t + ttl)"
  by (auto simp: live_def entry_for_def)

subsection \<open>From an allowed request back to the poll\<close>

lemma allowed_logged:
  assumes srv: "redis_server srv view" and init: "\<And>p. view r0 (StatusKey p) = None"
    and reach: "sys_reach srv smp c ev r0 s"
    and ok: "Decide (redis_bus srv cl r1 t1 (sy_redis s) t2) host = (True, tag)"
    and utf8: "\<And>k. k \<in> set (sy_log s) \<Longrightarrow> snapshot_ok (lg_snap k)"
  obtains k where "k \<in> set (sy_log s)" "lg_profile k = tag"
    "lg_snap k = pollOnce (lg_env k) tag (smp tag) ev (lg_prev k) (rc_hostIP c)"
    "hs_State (lg_snap k) = StateUp"
    "status_ttl c \<le> 0 \<or> t2 < pe_set_at (lg_env k) + status_ttl c"
    "\<not> (0 < maxAge cl \<and> maxAge cl < Sub t2 (hs_CheckedAt (lg_snap k)))"
proof -
  from Decide_redis [OF srv ok] obtain sb snap where
    lv: "live (view (sy_redis s) (StatusKey tag)) t2 = Some sb" and um: "unmarshal_status sb = Some snap"
    and up: "hs_State snap = StateUp" "\<not> (0 < maxAge cl \<and> maxAge cl < Sub t2 (hs_CheckedAt snap))" by blast
  from lv obtain en where en: "view (sy_redis s) (StatusKey tag) = Some en" by (auto simp: live_def split: option.splits)
  from status_inv_reach [OF srv init reach] en obtain k where k: "k \<in> set (sy_log s)" "logged smp c ev tag en k"
    unfolding status_inv_def by blast
  then obtain b where b: "marshal_status (lg_snap k) = Some b"
    "en = entry_for b (pe_set_at (lg_env k)) (status_ttl c)" unfolding logged_def by blast
  have sb: "sb = b" and ttl: "status_ttl c \<le> 0 \<or> t2 < pe_set_at (lg_env k) + status_ttl c"
    using lv en b(2) by (simp_all add: live_entry_for)
  have "snap = lg_snap k" using unmarshal_marshal_status [OF b(1) utf8 [OF k(1)]] um sb by simp
  with that [of k] k up ttl show thesis by (auto simp: logged_def)
qed

subsection \<open>From a fresh poll to an allowed request\<close>

lemma allowed_when_stored:
  assumes "rd_Get srv r1 t1 (RouteKey host) = GetBytes (marshal_route route)" and "route_ok route"
    and "host \<noteq> []" and "rt_Tunnel route \<noteq> []"
    and "rd_Get srv r2 t2 (StatusKey (rt_Tunnel route)) = GetBytes b"
    and "marshal_status snap = Some b" and "snapshot_ok snap" and "hs_State snap = StateUp"
    and "\<not> (0 < maxAge cl \<and> maxAge cl < Sub t2 (hs_CheckedAt snap))"
  shows "Decide (redis_bus srv cl r1 t1 r2 t2) host = (True, rt_Tunnel route)"
proof -
  have "GetRoute srv r1 t1 host = Inr route"
    using assms(1) unmarshal_marshal_route [OF assms(2)] by (simp add: GetRoute_def)
  moreover have "hs_State (fst (GetStatus srv cl r2 t2 (rt_Tunnel route))) = StateUp"
    using assms(5,8,9) unmarshal_marshal_status [OF assms(6,7)]
    by (simp add: GetStatus_def evaluateStatus_up_iff)
  moreover have "snd (GetStatus srv cl r2 t2 (rt_Tunnel route)) = None"
    using assms(5) by (simp add: GetStatus_def)
  ultimately show ?thesis using assms(3,4) by (simp add: Decide_True redis_bus_def)
qed

lemma tick_stored:
  assumes "redis_server srv view" and "tick srv c p s ev env st r = (cur, e, st', r')"
    and "fst (SetStatus srv r (pe_set_at env) cur (rc_ttlSeconds c)) = None"
  shows "\<exists>b. marshal_status cur = Some b \<and>
    view r' = (view r)(StatusKey p \<mapsto> entry_for b (pe_set_at env) (status_ttl c))"
proof -
  note cur = tick_proj(1) [OF assms(2)]
  obtain r1 where set: "SetStatus srv r (pe_set_at env) cur (rc_ttlSeconds c) = (None, r1)"
    using assms(3) by (metis prod.collapse)
  obtain y r2 where p: "PublishEvent srv r1 (pe_publish_at env) \<lparr>ev_ProfileID = p, ev_State = hs_State cur\<rparr> = (y, r2)"
    by fastforce
  have "r' = r1 \<or> r' = r2"
    using assms(2) set p unfolding cur by (auto simp: tick_def Let_def split: if_splits)
  then have "view r' = view r1" using redis_server.PublishEvent_view [OF assms(1) p] by auto
  moreover have "hs_Profile cur = p" by (simp add: cur)
  ultimately show ?thesis
    using redis_server.SetStatus_ok_view [OF assms(1) set] by (simp add: status_ttl_def)
qed

end
