(* ===== verification/Example_Run.thy ===== *)
theory Example_Run
  imports System
begin

text \<open>
  A concrete run on the in-memory server: one profile \<open>eu\<close> whose tunnel proxy answers, one
  route to it, one poll. The facts here instantiate the system theorems.
\<close>

subsection \<open>Definitions\<close>

definition ex_route :: Route where
  "ex_route = \<lparr>rt_Target = ''wiki.helix'', rt_Tunnel = ''eu'', rt_Tier = 0, rt_BreakerState = ''closed''\<rparr>"

definition ex_client :: Client where
  "ex_client = \<lparr>maxAge = 60 * Second\<rparr>"

text \<open>The server after the route is seeded, and the system after that and one poll.\<close>

definition ex_seeded :: mem_state where
  "ex_seeded = snd (snd (seed mem_redis ex_t0 [ex_route] 0 mem_empty))"

definition ex_tick :: "HealthSnapshot \<times> (Event \<times> go_error option) option \<times> prof_state \<times> mem_state" where
  "ex_tick = tick mem_redis ex_cfg ''eu'' (ex_sampler ''eu'') ex_eval ex_env prof_init ex_seeded"

definition ex_polled :: mem_state where
  "ex_polled = snd (snd (snd ex_tick))"

definition ex_sys :: "mem_state system" where
  "ex_sys = \<lparr>sy_redis = ex_polled, sy_prof = (\<lambda>_. prof_init)(''eu'' := fst (snd (snd ex_tick))),
     sy_log = [\<lparr>lg_profile = ''eu'', lg_env = ex_env, lg_prev = zero_HealthSnapshot, lg_snap = ex_snap\<rparr>]\<rparr>"

subsection \<open>The values\<close>

lemma ex_marshal: "\<exists>b. marshal_status ex_snap = Some b"
proof -
  have "formatRFC3339Nano 0 \<noteq> None"
    by (rule formatRFC3339Nano_defined) (simp_all add: split_days_def)
  moreover have "formatRFC3339Nano ex_t0 \<noteq> None"
    by (rule formatRFC3339Nano_defined) (simp_all add: split_days_def ex_t0_def Let_def)
  ultimately show ?thesis
    by (auto simp: marshal_status_def status_json_def time_json_def ex_snap_def)
qed

lemma ex_ok: "snapshot_ok ex_snap" "route_ok ex_route"
  by (simp_all add: snapshot_ok_def route_ok_def ex_snap_def ex_route_def visible_utf8 visible_def StateUp_def)

subsection \<open>The run\<close>

lemma ex_seeded_eq:
  "seed mem_redis ex_t0 [ex_route] 0 mem_empty = (1, None, ex_seeded)"
  "ex_seeded = mem_empty\<lparr>ms_data := [RouteKey ''wiki.helix'' \<mapsto> (marshal_route ex_route, None)]\<rparr>"
  by (simp_all add: ex_seeded_def SetRoute_def mem_set_def mem_empty_def entry_for_def ex_route_def)

lemma ex_tick_eq:
  "tick mem_redis ex_cfg ''eu'' (ex_sampler ''eu'') ex_eval ex_env prof_init ex_seeded
     = (ex_snap, fst (snd ex_tick), fst (snd (snd ex_tick)), ex_polled)"
proof -
  have "fst ex_tick = ex_snap"
    using tick_proj(1) [of mem_redis ex_cfg "''eu''" "ex_sampler ''eu''" ex_eval ex_env prof_init ex_seeded]
    by (metis ex_tick_def ex_poll prof_init_def prod.collapse prof_state.select_convs(1))
  then show ?thesis by (metis ex_tick_def ex_polled_def prod.collapse)
qed

lemma ex_set_ok: "fst (SetStatus mem_redis ex_seeded (pe_set_at ex_env) ex_snap (rc_ttlSeconds ex_cfg)) = None"
  using ex_marshal by (auto simp: SetStatus_def Let_def ex_seeded_eq(2) mem_set_def mem_empty_def)

lemma ex_ttl: "status_ttl ex_cfg = 15 * Second"
  by (simp add: status_ttl_def ex_cfg_def wrap_int64_def Second_def)

lemma ex_polled_data:
  "\<exists>b. marshal_status ex_snap = Some b \<and>
     ms_data ex_polled = (ms_data ex_seeded)(StatusKey ''eu'' \<mapsto> entry_for b (ex_t0 + Second) (15 * Second))"
  using tick_stored [OF mem.redis_server_axioms ex_tick_eq ex_set_ok] by (simp add: ex_ttl ex_env_def)

lemma ex_polled_up: "\<not> ms_down ex_polled"
proof -
  have "\<not> ms_down (snd (SetStatus mem_redis ex_seeded t ex_snap x))" for t x
    by (auto simp: SetStatus_def Let_def ex_seeded_eq(2) mem_set_def mem_empty_def split: option.splits)
  moreover have "\<not> ms_down m \<Longrightarrow> \<not> ms_down (snd (PublishEvent mem_redis m t ev))" for m t ev
    by (auto simp: PublishEvent_def mem_publish_def)
  ultimately show ?thesis
    using ex_tick_eq unfolding tick_def Let_def ex_poll
    by (auto simp: prof_init_def ex_poll case_prod_beta split: if_splits) (metis prod.collapse snd_conv)+
qed

lemma ex_reach: "sys_reach mem_redis ex_sampler ex_cfg ex_eval mem_empty ex_sys"
proof -
  have 1: "sys_step mem_redis ex_sampler ex_cfg ex_eval (sys_init mem_empty) ((sys_init mem_empty)\<lparr>sy_redis := ex_seeded\<rparr>)"
    by (rule sys_step.compile [where now = ex_t0 and routes = "[ex_route]" and n = 0 and n' = 1 and err = None])
      (simp add: sys_init_def ex_seeded_eq(1) del: seed.simps)
  have "sys_step mem_redis ex_sampler ex_cfg ex_eval ((sys_init mem_empty)\<lparr>sy_redis := ex_seeded\<rparr>) ex_sys"
    using sys_step.poll [of mem_redis ex_cfg "''eu''" ex_sampler ex_eval ex_env
        "(sys_init mem_empty)\<lparr>sy_redis := ex_seeded\<rparr>", simplified sys_init_def, simplified, OF ex_tick_eq]
    by (simp add: sys_init_def ex_sys_def prof_init_def)
  with 1 show ?thesis using sys_reach.intros by metis
qed

lemma ex_get_route: "rd_Get mem_redis ex_polled t (RouteKey ''wiki.helix'') = GetBytes (marshal_route ex_route)"
  using ex_polled_data ex_polled_up by (auto simp: mem_get_def ex_seeded_eq(2) live_def)

lemma ex_allowed:
  "Decide (redis_bus mem_redis ex_client ex_polled (ex_t0 + 2 * Second) ex_polled (ex_t0 + 2 * Second)) ''wiki.helix''
     = (True, ''eu'')"
proof -
  obtain b where b: "marshal_status ex_snap = Some b"
    "ms_data ex_polled = (ms_data ex_seeded)(StatusKey ''eu'' \<mapsto> entry_for b (ex_t0 + Second) (15 * Second))"
    using ex_polled_data by blast
  have "rd_Get mem_redis ex_polled (ex_t0 + 2 * Second) (StatusKey ''eu'') = GetBytes b"
    using b(2) ex_polled_up by (simp add: mem_get_def live_def entry_for_def Second_def)
  then show ?thesis
    using allowed_when_stored [OF ex_get_route ex_ok(2), of ex_polled "ex_t0 + 2 * Second" b ex_snap ex_client] b(1) ex_ok(1)
    by (simp add: ex_route_def ex_snap_def ex_client_def Sub_def Second_def)
qed

end
