(* ===== verification/Store_Gate.thy ===== *)
theory Store_Gate
  imports Store_Compile Example_Run
begin

text \<open>
  From a row of the database to the verdict on a request: the compiler reads the store and
  seeds Redis, the publisher polls a tunnel, the helper answers.
\<close>

subsection \<open>What the compiler seeds\<close>

definition routes_of :: "pg_types \<Rightarrow> db \<Rightarrow> Route list" where
  "routes_of t db = List.map_filter (db_route db) (sort_key (\<lambda>r. pg_key t (tr_alias r)) (db_targets db))"

lemma routes_of_set: "set (routes_of t db) = {x. \<exists>row \<in> set (db_targets db). db_route db row = Some x}"
  by (auto simp: routes_of_def List.map_filter_def image_iff) force

lemma db_route_target: "db_route db row = Some x \<Longrightarrow> rt_Target x = tr_alias row \<and> rt_Tunnel x \<noteq> []"
  by (auto simp: db_route_def bind_eq_Some_conv split: if_splits)

lemma map_filter_distinct:
  assumes "distinct (map k xs)" and "\<And>x y. f x = Some y \<Longrightarrow> g y = k x"
  shows "distinct (map g (List.map_filter f xs))"
  using assms(1)
proof (induction xs)
  case (Cons x xs)
  have "g ` set (List.map_filter f xs) \<subseteq> k ` set xs" using assms(2) by (auto simp: List.map_filter_def)
  then show ?case using Cons assms(2) by (cases "f x") (auto simp: map_filter_simps)
qed (simp add: map_filter_simps)

lemma routes_of_distinct: "db_ok t db \<Longrightarrow> distinct (map rt_Target (routes_of t db))"
proof -
  assume "db_ok t db"
  then have "distinct (map tr_alias (sort_key (\<lambda>r. pg_key t (tr_alias r)) (db_targets db)))"
    by (simp add: db_ok_def targets_ok_def distinct_map)
  then show ?thesis unfolding routes_of_def by (rule map_filter_distinct) (simp add: db_route_target)
qed

lemma compiler_seeds_database:
  assumes "pg_laws t" and "db_ok t db"
    and "se_fault env_p = NoFault" and "se_fault env_t = NoFault" and "\<forall>i. se_fault (env_tiers i) = NoFault"
    and "ce_queries env = store_queries t env_p env_t env_tiers db"
    and "compiler_args xs" and "compiler_main wide srv env os (map setting xs) fs r = (fin, fs', r')"
    and "pr_exit fin = 0" and "compiler_opt os xs ''redis-addr'' \<noteq> []"
  shows "\<exists>n. seed srv (ce_set_at env) (routes_of t db) 0 r = (n, None, r')"
proof -
  let ?e = "New (compiler_opt os xs ''helper-path'') (compiler_opt os xs ''pac-proxy'')"
  obtain arts routes where c: "CompileAll wide ?e (ce_queries env) = Inr (arts, routes)"
    and s: "compiler_opt os xs ''redis-addr'' = [] \<and> r' = r \<or> (\<exists>n. seed srv (ce_set_at env) routes 0 r = (n, None, r'))"
    by (rule compiler_main_ok [OF assms(7-9)])
  have "routes = routes_of t db"
    using CompileAll_of_store [OF assms(1-5), of wide ?e] c unfolding assms(6) routes_of_def by auto
  then show ?thesis using s assms(10) by simp
qed

subsection \<open>What the helper answers\<close>

lemma seeded_route:
  assumes "redis_server srv view" and "seed srv now routes 0 r0 = (n, err, r1)"
    and "\<forall>h. view r0 (RouteKey h) = None" and "view r1 (RouteKey h) = Some en"
  shows "\<exists>x \<in> set routes. rt_Target x = h \<and> en = (marshal_route x, None)"
  using seed_view [OF assms(1,2), of "RouteKey h"] assms(3,4) by auto

subsection \<open>Properties\<close>

text \<open>
  C3: the gate follows the database. Let the compiler exit with status 0 over the store, into a
  Redis that held no route, and let a poll of a tunnel then be "up" and stored. As long as
  Redis answers and the status is neither expired nor over age, the helper sends the requests
  for a host into that tunnel exactly when a row of the database routes that host to it: an
  enabled target of that alias whose first tier, or own profile if it has none, is the
  enabled profile of that name. In particular the later tiers of a target play no part: its
  requests go into no other tunnel when that of its first tier is down, although the schema
  describes the tiers as tried in turn.
\<close>

theorem gate_follows_database:
  assumes "redis_server srv view" and "pg_laws t" and "db_ok t db"
    and "se_fault env_p = NoFault" and "se_fault env_t = NoFault" and "\<forall>i. se_fault (env_tiers i) = NoFault"
    and "ce_queries env = store_queries t env_p env_t env_tiers db"
    and "compiler_args xs" and "compiler_main wide srv env os (map setting xs) fs r0 = (fin, fs', r1)"
    and "pr_exit fin = 0" and "compiler_opt os xs ''redis-addr'' \<noteq> []"
    and "\<forall>h. view r0 (RouteKey h) = None"
    and "\<forall>row \<in> set (db_targets db). \<forall>x. db_route db row = Some x \<longrightarrow> route_ok x"
    and "tick srv c p smp ev poll st r1 = (cur, e, st', r2)"
    and "fst (SetStatus srv r1 (pe_set_at poll) cur (rc_ttlSeconds c)) = None"
    and "hs_State cur = StateUp" and "snapshot_ok cur"
    and "0 < status_ttl c" and "t2 < pe_set_at poll + status_ttl c"
    and "maxAge cl \<le> 0 \<or> Sub t2 (hs_CheckedAt cur) \<le> maxAge cl"
    and "\<forall>k e. rd_Get srv r2 t1 k \<noteq> GetErr e" and "\<forall>k e. rd_Get srv r2 t2 k \<noteq> GetErr e"
    and "host \<noteq> []"
  shows "Decide (redis_bus srv cl r2 t1 r2 t2) host = (True, p) \<longleftrightarrow>
    (\<exists>row \<in> set (db_targets db). \<exists>x. db_route db row = Some x \<and> tr_alias row = host \<and> rt_Tunnel x = p)"
proof -
  obtain n where seed: "seed srv (ce_set_at env) (routes_of t db) 0 r0 = (n, None, r1)"
    using compiler_seeds_database [OF assms(2-11)] by blast
  obtain b where b: "marshal_status cur = Some b"
    and v: "view r2 = (view r1)(StatusKey p \<mapsto> entry_for b (pe_set_at poll) (status_ttl c))"
    using tick_stored [OF assms(1,14,15)] by blast
  have vr: "view r2 (RouteKey h) = view r1 (RouteKey h)" for h by (simp add: v)
  have ok: "route_ok x" if "x \<in> set (routes_of t db)" for x using that assms(13) by (auto simp: routes_of_set)
  have "live (view r2 (StatusKey p)) t2 = Some b" using assms(18,19) by (simp add: v live_entry_for)
  then have status: "rd_Get srv r2 t2 (StatusKey p) = GetBytes b" using get_live [OF assms(1)] assms(22) by blast
  show ?thesis
  proof
    assume "Decide (redis_bus srv cl r2 t1 r2 t2) host = (True, p)"
    from Decide_redis [OF assms(1) this] obtain rb route where live: "live (view r1 (RouteKey host)) t1 = Some rb"
      and rb: "unmarshal_route rb = Some route" "rt_Tunnel route = p"
      unfolding vr by blast
    then obtain x where x: "x \<in> set (routes_of t db)" "rt_Target x = host" "rb = marshal_route x"
      using seeded_route [OF assms(1) seed assms(12)] by (fastforce simp: live_def split: option.splits)
    then have "route = x" using rb(1) unmarshal_marshal_route [OF ok] by simp
    moreover from x(1) obtain row where row: "row \<in> set (db_targets db)" "db_route db row = Some x"
      by (auto simp: routes_of_set)
    ultimately show "\<exists>row \<in> set (db_targets db). \<exists>x. db_route db row = Some x \<and> tr_alias row = host \<and> rt_Tunnel x = p"
      using x(2) rb(2) db_route_target [OF row(2)] by (intro bexI [OF _ row(1)]) simp
  next
    assume "\<exists>row \<in> set (db_targets db). \<exists>x. db_route db row = Some x \<and> tr_alias row = host \<and> rt_Tunnel x = p"
    then obtain x where x: "x \<in> set (routes_of t db)" "rt_Target x = host" "rt_Tunnel x = p" "rt_Tunnel x \<noteq> []"
      using db_route_target by (fastforce simp: routes_of_set)
    have "live (view r2 (RouteKey host)) t1 = Some (marshal_route x)"
      using seed_all [OF assms(1) seed routes_of_distinct [OF assms(3)] x(1)] by (simp add: vr x(2) live_def)
    then have "rd_Get srv r2 t1 (RouteKey host) = GetBytes (marshal_route x)" using get_live [OF assms(1)] assms(21) by blast
    from allowed_when_stored [OF this ok [OF x(1)] assms(23) x(4), of r2 t2 b cur cl]
    show "Decide (redis_bus srv cl r2 t1 r2 t2) host = (True, p)"
      using status b x(3) assms(16,17,20) by auto
  qed
qed

definition gate_env :: comp_env where
  "gate_env = wiki_env\<lparr>ce_queries := store_queries ref_types ref_env ref_env (\<lambda>_. ref_env) wiki_db, ce_set_at := ex_t0\<rparr>"

lemma wiki_db_route: "row \<in> set (db_targets wiki_db) \<Longrightarrow> db_route wiki_db row = Some ex_route"
  by (simp add: wiki_db_def db_route_def primary_def tier_chain_def row_wiki_def row_eu_def ex_route_def)

lemma gate_run_queries:
  assumes "\<And>e. \<exists>arts. CompileAll wide e q = Inr (arts, [ex_route])"
  shows "\<exists>fin fs'. pr_exit fin = 0 \<and>
    compiler_main wide mem_redis (gate_env\<lparr>ce_queries := q\<rparr>) (\<lambda>_. []) (map setting wiki_args) Map.empty mem_empty = (fin, fs', ex_seeded)"
proof -
  obtain arts where "CompileAll wide (New (compiler_opt (\<lambda>_. []) wiki_args ''helper-path'') (compiler_opt (\<lambda>_. []) wiki_args ''pac-proxy'')) q
      = Inr (arts, [ex_route])"
    using assms by blast
  moreover have "Dir ''squid'' = ''.''" "Dir ''out/proxy.pac'' = ''out''" by code_simp+
  ultimately show ?thesis
    using ex_seeded_eq(1)
    by (simp add: compiler_main_settings wiki_opt bound_flags_settings compiler_run_def gate_env_def wiki_env_def write_if_def
        write_dante_def writeFile_def del: seed.simps)
qed

lemma gate_run: "\<exists>fin fs'. pr_exit fin = 0 \<and>
  compiler_main wide mem_redis gate_env (\<lambda>_. []) (map setting wiki_args) Map.empty mem_empty = (fin, fs', ex_seeded)"
proof -
  let ?q = "store_queries ref_types ref_env ref_env (\<lambda>_. ref_env) wiki_db"
  have nf: "se_fault ref_env = NoFault" by (simp add: ref_env_def)
  have "List.map_filter (db_route wiki_db) (sort_key (\<lambda>r. pg_key ref_types (tr_alias r)) (db_targets wiki_db)) = [ex_route]"
    using wiki_db_route by (simp add: wiki_db_def map_filter_simps)
  then have "\<exists>arts. CompileAll wide e ?q = Inr (arts, [ex_route])" for e
    using CompileAll_of_store [OF ref_pg.pg_laws_axioms wiki_db_ok nf nf, of "\<lambda>_. ref_env" wide e] nf by auto
  moreover have "gate_env\<lparr>ce_queries := ?q\<rparr> = gate_env" by (simp add: gate_env_def)
  ultimately show ?thesis using gate_run_queries [of wide ?q] by simp
qed

theorem gate_follows_database_witness:
  "Decide (redis_bus mem_redis ex_client ex_polled (ex_t0 + 2 * Second) ex_polled (ex_t0 + 2 * Second)) ''wiki.helix'' = (True, ''eu'')"
proof -
  have nf: "se_fault ref_env = NoFault" by (simp add: ref_env_def)
  have q: "ce_queries gate_env = store_queries ref_types ref_env ref_env (\<lambda>_. ref_env) wiki_db" by (simp add: gate_env_def)
  obtain fin fs' where run: "pr_exit fin = 0"
    "compiler_main (\<lambda>_. True) mem_redis gate_env (\<lambda>_. []) (map setting wiki_args) Map.empty mem_empty = (fin, fs', ex_seeded)"
    using gate_run by blast
  have err: "\<forall>k e. rd_Get mem_redis ex_polled (ex_t0 + 2 * Second) k \<noteq> GetErr e"
    using ex_polled_up by (auto simp: mem_get_def split: option.splits)
  have "Decide (redis_bus mem_redis ex_client ex_polled (ex_t0 + 2 * Second) ex_polled (ex_t0 + 2 * Second)) ''wiki.helix'' = (True, ''eu'')
    \<longleftrightarrow> (\<exists>row \<in> set (db_targets wiki_db). \<exists>x. db_route wiki_db row = Some x \<and> tr_alias row = ''wiki.helix'' \<and> rt_Tunnel x = ''eu'')"
  proof (rule gate_follows_database [OF mem.redis_server_axioms ref_pg.pg_laws_axioms wiki_db_ok nf nf _ q wiki_opt(1) run(2,1) _ _ _ ex_tick_eq ex_set_ok])
    show "\<forall>h. ms_data mem_empty (RouteKey h) = None" by (simp add: mem_empty_def)
    show "\<forall>row \<in> set (db_targets wiki_db). \<forall>x. db_route wiki_db row = Some x \<longrightarrow> route_ok x"
      using wiki_db_route ex_ok(2) by auto
    show "ex_t0 + 2 * Second < pe_set_at ex_env + status_ttl ex_cfg" by (simp add: ex_ttl ex_env_def Second_def)
    show "maxAge ex_client \<le> 0 \<or> Sub (ex_t0 + 2 * Second) (hs_CheckedAt ex_snap) \<le> maxAge ex_client"
      by (simp add: ex_client_def ex_snap_def Sub_def Second_def)
  qed (use nf err ex_ok in \<open>simp_all add: ex_ttl Second_def ex_snap_def wiki_opt\<close>)
  moreover have "\<exists>row \<in> set (db_targets wiki_db). \<exists>x. db_route wiki_db row = Some x \<and> tr_alias row = ''wiki.helix'' \<and> rt_Tunnel x = ''eu''"
    using wiki_db_route by (auto simp: wiki_db_def row_wiki_def ex_route_def)
  ultimately show ?thesis by simp
qed

end
