(* ===== verification/Api.thy ===== *)
theory Api
  imports Store_Postgres Pac
begin

text \<open>
  \<open>control-plane/internal/api/handlers.go\<close> and the routing table of \<open>server.go\<close>: the REST
  handlers over the store. A request carries its method, its escaped path, the common names
  of the verified client certificates and the bytes of its body that arrived; a handler
  gives the response and the database after it. The wording of the JSON decoder's errors is
  a parameter, and so is the table of printable runes behind \<open>%q\<close> in the PAC file.
\<close>

subsection \<open>Definitions\<close>

subsubsection \<open>DTOs\<close>

record profileDTO =
  pd_ID :: string
  pd_Name :: string
  pd_Type :: string
  pd_Config :: string
  pd_SecretRef :: string
  pd_Enabled :: bool

record targetDTO =
  td_ID :: string
  td_PublicAlias :: string
  td_PrivateIP :: string
  td_Port :: int
  td_Protocol :: string
  td_VPNProfileID :: string
  td_HealthCheck :: string
  td_Enabled :: bool

record ruleDTO =
  rd_ID :: string
  rd_Priority :: int
  rd_MatchHost :: string
  rd_MatchPath :: string
  rd_TargetHostID :: string
  rd_Enabled :: bool

record tierDTO =
  id_TargetID :: string
  id_VPNProfileID :: string
  id_Tier :: int

record userDTO =
  ud_ID :: string
  ud_Username :: string
  ud_SecretRef :: string
  ud_Role :: string
  ud_Enabled :: bool

definition profileToDTO :: "VPNProfile \<Rightarrow> profileDTO" where
  "profileToDTO p =
     \<lparr>pd_ID = vp_ID p, pd_Name = vp_Name p, pd_Type = vp_Type p, pd_Config = vp_Config p,
      pd_SecretRef = vp_SecretRef p, pd_Enabled = vp_Enabled p\<rparr>"

definition targetToDTO :: "TargetHost \<Rightarrow> targetDTO" where
  "targetToDTO t =
     \<lparr>td_ID = th_ID t, td_PublicAlias = th_PublicAlias t, td_PrivateIP = th_PrivateIP t, td_Port = th_Port t,
      td_Protocol = th_Protocol t, td_VPNProfileID = th_VPNProfileID t, td_HealthCheck = th_HealthCheck t,
      td_Enabled = th_Enabled t\<rparr>"

definition ruleToDTO :: "ProxyRule \<Rightarrow> ruleDTO" where
  "ruleToDTO r =
     \<lparr>rd_ID = pr_ID r, rd_Priority = pr_Priority r, rd_MatchHost = pr_MatchHost r, rd_MatchPath = pr_MatchPath r,
      rd_TargetHostID = pr_TargetHostID r, rd_Enabled = pr_Enabled r\<rparr>"

definition tierToDTO :: "TargetTunnelTier \<Rightarrow> tierDTO" where
  "tierToDTO t = \<lparr>id_TargetID = tt_TargetID t, id_VPNProfileID = tt_VPNProfileID t, id_Tier = tt_Tier t\<rparr>"

definition userToDTO :: "ProxyUser \<Rightarrow> userDTO" where
  "userToDTO u =
     \<lparr>ud_ID = pu_ID u, ud_Username = pu_Username u, ud_SecretRef = pu_SecretRef u, ud_Role = pu_Role u,
      ud_Enabled = pu_Enabled u\<rparr>"

subsubsection \<open>JSON out\<close>

text \<open>
  \<open>json.Compact\<close> with HTML escaping, as the encoder applies it to a \<open>RawMessage\<close>: spaces
  outside of strings go; the state is outside of strings, inside, or inside after a
  backslash.
\<close>

datatype compact_state = Outside | Inside | Escaped

fun compact :: "compact_state \<Rightarrow> string \<Rightarrow> string" where
  "compact st [] = []"
| "compact st (c # s) =
     (if c = CHR ''<'' \<or> c = CHR ''>'' \<or> c = CHR ''&'' then
        [CHR 0x5C, CHR ''u'', CHR ''0'', CHR ''0'', hex_digit (byte_of c div 16), hex_digit (byte_of c mod 16)]
          @ compact (if st = Escaped then Inside else st) s
      else if c = CHR 0xE2 \<and> (take 2 s = [CHR 0x80, CHR 0xA8] \<or> take 2 s = [CHR 0x80, CHR 0xA9]) then
        [CHR 0x5C, CHR ''u'', CHR ''2'', CHR ''0'', CHR ''2'', hex_digit (byte_of (s ! 1) mod 16)]
          @ compact (if st = Escaped then Inside else st) (drop 2 s)
      else case st of
          Outside \<Rightarrow> if json_space c then compact Outside s
                     else c # compact (if c = CHR 0x22 then Inside else Outside) s
        | Inside \<Rightarrow> c # compact (if c = CHR 0x5C then Escaped else if c = CHR 0x22 then Outside else Inside) s
        | Escaped \<Rightarrow> c # compact Inside s)"

text \<open>
  An object of printed members, those marked \<open>omitempty\<close> and empty left out; \<open>None\<close> is an
  error of the encoder, which writes nothing then.
\<close>

definition print_object :: "(string \<times> string) list \<Rightarrow> string" where
  "print_object ms = ''{'' @ Join (map (\<lambda>kv. print_string (fst kv) @ '':'' @ snd kv) ms) '','' @ ''}''"

definition print_array :: "string list \<Rightarrow> string" where
  "print_array vs = ''['' @ Join vs '','' @ '']''"

definition opt_string :: "string \<Rightarrow> string \<Rightarrow> (string \<times> string) list" where
  "opt_string k s = (if s = [] then [] else [(k, print_string s)])"

definition print_bool :: "bool \<Rightarrow> string" where
  "print_bool b = (if b then ''true'' else ''false'')"

definition marshal_profile :: "profileDTO \<Rightarrow> string option" where
  "marshal_profile d =
     (if pd_Config d \<noteq> [] \<and> parse_json (pd_Config d) = None then None
      else Some (print_object
        (opt_string ''id'' (pd_ID d) @ [(''name'', print_string (pd_Name d))] @ opt_string ''type'' (pd_Type d)
         @ (if pd_Config d = [] then [] else [(''config'', compact Outside (pd_Config d))])
         @ opt_string ''secret_ref'' (pd_SecretRef d) @ [(''enabled'', print_bool (pd_Enabled d))])))"

definition marshal_target :: "targetDTO \<Rightarrow> string option" where
  "marshal_target d =
     Some (print_object
       (opt_string ''id'' (td_ID d) @ [(''public_alias'', print_string (td_PublicAlias d)),
          (''private_ip'', print_string (td_PrivateIP d))]
        @ (if td_Port d = 0 then [] else [(''port'', show_int (td_Port d))])
        @ opt_string ''protocol'' (td_Protocol d) @ opt_string ''vpn_profile_id'' (td_VPNProfileID d)
        @ opt_string ''health_check'' (td_HealthCheck d) @ [(''enabled'', print_bool (td_Enabled d))]))"

definition marshal_rule :: "ruleDTO \<Rightarrow> string option" where
  "marshal_rule d =
     Some (print_object
       (opt_string ''id'' (rd_ID d) @ [(''priority'', show_int (rd_Priority d))]
        @ opt_string ''match_host'' (rd_MatchHost d) @ opt_string ''match_path'' (rd_MatchPath d)
        @ opt_string ''target_host_id'' (rd_TargetHostID d) @ [(''enabled'', print_bool (rd_Enabled d))]))"

definition marshal_tier :: "tierDTO \<Rightarrow> string option" where
  "marshal_tier d =
     Some (print_object [(''target_id'', print_string (id_TargetID d)),
       (''vpn_profile_id'', print_string (id_VPNProfileID d)), (''tier'', show_int (id_Tier d))])"

definition marshal_user :: "userDTO \<Rightarrow> string option" where
  "marshal_user d =
     Some (print_object
       (opt_string ''id'' (ud_ID d) @ [(''username'', print_string (ud_Username d))]
        @ opt_string ''secret_ref'' (ud_SecretRef d) @ opt_string ''role'' (ud_Role d)
        @ [(''enabled'', print_bool (ud_Enabled d))]))"

fun marshal_all :: "('a \<Rightarrow> string option) \<Rightarrow> 'a list \<Rightarrow> string list option" where
  "marshal_all f [] = Some []"
| "marshal_all f (x # xs) = Option.bind (f x) (\<lambda>v. map_option (\<lambda>vs. v # vs) (marshal_all f xs))"

definition marshal_list :: "('a \<Rightarrow> string option) \<Rightarrow> 'a list \<Rightarrow> string option" where
  "marshal_list f xs = map_option print_array (marshal_all f xs)"

text \<open>A \<open>map[string]string\<close> with its keys in order.\<close>

definition marshal_strings :: "(string \<times> string) list \<Rightarrow> string option" where
  "marshal_strings kvs = Some (print_object (map (\<lambda>kv. (fst kv, print_string (snd kv))) (sort_key fst kvs)))"

subsubsection \<open>JSON in\<close>

text \<open>
  The members of the first object of a text with the raw bytes of their values, which a
  \<open>RawMessage\<close> field keeps.
\<close>

fun raw_members :: "nat \<Rightarrow> string \<Rightarrow> (string \<times> string) list" where
  "raw_members 0 s = []"
| "raw_members (Suc n) s =
     (case skip_ws s of
        [] \<Rightarrow> []
      | c # r \<Rightarrow>
          if c \<noteq> CHR 0x22 then []
          else (case parse_chars r of
              None \<Rightarrow> []
            | Some (k, r1) \<Rightarrow>
                (case skip_ws r1 of
                   [] \<Rightarrow> []
                 | d # r2 \<Rightarrow>
                     (case parse_value n r2 of
                        None \<Rightarrow> []
                      | Some (v, r3) \<Rightarrow>
                          (k, take (length (skip_ws r2) - length r3) (skip_ws r2)) #
                          (case skip_ws r3 of
                             e # r4 \<Rightarrow> if e = CHR '','' then raw_members n r4 else []
                           | [] \<Rightarrow> [])))))"

definition member_raws :: "string \<Rightarrow> (string \<times> string) list" where
  "member_raws body =
     (case skip_ws body of c # r \<Rightarrow> if c = CHR ''{'' then raw_members (length body) r else [] | [] \<Rightarrow> [])"

text \<open>\<open>decodeJSON\<close>: the first value of the body fills the struct, unknown fields refused.\<close>

definition decodeJSON :: "(string \<times> 'a field_decoder) list \<Rightarrow> 'a \<Rightarrow> string \<Rightarrow> 'a option" where
  "decodeJSON fds zero body = Option.bind (decode_first body) (fill_struct True fds zero)"

definition profile_fields :: "(string \<times> profileDTO field_decoder) list" where
  "profile_fields =
     [(''id'', dec_string (\<lambda>v d. d\<lparr>pd_ID := v\<rparr>)), (''name'', dec_string (\<lambda>v d. d\<lparr>pd_Name := v\<rparr>)),
      (''type'', dec_string (\<lambda>v d. d\<lparr>pd_Type := v\<rparr>)), (''config'', \<lambda>v d. Some d),
      (''secret_ref'', dec_string (\<lambda>v d. d\<lparr>pd_SecretRef := v\<rparr>)), (''enabled'', dec_bool (\<lambda>v d. d\<lparr>pd_Enabled := v\<rparr>))]"

definition names_config :: "string \<Rightarrow> bool" where
  "names_config k \<longleftrightarrow> k = ''config'' \<or> k \<notin> fst ` set profile_fields \<and> fold_name k = fold_name ''config''"

definition raw_config :: "string \<Rightarrow> string" where
  "raw_config body =
     (case filter (\<lambda>kr. names_config (fst kr)) (member_raws body) of [] \<Rightarrow> [] | rs \<Rightarrow> snd (last rs))"

definition decode_profile :: "string \<Rightarrow> profileDTO option" where
  "decode_profile body =
     map_option (\<lambda>d. d\<lparr>pd_Config := raw_config body\<rparr>)
       (decodeJSON profile_fields
         \<lparr>pd_ID = [], pd_Name = [], pd_Type = [], pd_Config = [], pd_SecretRef = [], pd_Enabled = False\<rparr> body)"

definition target_fields :: "(string \<times> targetDTO field_decoder) list" where
  "target_fields =
     [(''id'', dec_string (\<lambda>v d. d\<lparr>td_ID := v\<rparr>)), (''public_alias'', dec_string (\<lambda>v d. d\<lparr>td_PublicAlias := v\<rparr>)),
      (''private_ip'', dec_string (\<lambda>v d. d\<lparr>td_PrivateIP := v\<rparr>)), (''port'', dec_int (\<lambda>v d. d\<lparr>td_Port := v\<rparr>)),
      (''protocol'', dec_string (\<lambda>v d. d\<lparr>td_Protocol := v\<rparr>)),
      (''vpn_profile_id'', dec_string (\<lambda>v d. d\<lparr>td_VPNProfileID := v\<rparr>)),
      (''health_check'', dec_string (\<lambda>v d. d\<lparr>td_HealthCheck := v\<rparr>)), (''enabled'', dec_bool (\<lambda>v d. d\<lparr>td_Enabled := v\<rparr>))]"

definition decode_target :: "string \<Rightarrow> targetDTO option" where
  "decode_target body =
     decodeJSON target_fields
       \<lparr>td_ID = [], td_PublicAlias = [], td_PrivateIP = [], td_Port = 0, td_Protocol = [], td_VPNProfileID = [],
        td_HealthCheck = [], td_Enabled = False\<rparr> body"

definition rule_fields :: "(string \<times> ruleDTO field_decoder) list" where
  "rule_fields =
     [(''id'', dec_string (\<lambda>v d. d\<lparr>rd_ID := v\<rparr>)), (''priority'', dec_int (\<lambda>v d. d\<lparr>rd_Priority := v\<rparr>)),
      (''match_host'', dec_string (\<lambda>v d. d\<lparr>rd_MatchHost := v\<rparr>)), (''match_path'', dec_string (\<lambda>v d. d\<lparr>rd_MatchPath := v\<rparr>)),
      (''target_host_id'', dec_string (\<lambda>v d. d\<lparr>rd_TargetHostID := v\<rparr>)), (''enabled'', dec_bool (\<lambda>v d. d\<lparr>rd_Enabled := v\<rparr>))]"

definition decode_rule :: "string \<Rightarrow> ruleDTO option" where
  "decode_rule body =
     decodeJSON rule_fields
       \<lparr>rd_ID = [], rd_Priority = 0, rd_MatchHost = [], rd_MatchPath = [], rd_TargetHostID = [], rd_Enabled = False\<rparr> body"

definition tier_fields :: "(string \<times> tierDTO field_decoder) list" where
  "tier_fields =
     [(''target_id'', dec_string (\<lambda>v d. d\<lparr>id_TargetID := v\<rparr>)),
      (''vpn_profile_id'', dec_string (\<lambda>v d. d\<lparr>id_VPNProfileID := v\<rparr>)), (''tier'', dec_int (\<lambda>v d. d\<lparr>id_Tier := v\<rparr>))]"

definition decode_tier :: "string \<Rightarrow> tierDTO option" where
  "decode_tier body = decodeJSON tier_fields \<lparr>id_TargetID = [], id_VPNProfileID = [], id_Tier = 0\<rparr> body"

definition user_fields :: "(string \<times> userDTO field_decoder) list" where
  "user_fields =
     [(''id'', dec_string (\<lambda>v d. d\<lparr>ud_ID := v\<rparr>)), (''username'', dec_string (\<lambda>v d. d\<lparr>ud_Username := v\<rparr>)),
      (''secret_ref'', dec_string (\<lambda>v d. d\<lparr>ud_SecretRef := v\<rparr>)), (''role'', dec_string (\<lambda>v d. d\<lparr>ud_Role := v\<rparr>)),
      (''enabled'', dec_bool (\<lambda>v d. d\<lparr>ud_Enabled := v\<rparr>))]"

definition decode_user :: "string \<Rightarrow> userDTO option" where
  "decode_user body =
     decodeJSON user_fields
       \<lparr>ud_ID = [], ud_Username = [], ud_SecretRef = [], ud_Role = [], ud_Enabled = False\<rparr> body"

subsubsection \<open>Requests and responses\<close>

text \<open>\<open>hr_PeerCNs\<close>: the common names of \<open>r.TLS.PeerCertificates\<close>; \<open>None\<close> is a request without TLS.\<close>

record http_request =
  hr_Method :: string
  hr_Path :: string
  hr_PeerCNs :: "string list option"
  hr_Body :: string

record response =
  rs_Status :: nat
  rs_Headers :: "(string \<times> string) list"
  rs_Body :: string

text \<open>
  What serving a request meets: the statement of the handler, the audit statement and the
  transaction around them, and the text of the decoder's error for a body.
\<close>

record req_env =
  ae_stmt :: stmt_env
  ae_audit :: stmt_env
  ae_tx :: tx_env
  ae_decode :: "string \<Rightarrow> string"

definition actorFromRequest :: "http_request \<Rightarrow> string" where
  "actorFromRequest r =
     (case hr_PeerCNs r of Some (cn # _) \<Rightarrow> if cn \<noteq> [] then cn else ''unknown'' | _ \<Rightarrow> ''unknown'')"

definition writeJSON :: "nat \<Rightarrow> string option \<Rightarrow> response" where
  "writeJSON code v =
     \<lparr>rs_Status = code, rs_Headers = [(''Content-Type'', ''application/json'')],
      rs_Body = (case v of None \<Rightarrow> [] | Some b \<Rightarrow> b @ [LF])\<rparr>"

definition writeErr :: "nat \<Rightarrow> string \<Rightarrow> response" where
  "writeErr code msg = writeJSON code (marshal_strings [(''error'', msg)])"

definition noContent :: response where
  "noContent = \<lparr>rs_Status = 204, rs_Headers = [], rs_Body = []\<rparr>"

definition invalidJSON :: "req_env \<Rightarrow> http_request \<Rightarrow> response" where
  "invalidJSON env r = writeErr 400 (''invalid JSON: '' @ ae_decode env (hr_Body r))"

definition auditEntry :: "http_request \<Rightarrow> string \<Rightarrow> string option \<Rightarrow> AuditLogEntry" where
  "auditEntry r action detail =
     \<lparr>au_ID = 0, au_TS = 0, au_Actor = actorFromRequest r, au_Action = action,
      au_Detail = (case detail of None \<Rightarrow> [] | Some b \<Rightarrow> b)\<rparr>"

text \<open>\<open>mutate\<close> gives the audit row or its error, and the variable \<open>id\<close> its closure assigns.\<close>

definition audit_body ::
  "pg_types \<Rightarrow> req_env \<Rightarrow> (session \<Rightarrow> (AuditLogEntry result \<times> string) \<times> session)
    \<Rightarrow> session \<Rightarrow> (go_error option \<times> string) \<times> session" where
  "audit_body t env mutate tx =
     (case mutate tx of
        ((Inl e, v), tx1) \<Rightarrow> ((Some e, v), tx1)
      | ((Inr entry, v), tx1) \<Rightarrow>
          (case AppendAudit t (ae_audit env) entry tx1 of
             (Inl e, tx2) \<Rightarrow> ((Some (Wrap ''audit write failed: '' e), v), tx2)
           | (Inr u, tx2) \<Rightarrow> ((None, v), tx2)))"

definition mutateWithAudit ::
  "pg_types \<Rightarrow> req_env \<Rightarrow> (session \<Rightarrow> (AuditLogEntry result \<times> string) \<times> session) \<Rightarrow> db \<Rightarrow> (go_error option \<times> string) \<times> db" where
  "mutateWithAudit t env mutate db = WithTx (ae_tx env) (audit_body t env mutate) [] db"

text \<open>The two shapes of \<open>mutate\<close>: an upsert that returns an identifier, a deletion that does not.\<close>

definition upsert_then ::
  "(session \<Rightarrow> string result \<times> session) \<Rightarrow> (string \<Rightarrow> AuditLogEntry) \<Rightarrow> session \<Rightarrow> (AuditLogEntry result \<times> string) \<times> session" where
  "upsert_then f entry tx =
     (case f tx of (Inl e, tx1) \<Rightarrow> ((Inl e, []), tx1) | (Inr i, tx1) \<Rightarrow> ((Inr (entry i), i), tx1))"

definition do_then ::
  "(session \<Rightarrow> unit result \<times> session) \<Rightarrow> AuditLogEntry \<Rightarrow> session \<Rightarrow> (AuditLogEntry result \<times> string) \<times> session" where
  "do_then f entry tx =
     (case f tx of (Inl e, tx1) \<Rightarrow> ((Inl e, []), tx1) | (Inr u, tx1) \<Rightarrow> ((Inr entry, []), tx1))"

text \<open>How the handlers answer: an error is a 500, else the identifier or nothing.\<close>

definition answer :: "(string \<Rightarrow> response) \<Rightarrow> (go_error option \<times> string) \<times> db \<Rightarrow> response \<times> db" where
  "answer ok r =
     (case r of ((Some e, v), db) \<Rightarrow> (writeErr 500 (error_text e), db) | ((None, v), db) \<Rightarrow> (ok v, db))"

definition id_response :: "string \<Rightarrow> response" where
  "id_response i = writeJSON 200 (marshal_strings [(''id'', i)])"

subsubsection \<open>profiles\<close>

text \<open>A listing and a lookup as every entity has them: the store's error is a 500, a missing row a 404.\<close>

definition list_response :: "('a \<Rightarrow> string option) \<Rightarrow> ('a list \<times> go_error option) \<times> session \<Rightarrow> response" where
  "list_response f r =
     (case fst r of
        (xs, Some e) \<Rightarrow> writeErr 500 (error_text e)
      | (xs, None) \<Rightarrow> writeJSON 200 (marshal_list f xs))"

definition get_response :: "string \<Rightarrow> ('a \<Rightarrow> string option) \<Rightarrow> 'a result \<times> session \<Rightarrow> response" where
  "get_response missing f r =
     (case fst r of
        Inl e \<Rightarrow> if errors_Is e ErrNotFound then writeErr 404 missing else writeErr 500 (error_text e)
      | Inr x \<Rightarrow> writeJSON 200 (f x))"

definition listProfiles :: "pg_types \<Rightarrow> req_env \<Rightarrow> db \<Rightarrow> response" where
  "listProfiles t env db =
     list_response (\<lambda>p. marshal_profile (profileToDTO p)) (ListProfiles t (ae_stmt env) (pool db))"

definition getProfile :: "pg_types \<Rightarrow> req_env \<Rightarrow> string \<Rightarrow> db \<Rightarrow> response" where
  "getProfile t env i db =
     get_response ''profile not found'' (\<lambda>p. marshal_profile (profileToDTO p)) (GetProfile t (ae_stmt env) i (pool db))"

definition putProfile :: "pg_types \<Rightarrow> req_env \<Rightarrow> http_request \<Rightarrow> db \<Rightarrow> response \<times> db" where
  "putProfile t env r db =
     (case decode_profile (hr_Body r) of
        None \<Rightarrow> (invalidJSON env r, db)
      | Some d \<Rightarrow>
          if TrimSpace (pd_Name d) = [] then (writeErr 400 ''name is required'', db)
          else if pd_Type d \<notin> set [[], VPNTypeWireGuard, VPNTypeOpenVPN, VPNTypeLegacy]
            then (writeErr 400 ''type must be wireguard|openvpn|legacy'', db)
          else if pd_Config d \<noteq> [] \<and> parse_json (pd_Config d) = None
            then (writeErr 400 ''config must be a valid JSON object'', db)
          else answer id_response (mutateWithAudit t env
            (upsert_then (UpsertProfile t (ae_stmt env)
                \<lparr>vp_ID = [], vp_Name = pd_Name d, vp_Type = pd_Type d, vp_Config = pd_Config d,
                 vp_SecretRef = pd_SecretRef d, vp_Enabled = pd_Enabled d, vp_Created = 0, vp_Updated = 0\<rparr>)
              (\<lambda>i. auditEntry r ''profile.upsert'' (marshal_strings [(''id'', i), (''name'', pd_Name d)]))) db))"

definition deleteProfile :: "pg_types \<Rightarrow> req_env \<Rightarrow> http_request \<Rightarrow> string \<Rightarrow> db \<Rightarrow> response \<times> db" where
  "deleteProfile t env r i db =
     answer (\<lambda>_. noContent) (mutateWithAudit t env
       (do_then (DeleteProfile t (ae_stmt env) i) (auditEntry r ''profile.delete'' (marshal_strings [(''id'', i)]))) db)"

subsubsection \<open>targets\<close>

definition listTargets :: "pg_types \<Rightarrow> req_env \<Rightarrow> db \<Rightarrow> response" where
  "listTargets t env db =
     list_response (\<lambda>g. marshal_target (targetToDTO g)) (ListTargets t (ae_stmt env) (pool db))"

definition getTarget :: "pg_types \<Rightarrow> req_env \<Rightarrow> string \<Rightarrow> db \<Rightarrow> response" where
  "getTarget t env a db =
     get_response ''target not found'' (\<lambda>g. marshal_target (targetToDTO g)) (GetTargetHost t (ae_stmt env) a (pool db))"

definition putTarget :: "pg_types \<Rightarrow> req_env \<Rightarrow> http_request \<Rightarrow> db \<Rightarrow> response \<times> db" where
  "putTarget t env r db =
     (case decode_target (hr_Body r) of
        None \<Rightarrow> (invalidJSON env r, db)
      | Some d \<Rightarrow>
          if TrimSpace (td_PublicAlias d) = [] then (writeErr 400 ''public_alias is required'', db)
          else if TrimSpace (td_PrivateIP d) = [] then (writeErr 400 ''private_ip is required'', db)
          else if td_Port d < 0 \<or> 65535 < td_Port d then (writeErr 400 ''port must be 0..65535'', db)
          else answer id_response (mutateWithAudit t env
            (upsert_then (UpsertTarget t (ae_stmt env)
                \<lparr>th_ID = [], th_PublicAlias = td_PublicAlias d, th_PrivateIP = td_PrivateIP d, th_Port = td_Port d,
                 th_Protocol = td_Protocol d, th_VPNProfileID = td_VPNProfileID d, th_HealthCheck = td_HealthCheck d,
                 th_Enabled = td_Enabled d, th_Created = 0, th_Updated = 0\<rparr>)
              (\<lambda>i. auditEntry r ''target.upsert'' (marshal_strings [(''id'', i), (''public_alias'', td_PublicAlias d)]))) db))"

definition deleteTarget :: "pg_types \<Rightarrow> req_env \<Rightarrow> http_request \<Rightarrow> string \<Rightarrow> db \<Rightarrow> response \<times> db" where
  "deleteTarget t env r i db =
     answer (\<lambda>_. noContent) (mutateWithAudit t env
       (do_then (DeleteTarget t (ae_stmt env) i) (auditEntry r ''target.delete'' (marshal_strings [(''id'', i)]))) db)"

subsubsection \<open>rules\<close>

definition listRules :: "req_env \<Rightarrow> db \<Rightarrow> response" where
  "listRules env db = list_response (\<lambda>x. marshal_rule (ruleToDTO x)) (ListRules (ae_stmt env) (pool db))"

definition getRuleByHost :: "pg_types \<Rightarrow> req_env \<Rightarrow> string \<Rightarrow> db \<Rightarrow> response" where
  "getRuleByHost t env host db =
     get_response ''no enabled rule for host'' (\<lambda>x. marshal_rule (ruleToDTO x)) (GetRuleByHost t (ae_stmt env) host (pool db))"

text \<open>The audit detail, a \<open>map[string]any\<close>: its keys in order.\<close>

definition rule_detail :: "string \<Rightarrow> ruleDTO \<Rightarrow> string option" where
  "rule_detail i d =
     Some (print_object [(''id'', print_string i), (''match_host'', print_string (rd_MatchHost d)),
                         (''priority'', show_int (rd_Priority d))])"

definition putRule :: "pg_types \<Rightarrow> req_env \<Rightarrow> http_request \<Rightarrow> db \<Rightarrow> response \<times> db" where
  "putRule t env r db =
     (case decode_rule (hr_Body r) of
        None \<Rightarrow> (invalidJSON env r, db)
      | Some d \<Rightarrow>
          if rd_MatchHost d = [] \<and> rd_MatchPath d = []
            then (writeErr 400 ''at least one of match_host / match_path is required'', db)
          else
            (case mutateWithAudit t env
               (upsert_then (UpsertRule t (ae_stmt env)
                   \<lparr>pr_ID = rd_ID d, pr_Priority = rd_Priority d, pr_MatchHost = rd_MatchHost d,
                    pr_MatchPath = rd_MatchPath d, pr_TargetHostID = rd_TargetHostID d, pr_Enabled = rd_Enabled d,
                    pr_Created = 0, pr_Updated = 0\<rparr>)
                 (\<lambda>i. auditEntry r ''rule.upsert'' (rule_detail i d))) db of
               ((Some e, v), db') \<Rightarrow>
                 if errors_Is e ErrNotFound then (writeErr 404 ''rule id not found'', db')
                 else (writeErr 500 (error_text e), db')
             | ((None, v), db') \<Rightarrow> (id_response v, db')))"

definition deleteRule :: "pg_types \<Rightarrow> req_env \<Rightarrow> http_request \<Rightarrow> string \<Rightarrow> db \<Rightarrow> response \<times> db" where
  "deleteRule t env r i db =
     answer (\<lambda>_. noContent) (mutateWithAudit t env
       (do_then (DeleteRule t (ae_stmt env) i) (auditEntry r ''rule.delete'' (marshal_strings [(''id'', i)]))) db)"

subsubsection \<open>tiers\<close>

definition listTiers :: "pg_types \<Rightarrow> req_env \<Rightarrow> string \<Rightarrow> db \<Rightarrow> response" where
  "listTiers t env i db =
     list_response (\<lambda>x. marshal_tier (tierToDTO x)) (ListTiers t (ae_stmt env) i (pool db))"

definition putTier :: "pg_types \<Rightarrow> req_env \<Rightarrow> http_request \<Rightarrow> db \<Rightarrow> response \<times> db" where
  "putTier t env r db =
     (case decode_tier (hr_Body r) of
        None \<Rightarrow> (invalidJSON env r, db)
      | Some d \<Rightarrow>
          if id_TargetID d = [] \<or> id_VPNProfileID d = []
            then (writeErr 400 ''target_id and vpn_profile_id are required'', db)
          else if id_Tier d < 0 then (writeErr 400 ''tier must be >= 0'', db)
          else answer (\<lambda>_. writeJSON 200 (marshal_strings [(''status'', ''ok'')])) (mutateWithAudit t env
            (do_then (UpsertTier t (ae_stmt env)
                \<lparr>tt_TargetID = id_TargetID d, tt_VPNProfileID = id_VPNProfileID d, tt_Tier = id_Tier d, tt_Created = 0\<rparr>)
              (auditEntry r ''tier.upsert'' (marshal_tier d))) db))"

definition tier_detail :: "string \<Rightarrow> int \<Rightarrow> string option" where
  "tier_detail i tier = Some (print_object [(''target_id'', print_string i), (''tier'', show_int tier)])"

definition deleteTier :: "pg_types \<Rightarrow> req_env \<Rightarrow> http_request \<Rightarrow> string \<Rightarrow> string \<Rightarrow> db \<Rightarrow> response \<times> db" where
  "deleteTier t env r i tier_text db =
     (case Atoi tier_text of
        Inl _ \<Rightarrow> (writeErr 400 ''tier must be an integer'', db)
      | Inr tier \<Rightarrow>
          answer (\<lambda>_. noContent) (mutateWithAudit t env
            (do_then (DeleteTier t (ae_stmt env) i tier) (auditEntry r ''tier.delete'' (tier_detail i tier))) db))"

subsubsection \<open>users\<close>

definition listUsers :: "pg_types \<Rightarrow> req_env \<Rightarrow> db \<Rightarrow> response" where
  "listUsers t env db = list_response (\<lambda>u. marshal_user (userToDTO u)) (ListUsers t (ae_stmt env) (pool db))"

definition putUser :: "pg_types \<Rightarrow> req_env \<Rightarrow> http_request \<Rightarrow> db \<Rightarrow> response \<times> db" where
  "putUser t env r db =
     (case decode_user (hr_Body r) of
        None \<Rightarrow> (invalidJSON env r, db)
      | Some d \<Rightarrow>
          if TrimSpace (ud_Username d) = [] then (writeErr 400 ''username is required'', db)
          else answer id_response (mutateWithAudit t env
            (upsert_then (UpsertUser t (ae_stmt env)
                \<lparr>pu_ID = [], pu_Username = ud_Username d, pu_SecretRef = ud_SecretRef d, pu_Role = ud_Role d,
                 pu_Enabled = ud_Enabled d, pu_Created = 0, pu_Updated = 0\<rparr>)
              (\<lambda>i. auditEntry r ''user.upsert'' (marshal_strings [(''id'', i), (''username'', ud_Username d)]))) db))"

subsubsection \<open>PAC\<close>

definition proxyPAC :: "(nat \<Rightarrow> bool) \<Rightarrow> pg_types \<Rightarrow> req_env \<Rightarrow> db \<Rightarrow> response" where
  "proxyPAC wide t env db =
     (case fst (ListTargets t (ae_stmt env) (pool db)) of
        (ts, Some e) \<Rightarrow> writeErr 500 (error_text e)
      | (ts, None) \<Rightarrow>
          \<lparr>rs_Status = 200,
           rs_Headers = [(''Content-Type'', ''text/javascript; charset=utf-8''), (''Cache-Control'', ''no-cache'')],
           rs_Body = Generate wide (map (\<lambda>g. \<lparr>en_HostGlob = th_PublicAlias g, en_Proxy = DefaultProxy\<rparr>)
                                       (filter th_Enabled ts))\<rparr>)"

lemmas put_handlers = putProfile_def putTarget_def putRule_def putTier_def putUser_def
lemmas delete_handlers = deleteProfile_def deleteTarget_def deleteRule_def deleteTier_def

subsection \<open>Writes leave the audit log alone\<close>

definition spares_audit :: "(session \<Rightarrow> 'a result \<times> session) \<Rightarrow> bool" where
  "spares_audit f \<longleftrightarrow> (\<forall>s. db_audit (ss_db (snd (f s))) = db_audit (ss_db s))"

lemma run_stmt_spares_audit:
  assumes "\<And>db v db'. stmt db = Inr (v, db') \<Longrightarrow> db_audit db' = db_audit db"
  shows "db_audit (ss_db (snd (run_stmt env stmt s))) = db_audit (ss_db s)"
  by (rule run_stmt_ok) (use assms in auto)

lemma sql_writes_spare_audit:
  "sqlUpsertProfile t env n y c e b db = Inr (v, db') \<Longrightarrow> db_audit db' = db_audit db"
  "sqlDeleteProfile t env i db = Inr (u, db') \<Longrightarrow> db_audit db' = db_audit db"
  "sqlUpsertTarget t env a ip port proto prof health b db = Inr (v, db') \<Longrightarrow> db_audit db' = db_audit db"
  "sqlDeleteTarget t i db = Inr (u, db') \<Longrightarrow> db_audit db' = db_audit db"
  "sqlInsertRule t env k h p g b db = Inr (v, db') \<Longrightarrow> db_audit db' = db_audit db"
  "sqlUpdateRule t env i k h p g b db = Inr (w, db') \<Longrightarrow> db_audit db' = db_audit db"
  "sqlDeleteRule t i db = Inr (u, db') \<Longrightarrow> db_audit db' = db_audit db"
  "sqlUpsertTier t env i p k db = Inr (u, db') \<Longrightarrow> db_audit db' = db_audit db"
  "sqlDeleteTier t i k db = Inr (u, db') \<Longrightarrow> db_audit db' = db_audit db"
  "sqlUpsertUser t env n e l b db = Inr (v, db') \<Longrightarrow> db_audit db' = db_audit db"
  by (auto simp: sqlUpsertProfile_def sqlDeleteProfile_def sqlUpsertTarget_def sqlDeleteTarget_def
      sqlInsertRule_def sqlUpdateRule_def sqlDeleteRule_def sqlUpsertTier_def sqlDeleteTier_def sqlUpsertUser_def
      split: if_splits)

lemma writes_spare_audit:
  "spares_audit (UpsertProfile t env v)" "spares_audit (DeleteProfile t env i)"
  "spares_audit (UpsertTarget t env g)" "spares_audit (DeleteTarget t env i)"
  "spares_audit (UpsertRule t env r)" "spares_audit (DeleteRule t env i)"
  "spares_audit (UpsertTier t env x)" "spares_audit (DeleteTier t env i n)"
  "spares_audit (UpsertUser t env u)"
  unfolding spares_audit_def write_methods Let_def
  by (auto intro: run_stmt_spares_audit sql_writes_spare_audit)

subsection \<open>Every change is audited\<close>

text \<open>
  One step of an audited store: nothing changed, or one row was added to the log, naming the
  client and the action.
\<close>

definition audited :: "pg_types \<Rightarrow> string \<Rightarrow> string \<Rightarrow> db \<Rightarrow> db \<Rightarrow> bool" where
  "audited t actor action db db' \<longleftrightarrow> db' = db \<or>
     (\<exists>row. db_audit db' = db_audit db @ [row] \<and> pg_varchar t 255 actor = Some (ar_actor row)
        \<and> pg_varchar t 100 action = Some (ar_action row))"

definition audits :: "http_request \<Rightarrow> string \<Rightarrow> (session \<Rightarrow> (AuditLogEntry result \<times> string) \<times> session) \<Rightarrow> bool" where
  "audits r action mutate \<longleftrightarrow> (\<forall>s. db_audit (ss_db (snd (mutate s))) = db_audit (ss_db s)
     \<and> (\<forall>entry. fst (fst (mutate s)) = Inr entry \<longrightarrow> au_Actor entry = actorFromRequest r \<and> au_Action entry = action))"

lemma auditEntry_sel [simp]: "au_Actor (auditEntry r a d) = actorFromRequest r" "au_Action (auditEntry r a d) = a"
  by (simp_all add: auditEntry_def)

lemma audits_then:
  "spares_audit f \<Longrightarrow> audits r a (upsert_then f (\<lambda>i. auditEntry r a (d i)))"
  "spares_audit g \<Longrightarrow> audits r a (do_then g (auditEntry r a d'))"
  by (auto simp: audits_def spares_audit_def upsert_then_def do_then_def split: prod.splits sum.splits)
    (metis snd_conv)+

lemma AppendAudit_Inr:
  assumes "AppendAudit t env entry s = (Inr u, s')"
  shows "\<exists>row. ss_db s' = (ss_db s)\<lparr>db_audit := db_audit (ss_db s) @ [row]\<rparr> \<and> ar_id row = se_seq env
    \<and> pg_varchar t 255 (au_Actor entry) = Some (ar_actor row) \<and> pg_varchar t 100 (au_Action entry) = Some (ar_action row)"
  using assms by (auto simp: AppendAudit_def run_stmt_Inr sqlAppendAudit_def)

lemma audit_body_None:
  assumes "audit_body t env mutate tx = ((None, v), s)"
  obtains entry tx1 where "mutate tx = ((Inr entry, v), tx1)" and "AppendAudit t (ae_audit env) entry tx1 = (Inr (), s)"
  using assms by (auto simp: audit_body_def split: prod.splits sum.splits)

lemma mutateWithAudit_audited:
  assumes "audits r action mutate"
  shows "audited t (actorFromRequest r) action db (snd (mutateWithAudit t env mutate db))"
  unfolding mutateWithAudit_def
proof (rule pg_tx.keeps)
  fix v s
  let ?tx = "\<lparr>ss_db = db, ss_tx = True, ss_aborted = False\<rparr>"
  assume "audit_body t env mutate ?tx = ((None, v), s)"
  then obtain entry tx1 where m: "mutate ?tx = ((Inr entry, v), tx1)"
    and a: "AppendAudit t (ae_audit env) entry tx1 = (Inr (), s)"
    by (rule audit_body_None)
  have "db_audit (ss_db tx1) = db_audit db" "au_Actor entry = actorFromRequest r" "au_Action entry = action"
    using assms m unfolding audits_def by (metis fst_conv snd_conv session.select_convs(1))+
  then show "audited t (actorFromRequest r) action db (ss_db s)"
    using AppendAudit_Inr [OF a] by (auto simp: audited_def)
qed (simp add: audited_def)

lemma snd_answer [simp]: "snd (answer ok x) = snd x"
  by (auto simp: answer_def split: prod.splits option.splits)

lemma snd_rule_answer [simp]:
  "snd (case x of ((Some e, v), db') \<Rightarrow> if P e then (f e, db') else (g e, db') | ((None, v), db') \<Rightarrow> (h v, db')) = snd x"
  by (auto split: prod.splits option.splits)

lemma audited_refl [simp]: "audited t actor action db db"
  by (simp add: audited_def)

lemma handlers_audited:
  "audited t (actorFromRequest r) ''profile.upsert'' db (snd (putProfile t env r db))"
  "audited t (actorFromRequest r) ''profile.delete'' db (snd (deleteProfile t env r i db))"
  "audited t (actorFromRequest r) ''target.upsert'' db (snd (putTarget t env r db))"
  "audited t (actorFromRequest r) ''target.delete'' db (snd (deleteTarget t env r i db))"
  "audited t (actorFromRequest r) ''rule.upsert'' db (snd (putRule t env r db))"
  "audited t (actorFromRequest r) ''rule.delete'' db (snd (deleteRule t env r i db))"
  "audited t (actorFromRequest r) ''tier.upsert'' db (snd (putTier t env r db))"
  "audited t (actorFromRequest r) ''tier.delete'' db (snd (deleteTier t env r i k db))"
  "audited t (actorFromRequest r) ''user.upsert'' db (snd (putUser t env r db))"
  by (auto simp: put_handlers delete_handlers Let_def split: option.split sum.split
      intro!: mutateWithAudit_audited audits_then writes_spare_audit)

subsection \<open>Invariants of the handlers\<close>

text \<open>What a write and the audit insert keep, the transaction around them keeps.\<close>

definition keeps :: "(db \<Rightarrow> bool) \<Rightarrow> (session \<Rightarrow> 'a \<times> session) \<Rightarrow> bool" where
  "keeps P f \<longleftrightarrow> (\<forall>s. P (ss_db s) \<longrightarrow> P (ss_db (snd (f s))))"

lemma then_keeps: "keeps P f \<Longrightarrow> keeps P (upsert_then f e)" "keeps P g \<Longrightarrow> keeps P (do_then g e')"
  by (fastforce simp: keeps_def upsert_then_def do_then_def split: prod.splits sum.splits)+

lemma mutateWithAudit_keeps:
  assumes "keeps P mutate" and "\<And>e. keeps P (AppendAudit t (ae_audit env) e)" and "P db"
  shows "P (snd (mutateWithAudit t env mutate db))"
  unfolding mutateWithAudit_def
proof (rule pg_tx.keeps)
  show "P db" by (rule assms(3))
  fix v s
  let ?tx = "\<lparr>ss_db = db, ss_tx = True, ss_aborted = False\<rparr>"
  assume "audit_body t env mutate ?tx = ((None, v), s)"
  then obtain entry tx1 where m: "mutate ?tx = ((Inr entry, v), tx1)"
    and a: "AppendAudit t (ae_audit env) entry tx1 = (Inr (), s)"
    by (rule audit_body_None)
  have "P (ss_db tx1)" using assms(1,3) m unfolding keeps_def by (metis session.select_convs(1) snd_conv)
  then show "P (ss_db s)" using assms(2) a unfolding keeps_def by (metis snd_conv)
qed

text \<open>The schema is kept: every statement checks it.\<close>

lemma writes_keep_ok:
  assumes "env_ok t env"
  shows "keeps (db_ok t) (UpsertProfile t env v)" "keeps (db_ok t) (DeleteProfile t env i)"
    "keeps (db_ok t) (UpsertTarget t env g)" "keeps (db_ok t) (DeleteTarget t env i)"
    "keeps (db_ok t) (UpsertRule t env r)" "keeps (db_ok t) (DeleteRule t env i)"
    "keeps (db_ok t) (UpsertTier t env x)" "keeps (db_ok t) (DeleteTier t env i n)" "keeps (db_ok t) (UpsertUser t env u)"
    "keeps (db_ok t) (AppendAudit t env e)"
  using writes_keep_schema [OF _ assms] by (simp_all add: keeps_def)

lemma handlers_keep_ok:
  assumes "db_ok t db" and "env_ok t (ae_stmt env)" and "env_ok t (ae_audit env)"
  shows "db_ok t (snd (putProfile t env r db))" "db_ok t (snd (deleteProfile t env r i db))"
    "db_ok t (snd (putTarget t env r db))" "db_ok t (snd (deleteTarget t env r i db))"
    "db_ok t (snd (putRule t env r db))" "db_ok t (snd (deleteRule t env r i db))"
    "db_ok t (snd (putTier t env r db))" "db_ok t (snd (deleteTier t env r i k db))"
    "db_ok t (snd (putUser t env r db))"
  using assms
  by (auto simp: put_handlers delete_handlers Let_def split: option.split sum.split
      intro!: mutateWithAudit_keeps [where P = "db_ok t"] then_keeps writes_keep_ok)

subsection \<open>No blank names\<close>

text \<open>
  The schema allows a blank name and an empty predicate of a rule; the handlers refuse the one
  and the store writes NULL for the other. Relied on of the server: text is stored in a
  \<open>VARCHAR(n)\<close> as it is, but that spaces beyond the length are cut off.
\<close>

locale pg_padding =
  fixes t :: pg_types
  assumes varchar_pads: "pg_varchar t n s = Some u \<Longrightarrow> \<exists>k. s = u @ replicate k (CHR '' '') \<and> (k = 0 \<or> length (runes u) = n)"
begin

lemma varchar_named: "pg_varchar t n s = Some u \<Longrightarrow> TrimSpace s \<noteq> [] \<Longrightarrow> TrimSpace u \<noteq> []"
proof -
  assume "pg_varchar t n s = Some u" and s: "TrimSpace s \<noteq> []"
  then obtain k where k: "s = u @ replicate k (CHR '' '')" using varchar_pads by blast
  have "list_all ascii_space (replicate k (CHR '' ''))" by (simp add: list_all_iff ascii_space_def)
  then show ?thesis using TrimSpace_append_blank s k by blast
qed

lemma nullif_not_Nil: "nullif_varchar t n s = Some (Some u) \<Longrightarrow> 0 < n \<Longrightarrow> u \<noteq> []"
  using varchar_pads [of n s u] by (auto simp: nullif_varchar_def split: if_splits)

end

interpretation ref_padding: pg_padding ref_types
  by unfold_locales (auto simp: ref_types_def split: if_splits)

definition named :: "db \<Rightarrow> bool" where
  "named db \<longleftrightarrow> list_all (\<lambda>r. TrimSpace (vr_name r) \<noteq> []) (db_profiles db)
     \<and> list_all (\<lambda>r. TrimSpace (tr_alias r) \<noteq> []) (db_targets db)
     \<and> list_all (\<lambda>r. TrimSpace (ur_username r) \<noteq> []) (db_users db)
     \<and> list_all (\<lambda>r. rr_host r \<noteq> Some [] \<and> rr_path r \<noteq> Some []) (db_rules db)"

lemma upsert_rows_all:
  "upsert_rows key k ident upd new rows = Inr (i, rows') \<Longrightarrow> list_all Q rows \<Longrightarrow> Q new \<Longrightarrow> (\<And>r. Q r \<Longrightarrow> Q (upd r))
    \<Longrightarrow> list_all Q rows'"
  by (auto simp: upsert_rows_def require_def list_all_iff split: option.splits if_splits)

context pg_padding
begin

lemma sql_upserts_named:
  assumes "named db"
  shows "sqlUpsertProfile t env n y c e b db = Inr (v, db') \<Longrightarrow> TrimSpace n \<noteq> [] \<Longrightarrow> named db'"
    "sqlUpsertTarget t env n ip port proto prof health b db = Inr (v, db') \<Longrightarrow> TrimSpace n \<noteq> [] \<Longrightarrow> named db'"
    "sqlUpsertUser t env n e y b db = Inr (v, db') \<Longrightarrow> TrimSpace n \<noteq> [] \<Longrightarrow> named db'"
  using assms varchar_named
  by (auto simp: named_def sqlUpsertProfile_def sqlUpsertTarget_def sqlUpsertUser_def conv_def require_def
      elim!: upsert_rows_all split: option.splits if_splits sum.splits)

lemma sql_rules_named:
  assumes "named db"
  shows "sqlInsertRule t env k h p g b db = Inr (v, db') \<Longrightarrow> named db'"
    "sqlUpdateRule t env i k h p g b db = Inr (w, db') \<Longrightarrow> named db'"
  using assms nullif_not_Nil [of 255 h] nullif_not_Nil [of 500 p]
  by (auto simp: named_def sqlInsertRule_def sqlUpdateRule_def conv_def require_def list_all_iff split: option.splits if_splits)

end

lemma sql_deletes_named:
  assumes "named db"
  shows "sqlDeleteProfile t env i db = Inr (u, db') \<Longrightarrow> named db'" "sqlDeleteTarget t i db = Inr (u, db') \<Longrightarrow> named db'"
    "sqlDeleteRule t i db = Inr (u, db') \<Longrightarrow> named db'" "sqlDeleteTier t i k db = Inr (u, db') \<Longrightarrow> named db'"
    "sqlUpsertTier t env i p k db = Inr (u, db') \<Longrightarrow> named db'" "sqlAppendAudit t env a c d db = Inr (u, db') \<Longrightarrow> named db'"
  using assms
  by (auto simp: named_def sqlDeleteProfile_def sqlDeleteTarget_def sqlDeleteRule_def sqlDeleteTier_def sqlUpsertTier_def
      sqlAppendAudit_def conv_def require_def list_all_iff split: option.splits if_splits)

lemma deletes_keep_named:
  "keeps named (DeleteProfile t env i)" "keeps named (DeleteTarget t env i)" "keeps named (DeleteRule t env i)"
  "keeps named (DeleteTier t env i n)" "keeps named (UpsertTier t env x)" "keeps named (AppendAudit t env e)"
  unfolding keeps_def write_methods by (auto intro: run_stmt_ok sql_deletes_named)

context pg_padding
begin

lemma upserts_keep_named:
  "TrimSpace (vp_Name v) \<noteq> [] \<Longrightarrow> keeps named (UpsertProfile t env v)"
  "TrimSpace (th_PublicAlias g) \<noteq> [] \<Longrightarrow> keeps named (UpsertTarget t env g)"
  "TrimSpace (pu_Username u) \<noteq> [] \<Longrightarrow> keeps named (UpsertUser t env u)"
  "keeps named (UpsertRule t env r)"
  unfolding keeps_def write_methods Let_def by (auto intro: run_stmt_ok sql_upserts_named sql_rules_named)

lemma handlers_keep_named:
  assumes "named db"
  shows "named (snd (putProfile t env r db))" "named (snd (deleteProfile t env r i db))"
    "named (snd (putTarget t env r db))" "named (snd (deleteTarget t env r i db))"
    "named (snd (putRule t env r db))" "named (snd (deleteRule t env r i db))"
    "named (snd (putTier t env r db))" "named (snd (deleteTier t env r i k db))" "named (snd (putUser t env r db))"
  using assms
  by (auto simp: put_handlers delete_handlers Let_def split: option.split sum.split
      intro!: mutateWithAudit_keeps [where P = named] then_keeps upserts_keep_named deletes_keep_named)

end

subsection \<open>What a status means\<close>

text \<open>
  An error status means that nothing was kept, unless the reply of the commit was lost; any
  other status that a row was added to the log.
\<close>

definition truthful :: "req_env \<Rightarrow> db \<Rightarrow> response \<times> db \<Rightarrow> bool" where
  "truthful env db x \<longleftrightarrow>
     (if 400 \<le> rs_Status (fst x) then snd x = db \<or> (\<exists>e. te_commit (ae_tx env) = CommitReplyLost e)
      else db_audit (snd x) \<noteq> db_audit db)"

lemma status_simps [simp]:
  "rs_Status (writeJSON c v) = c" "rs_Status (writeErr c m) = c" "rs_Status noContent = 204"
  "rs_Status (id_response i) = 200" "rs_Status (invalidJSON env r) = 400"
  by (simp_all add: writeJSON_def writeErr_def noContent_def id_response_def invalidJSON_def)

lemma WithTx_Some:
  "WithTx te fn v0 db = ((Some e, v), db') \<Longrightarrow> db' = db \<or> (\<exists>e. te_commit te = CommitReplyLost e)"
  by (auto simp: WithTx_def split: option.splits prod.splits if_splits commit_outcome.splits)

lemma mutateWithAudit_None:
  assumes "mutateWithAudit t env mutate db = ((None, v), db')" and "audits r action mutate"
  shows "db_audit db' \<noteq> db_audit db"
proof -
  let ?tx = "\<lparr>ss_db = db, ss_tx = True, ss_aborted = False\<rparr>"
  from pg_tx.commits [OF assms(1) [unfolded mutateWithAudit_def]] obtain entry tx1 s where
    m: "mutate ?tx = ((Inr entry, v), tx1)" and a: "AppendAudit t (ae_audit env) entry tx1 = (Inr (), s)"
    and s: "db' = ss_db s"
    by (auto elim: audit_body_None)
  have "db_audit (ss_db tx1) = db_audit db"
    using assms(2) m unfolding audits_def by (metis snd_conv session.select_convs(1))
  then show ?thesis using AppendAudit_Inr [OF a] s by auto
qed

lemma truthful_answer:
  assumes "audits r action mutate" and "\<And>v. rs_Status (ok v) < 400"
  shows "truthful env db (answer ok (mutateWithAudit t env mutate db))"
proof -
  obtain e v db' where w: "mutateWithAudit t env mutate db = ((e, v), db')" by (metis prod.exhaust)
  show ?thesis
  proof (cases e)
    case None
    then show ?thesis
      using w mutateWithAudit_None [OF _ assms(1)] assms(2) [of v] by (auto simp: truthful_def answer_def)
  next
    case (Some er)
    then show ?thesis
      using w WithTx_Some by (fastforce simp: truthful_def answer_def mutateWithAudit_def)
  qed
qed

lemma truthful_refused: "400 \<le> rs_Status x \<Longrightarrow> truthful env db (x, db)"
  by (simp add: truthful_def)

lemma truthful_rule_answer:
  assumes "audits r action mutate"
  shows "truthful env db (case mutateWithAudit t env mutate db of
      ((Some e, v), db') \<Rightarrow> if errors_Is e ErrNotFound then (writeErr 404 ''rule id not found'', db')
                           else (writeErr 500 (error_text e), db')
    | ((None, v), db') \<Rightarrow> (id_response v, db'))"
  using truthful_answer [OF assms, of id_response env db t]
  by (auto simp: answer_def truthful_def split: prod.splits option.splits)

lemma handlers_truthful:
  "truthful env db (putProfile t env r db)" "truthful env db (deleteProfile t env r i db)"
  "truthful env db (putTarget t env r db)" "truthful env db (deleteTarget t env r i db)"
  "truthful env db (putRule t env r db)" "truthful env db (deleteRule t env r i db)"
  "truthful env db (putTier t env r db)" "truthful env db (deleteTier t env r i k db)"
  "truthful env db (putUser t env r db)"
  by (auto simp: put_handlers delete_handlers Let_def simp del: list.set split: option.split sum.split
      intro!: truthful_answer truthful_rule_answer truthful_refused audits_then writes_spare_audit)

end
