(* ===== verification/Api_Server.thy ===== *)
theory Api_Server
  imports Api Acl_Helper Go_Cmd
begin

text \<open>
  \<open>control-plane/internal/api/{server,metrics,tls,api}.go\<close> and \<open>cmd/api/main.go\<close>: the routing
  table as \<open>http.ServeMux\<close> reads it, the event stream, the scrape-time collector, the mTLS
  configuration and the life of the server. Sockets, certificates and the Prometheus package
  are parameters: the outcome of each call.
\<close>

subsection \<open>Definitions\<close>

subsubsection \<open>ServeMux\<close>

datatype seg = Lit string | Wild

datatype endpoint =
    EpListProfiles | EpGetProfile | EpPutProfile | EpDeleteProfile
  | EpListTargets | EpGetTarget | EpPutTarget | EpDeleteTarget
  | EpListRules | EpGetRuleByHost | EpPutRule | EpDeleteRule
  | EpListTiers | EpPutTier | EpDeleteTier
  | EpListUsers | EpPutUser
  | EpEvents | EpMetrics | EpProxyPAC

type_synonym mux = "(string \<times> seg list \<times> endpoint) list"

definition api_routes :: mux where
  "api_routes =
     [(''GET'', [Lit ''api'', Lit ''profiles''], EpListProfiles),
      (''GET'', [Lit ''api'', Lit ''profiles'', Wild], EpGetProfile),
      (''PUT'', [Lit ''api'', Lit ''profiles''], EpPutProfile),
      (''DELETE'', [Lit ''api'', Lit ''profiles'', Wild], EpDeleteProfile),
      (''GET'', [Lit ''api'', Lit ''targets''], EpListTargets),
      (''GET'', [Lit ''api'', Lit ''targets'', Wild], EpGetTarget),
      (''PUT'', [Lit ''api'', Lit ''targets''], EpPutTarget),
      (''DELETE'', [Lit ''api'', Lit ''targets'', Wild], EpDeleteTarget),
      (''GET'', [Lit ''api'', Lit ''rules''], EpListRules),
      (''GET'', [Lit ''api'', Lit ''rules'', Wild], EpGetRuleByHost),
      (''PUT'', [Lit ''api'', Lit ''rules''], EpPutRule),
      (''DELETE'', [Lit ''api'', Lit ''rules'', Wild], EpDeleteRule),
      (''GET'', [Lit ''api'', Lit ''tiers'', Wild], EpListTiers),
      (''PUT'', [Lit ''api'', Lit ''tiers''], EpPutTier),
      (''DELETE'', [Lit ''api'', Lit ''tiers'', Wild, Wild], EpDeleteTier),
      (''GET'', [Lit ''api'', Lit ''users''], EpListUsers),
      (''PUT'', [Lit ''api'', Lit ''users''], EpPutUser),
      (''GET'', [Lit ''events''], EpEvents),
      (''GET'', [Lit ''metrics''], EpMetrics),
      (''GET'', [Lit ''proxy.pac''], EpProxyPAC)]"

definition metricsRoutes :: mux where
  "metricsRoutes = [(''GET'', [Lit ''metrics''], EpMetrics)]"

text \<open>\<open>path.Clean\<close> of a rooted path, its segments on a stack, and \<open>cleanPath\<close> of \<open>net/http\<close>.\<close>

fun clean_segs :: "string list \<Rightarrow> string list \<Rightarrow> string list" where
  "clean_segs st [] = rev st"
| "clean_segs st (f # fs) =
     (if f = [] \<or> f = ''.'' then clean_segs st fs
      else if f = ''..'' then clean_segs (tl st) fs
      else clean_segs (f # st) fs)"

definition cleanPath :: "string \<Rightarrow> string" where
  "cleanPath p =
     (if p = [] then ''/''
      else
        let p = (if hd p = CHR ''/'' then p else CHR ''/'' # p);
            np = CHR ''/'' # Join (clean_segs [] (Split p CHR ''/'')) ''/''
        in if last p = CHR ''/'' \<and> np \<noteq> ''/'' then np @ ''/'' else np)"

text \<open>
  The segments of a path as the router takes them: unescaped one by one (kept as they are
  where that fails), a trailing slash being a segment of its own.
\<close>

definition path_segs :: "string \<Rightarrow> string list" where
  "path_segs p =
     (let fs = Split (tl p) CHR ''/'';
          un = (\<lambda>f. case PathUnescape f of Some s \<Rightarrow> s | None \<Rightarrow> f)
      in map un (butlast fs) @ (if last fs = [] then [''/''] else [un (last fs)]))"

text \<open>The values of the wildcards where the pattern matches; no wildcard takes a trailing slash.\<close>

fun match_segs :: "seg list \<Rightarrow> string list \<Rightarrow> string list option" where
  "match_segs [] [] = Some []"
| "match_segs (Lit l # ps) (f # fs) = (if f = l then match_segs ps fs else None)"
| "match_segs (Wild # ps) (f # fs) = (if f = ''/'' then None else map_option (\<lambda>vs. f # vs) (match_segs ps fs))"
| "match_segs _ _ = None"

datatype dispatch = Found endpoint "string list" | Redirected string | NoMethod | NoPath

fun find_route :: "mux \<Rightarrow> string \<Rightarrow> string list \<Rightarrow> (endpoint \<times> string list) option" where
  "find_route [] m fs = None"
| "find_route ((m', ps, ep) # rs) m fs =
     (if m' = m \<or> m = ''HEAD'' \<and> m' = ''GET''
      then (case match_segs ps fs of Some vs \<Rightarrow> Some (ep, vs) | None \<Rightarrow> find_route rs m fs)
      else find_route rs m fs)"

definition findHandler :: "mux \<Rightarrow> string \<Rightarrow> string \<Rightarrow> dispatch" where
  "findHandler mx m p =
     (let path = (if m = ''CONNECT'' then p else cleanPath p) in
      if path \<noteq> p then Redirected path
      else case find_route mx m (path_segs path) of
          Some (ep, vs) \<Rightarrow> Found ep vs
        | None \<Rightarrow>
            if list_ex (\<lambda>(m', ps, ep). match_segs ps (path_segs path) \<noteq> None) mx then NoMethod else NoPath)"

subsubsection \<open>Serving\<close>

datatype reply = Reply response | EventStream | MetricsPage | NotServed dispatch

definition handle :: "(nat \<Rightarrow> bool) \<Rightarrow> pg_types \<Rightarrow> req_env \<Rightarrow> http_request \<Rightarrow> endpoint \<Rightarrow> string list \<Rightarrow> db \<Rightarrow> reply \<times> db" where
  "handle wide t env r ep vs db =
     (let get = (\<lambda>x. (Reply x, db)); put = (\<lambda>(x, db'). (Reply x, db'));
          arg = (\<lambda>n. if n < length vs then vs ! n else [])
      in case ep of
          EpListProfiles \<Rightarrow> get (listProfiles t env db)
        | EpGetProfile \<Rightarrow> get (getProfile t env (arg 0) db)
        | EpPutProfile \<Rightarrow> put (putProfile t env r db)
        | EpDeleteProfile \<Rightarrow> put (deleteProfile t env r (arg 0) db)
        | EpListTargets \<Rightarrow> get (listTargets t env db)
        | EpGetTarget \<Rightarrow> get (getTarget t env (arg 0) db)
        | EpPutTarget \<Rightarrow> put (putTarget t env r db)
        | EpDeleteTarget \<Rightarrow> put (deleteTarget t env r (arg 0) db)
        | EpListRules \<Rightarrow> get (listRules env db)
        | EpGetRuleByHost \<Rightarrow> get (getRuleByHost t env (arg 0) db)
        | EpPutRule \<Rightarrow> put (putRule t env r db)
        | EpDeleteRule \<Rightarrow> put (deleteRule t env r (arg 0) db)
        | EpListTiers \<Rightarrow> get (listTiers t env (arg 0) db)
        | EpPutTier \<Rightarrow> put (putTier t env r db)
        | EpDeleteTier \<Rightarrow> put (deleteTier t env r (arg 0) (arg 1) db)
        | EpListUsers \<Rightarrow> get (listUsers t env db)
        | EpPutUser \<Rightarrow> put (putUser t env r db)
        | EpEvents \<Rightarrow> (EventStream, db)
        | EpMetrics \<Rightarrow> (MetricsPage, db)
        | EpProxyPAC \<Rightarrow> get (proxyPAC wide t env db))"

definition serve :: "mux \<Rightarrow> (nat \<Rightarrow> bool) \<Rightarrow> pg_types \<Rightarrow> req_env \<Rightarrow> http_request \<Rightarrow> db \<Rightarrow> reply \<times> db" where
  "serve mx wide t env r db =
     (case findHandler mx (hr_Method r) (hr_Path r) of
        Found ep vs \<Rightarrow> handle wide t env r ep vs db
      | other \<Rightarrow> (NotServed other, db))"

subsubsection \<open>The event stream\<close>

text \<open>
  What the loop meets at each turn: the request's context ends, the channel closes, or an
  event arrives, with the outcome of writing its frame. The frames written are the result.
\<close>

datatype sse_turn = CtxDone | ChanClosed | Arrived Event bool

fun events_loop :: "sse_turn list \<Rightarrow> string list" where
  "events_loop [] = []"
| "events_loop (CtxDone # ts) = []"
| "events_loop (ChanClosed # ts) = []"
| "events_loop (Arrived ev written # ts) =
     (if written then (''data: '' @ marshal_event ev @ [LF, LF]) # events_loop ts else [])"

definition events_headers :: "(string \<times> string) list" where
  "events_headers = [(''Content-Type'', ''text/event-stream''), (''Cache-Control'', ''no-cache''), (''Connection'', ''keep-alive'')]"

text \<open>\<open>flusher\<close>: whether the writer can stream; the subscription may fail.\<close>

definition events :: "bool \<Rightarrow> go_error option \<Rightarrow> sse_turn list \<Rightarrow> response \<times> string list" where
  "events flusher subscribe turns =
     (if \<not> flusher then (writeErr 500 ''streaming unsupported'', [])
      else case subscribe of
          Some e \<Rightarrow> (writeErr 502 (''event bus unavailable: '' @ error_text e), [])
        | None \<Rightarrow> (\<lparr>rs_Status = 200, rs_Headers = events_headers, rs_Body = []\<rparr>, events_loop turns))"

subsubsection \<open>metrics.go\<close>

definition MetricVPNUp :: string where "MetricVPNUp = ''helix_proxy_vpn_up''"
definition MetricACLDecisionsTotal :: string where "MetricACLDecisionsTotal = ''helix_proxy_acl_decisions_total''"
definition MetricTunnelDownResponses :: string where "MetricTunnelDownResponses = ''helix_proxy_tunnel_down_responses_total''"

text \<open>The counters of the registry: the decision label to its count, and the 503 responses.\<close>

record Metrics =
  mt_aclDecisions :: "string \<Rightarrow> nat option"
  mt_tunnelDown :: nat

definition newMetrics :: Metrics where
  "newMetrics = \<lparr>mt_aclDecisions = [''OK'' \<mapsto> 0, ''ERR'' \<mapsto> 0], mt_tunnelDown = 0\<rparr>"

definition IncACLDecision :: "string \<Rightarrow> Metrics \<Rightarrow> Metrics" where
  "IncACLDecision decision m =
     (let d = (if decision \<noteq> ''OK'' \<and> decision \<noteq> ''ERR'' then ''ERR'' else decision);
          n = (case mt_aclDecisions m d of None \<Rightarrow> 0 | Some n \<Rightarrow> n)
      in m\<lparr>mt_aclDecisions := (mt_aclDecisions m)(d \<mapsto> n + 1)\<rparr>)"

definition IncTunnelDownResponse :: "Metrics \<Rightarrow> Metrics" where
  "IncTunnelDownResponse m = m\<lparr>mt_tunnelDown := mt_tunnelDown m + 1\<rparr>"

text \<open>\<open>Collect\<close>: the series of one scrape, a label value with 1 or 0 for every profile listed.\<close>

definition Collect_up :: "VPNProfile list \<times> go_error option \<Rightarrow> Bus \<Rightarrow> (string \<times> nat) list" where
  "Collect_up listing bus =
     (case listing of
        (profiles, Some e) \<Rightarrow> []
      | (profiles, None) \<Rightarrow>
          map (\<lambda>p. (vp_Name p, if hs_State (fst (bus_GetStatus bus (vp_Name p))) = StateUp then 1 else 0)) profiles)"

subsubsection \<open>tls.go\<close>

record Config =
  cf_Addr :: string
  cf_TLSCert :: string
  cf_TLSKey :: string
  cf_ClientCA :: string
  cf_MetricsAddr :: string

datatype ClientAuthType =
    NoClientCert | RequestClientCert | RequireAnyClientCert | VerifyClientCertIfGiven | RequireAndVerifyClientCert

record tls_Config =
  tc_Certificate :: "string \<times> string"
  tc_ClientCAs :: string
  tc_MinVersion :: nat
  tc_ClientAuth :: ClientAuthType

text \<open>Loading a key pair, reading a file, and whether its text holds a certificate.\<close>

record tls_io =
  io_LoadX509KeyPair :: "string \<Rightarrow> string \<Rightarrow> go_error option"
  io_ReadFile :: "string \<Rightarrow> string result"
  io_AppendCertsFromPEM :: "string \<Rightarrow> bool"

definition VersionTLS12 :: nat where "VersionTLS12 = 0x0303"

definition buildTLSConfig :: "(nat \<Rightarrow> bool) \<Rightarrow> tls_io \<Rightarrow> Config \<Rightarrow> tls_Config result" where
  "buildTLSConfig wide io cfg =
     (if cf_TLSCert cfg = [] \<or> cf_TLSKey cfg = [] \<or> cf_ClientCA cfg = [] then
        Inl (Msg (''api: mTLS requires CONTROL_API_TLS_CERT/CONTROL_API_TLS_KEY/CONTROL_API_TLS_CLIENT_CA paths (got cert=''
          @ Quote wide (cf_TLSCert cfg) @ '' key='' @ Quote wide (cf_TLSKey cfg)
          @ '' client_ca='' @ Quote wide (cf_ClientCA cfg) @ '')''))
      else case io_LoadX509KeyPair io (cf_TLSCert cfg) (cf_TLSKey cfg) of
          Some e \<Rightarrow> Inl (Wrap ''api: load server keypair: '' e)
        | None \<Rightarrow>
            (case io_ReadFile io (cf_ClientCA cfg) of
               Inl e \<Rightarrow> Inl (Wrap ''api: read client CA: '' e)
             | Inr pem \<Rightarrow>
                 if \<not> io_AppendCertsFromPEM io pem then
                   Inl (Msg (''api: client CA '' @ Quote wide (cf_ClientCA cfg) @ '' contained no usable certificates''))
                 else Inr \<lparr>tc_Certificate = (cf_TLSCert cfg, cf_TLSKey cfg), tc_ClientCAs = pem,
                           tc_MinVersion = VersionTLS12, tc_ClientAuth = RequireAndVerifyClientCert\<rparr>))"

subsubsection \<open>The server's life\<close>

definition ErrServerClosed :: go_error where
  "ErrServerClosed = Sentinel ''http: Server closed''"

text \<open>
  The server object. Its backends (store, status bus, PAC generator, counters) are the arguments
  of the handlers above and never change; what changes is the address of the metrics listener.
\<close>

record server =
  sv_cfg :: Config
  sv_mux :: mux
  sv_metricsAddr :: string

definition NewServer :: "Config \<Rightarrow> server" where
  "NewServer cfg = \<lparr>sv_cfg = cfg, sv_mux = api_routes, sv_metricsAddr = []\<rparr>"

definition boundMetricsAddr :: "server \<Rightarrow> string" where
  "boundMetricsAddr s = sv_metricsAddr s"

text \<open>\<open>listen\<close>: the address a listener is bound to, or the error of binding it.\<close>

definition startMetricsListener :: "(nat \<Rightarrow> bool) \<Rightarrow> (string \<Rightarrow> string result) \<Rightarrow> server \<Rightarrow> string option result \<times> server" where
  "startMetricsListener wide listen s =
     (let a = cf_MetricsAddr (sv_cfg s) in
      if a = [] then (Inr None, s)
      else case listen a of
          Inl e \<Rightarrow> (Inl (Wrap (''api: bind plaintext metrics listener '' @ Quote wide a @ '': '') e), s)
        | Inr addr \<Rightarrow> (Inr (Some addr), s\<lparr>sv_metricsAddr := addr\<rparr>))"

text \<open>
  How serving ends: the context is cancelled and the server drained, with the outcome of the
  shutdown, or the listener stops with an error. The sockets opened are part of the result,
  each with its address, its routing table and its TLS configuration.
\<close>

datatype serve_end = Cancelled "go_error option" | Stopped go_error

type_synonym socket = "string \<times> mux \<times> tls_Config option"

definition Start ::
  "(nat \<Rightarrow> bool) \<Rightarrow> tls_io \<Rightarrow> (string \<Rightarrow> string result) \<Rightarrow> serve_end \<Rightarrow> server \<Rightarrow> (socket list \<times> go_error option) \<times> server" where
  "Start wide io listen fin s =
     (case buildTLSConfig wide io (sv_cfg s) of
        Inl e \<Rightarrow> (([], Some e), s)
      | Inr tlsCfg \<Rightarrow>
          (case startMetricsListener wide listen s of
             (Inl e, s) \<Rightarrow> (([], Some e), s)
           | (Inr m, s) \<Rightarrow>
               (((case m of Some addr \<Rightarrow> [(addr, metricsRoutes, None)] | None \<Rightarrow> [])
                   @ [(cf_Addr (sv_cfg s), sv_mux s, Some tlsCfg)],
                 (case fin of
                    Cancelled r \<Rightarrow> r
                  | Stopped e \<Rightarrow> if errors_Is e ErrServerClosed then None else Some e)), s)))"

subsubsection \<open>cmd/api\<close>

definition getenv :: "(string \<Rightarrow> string) \<Rightarrow> string \<Rightarrow> string \<Rightarrow> string" where
  "getenv os key def = (if os key \<noteq> [] then os key else def)"

text \<open>
  \<open>os\<close> is the process environment; opening Postgres and Redis are outcomes. \<open>addr\<close> is the flag
  of that name, whose default is \<open>api_addr\<close>.
\<close>

definition api_addr :: "(string \<Rightarrow> string) \<Rightarrow> string" where
  "api_addr os = getenv os ''CONTROL_API_ADDR'' '':34088''"

definition api_config :: "(string \<Rightarrow> string) \<Rightarrow> string \<Rightarrow> Config" where
  "api_config os addr =
     \<lparr>cf_Addr = addr, cf_TLSCert = os ''CONTROL_API_TLS_CERT'', cf_TLSKey = os ''CONTROL_API_TLS_KEY'',
      cf_ClientCA = os ''CONTROL_API_TLS_CLIENT_CA'', cf_MetricsAddr = os ''CONTROL_API_METRICS_ADDR''\<rparr>"

definition api_run ::
  "(nat \<Rightarrow> bool) \<Rightarrow> tls_io \<Rightarrow> (string \<Rightarrow> string result) \<Rightarrow> serve_end \<Rightarrow> (string \<Rightarrow> string)
    \<Rightarrow> (string \<Rightarrow> go_error option) \<Rightarrow> (string \<Rightarrow> go_error option) \<Rightarrow> string \<Rightarrow> socket list \<times> go_error option" where
  "api_run wide io listen fin os open_pg open_redis addr =
     (if os ''HELIX_PG_DSN'' = [] then ([], Some (Msg ''$HELIX_PG_DSN is required''))
      else case open_pg (os ''HELIX_PG_DSN'') of
          Some e \<Rightarrow> ([], Some (Wrap ''open postgres: '' e))
        | None \<Rightarrow>
            (case open_redis (getenv os ''REDIS_ADDR'' ''127.0.0.1:6379'') of
               Some e \<Rightarrow> ([], Some (Wrap ''open redis: '' e))
             | None \<Rightarrow> fst (Start wide io listen fin (NewServer (api_config os addr)))))"

definition api_version :: string where "api_version = ''0.1.0''"

definition api_flags :: "(string \<Rightarrow> string) \<Rightarrow> flag_set" where
  "api_flags os = [(''version'', FBool False), (''addr'', FString (api_addr os))]"

definition api_main ::
  "(nat \<Rightarrow> bool) \<Rightarrow> string \<Rightarrow> tls_io \<Rightarrow> (string \<Rightarrow> string result) \<Rightarrow> serve_end \<Rightarrow> (string \<Rightarrow> string)
    \<Rightarrow> (string \<Rightarrow> go_error option) \<Rightarrow> (string \<Rightarrow> go_error option) \<Rightarrow> string list \<Rightarrow> socket list \<times> process_end" where
  "api_main wide usage io listen fin os open_pg open_redis args =
     (case Parse wide (api_flags os) args of
        Inl e \<Rightarrow> ([], exit_flags usage e)
      | Inr (s, _) \<Rightarrow>
          if flag_bool s ''version'' then ([], exit_ok (''api '' @ api_version @ [LF]))
          else (case api_run wide io listen fin os open_pg open_redis (flag_string s ''addr'') of
              (socks, None) \<Rightarrow> (socks, exit_ok [])
            | (socks, Some e) \<Rightarrow> (socks, exit_error ''api'' e)))"

subsection \<open>Dispatch\<close>

definition mutating :: "endpoint \<Rightarrow> bool" where
  "mutating ep \<longleftrightarrow> ep \<in> {EpPutProfile, EpDeleteProfile, EpPutTarget, EpDeleteTarget, EpPutRule, EpDeleteRule,
     EpPutTier, EpDeleteTier, EpPutUser}"

lemma find_route_Some:
  "find_route mx m fs = Some (ep, vs) \<Longrightarrow>
     \<exists>m' ps. (m', ps, ep) \<in> set mx \<and> (m' = m \<or> m = ''HEAD'' \<and> m' = ''GET'') \<and> match_segs ps fs = Some vs"
  by (induction mx m fs rule: find_route.induct) (auto split: if_splits option.splits)

lemma routes_methods: "list_all (\<lambda>(m, ps, ep). mutating ep \<longleftrightarrow> m = ''PUT'' \<or> m = ''DELETE'') api_routes"
  by (simp add: api_routes_def mutating_def)

lemma findHandler_Found:
  "findHandler mx m p = Found ep vs \<Longrightarrow> find_route mx m (path_segs p) = Some (ep, vs)"
  by (auto simp: findHandler_def Let_def split: if_splits option.splits)

lemma found_method:
  assumes "findHandler api_routes m p = Found ep vs"
  shows "mutating ep \<longleftrightarrow> m = ''PUT'' \<or> m = ''DELETE''"
proof -
  obtain m' ps where "(m', ps, ep) \<in> set api_routes" "m' = m \<or> m = ''HEAD'' \<and> m' = ''GET''"
    using find_route_Some [OF findHandler_Found [OF assms]] by blast
  then show ?thesis using routes_methods by (auto simp: list_all_iff)
qed

subsection \<open>One request\<close>

lemma handle_reads: "\<not> mutating ep \<Longrightarrow> snd (handle wide t env r ep vs db) = db"
  by (cases ep) (auto simp: handle_def mutating_def Let_def)

text \<open>The action a change is recorded under.\<close>

definition audit_action :: "endpoint \<Rightarrow> string" where
  "audit_action ep =
     (case ep of EpPutProfile \<Rightarrow> ''profile.upsert'' | EpDeleteProfile \<Rightarrow> ''profile.delete''
      | EpPutTarget \<Rightarrow> ''target.upsert'' | EpDeleteTarget \<Rightarrow> ''target.delete''
      | EpPutRule \<Rightarrow> ''rule.upsert'' | EpDeleteRule \<Rightarrow> ''rule.delete''
      | EpPutTier \<Rightarrow> ''tier.upsert'' | EpDeleteTier \<Rightarrow> ''tier.delete''
      | EpPutUser \<Rightarrow> ''user.upsert'' | _ \<Rightarrow> [])"

lemma routes_actions:
  "list_all (\<lambda>(m, ps, ep). mutating ep \<longrightarrow> (\<exists>k qs. ps = Lit ''api'' # Lit k # qs \<and> k = butlast k @ ''s''
      \<and> audit_action ep = butlast k @ (if m = ''PUT'' then ''.upsert'' else ''.delete''))) api_routes"
  by (simp add: api_routes_def mutating_def audit_action_def)

lemma found_action:
  assumes "findHandler api_routes m p = Found ep vs" and "mutating ep"
  shows "\<exists>kind rest. path_segs p = ''api'' # (kind @ ''s'') # rest
    \<and> audit_action ep = kind @ (if m = ''PUT'' then ''.upsert'' else ''.delete'')"
proof -
  obtain m' ps where mem: "(m', ps, ep) \<in> set api_routes" and m: "m' = m \<or> m = ''HEAD'' \<and> m' = ''GET''"
    and seg: "match_segs ps (path_segs p) = Some vs"
    using find_route_Some [OF findHandler_Found [OF assms(1)]] by blast
  have eq: "m' = m" using m found_method [OF assms(1)] assms(2) by auto
  from bspec [OF routes_actions [unfolded list_all_iff] mem] assms(2) obtain k qs where
    ps: "ps = Lit ''api'' # Lit k # qs" and k: "k = butlast k @ ''s''"
      "audit_action ep = butlast k @ (if m = ''PUT'' then ''.upsert'' else ''.delete'')"
    unfolding eq by blast
  obtain rest where "path_segs p = ''api'' # k # rest"
    using seg ps by (cases "path_segs p" rule: remdups_adj.cases) (auto split: if_splits)
  then show ?thesis using k by metis
qed

definition good_step :: "pg_types \<Rightarrow> req_env \<Rightarrow> http_request \<Rightarrow> string \<Rightarrow> db \<Rightarrow> response \<times> db \<Rightarrow> bool" where
  "good_step t env r action db x \<longleftrightarrow> truthful env db x \<and> audited t (actorFromRequest r) action db (snd x)
     \<and> (db_ok t db \<and> env_ok t (ae_stmt env) \<and> env_ok t (ae_audit env) \<longrightarrow> db_ok t (snd x))"

lemma handlers_good:
  "good_step t env r ''profile.upsert'' db (putProfile t env r db)" "good_step t env r ''profile.delete'' db (deleteProfile t env r i db)"
  "good_step t env r ''target.upsert'' db (putTarget t env r db)" "good_step t env r ''target.delete'' db (deleteTarget t env r i db)"
  "good_step t env r ''rule.upsert'' db (putRule t env r db)" "good_step t env r ''rule.delete'' db (deleteRule t env r i db)"
  "good_step t env r ''tier.upsert'' db (putTier t env r db)" "good_step t env r ''tier.delete'' db (deleteTier t env r i k db)"
  "good_step t env r ''user.upsert'' db (putUser t env r db)"
  by (simp_all add: good_step_def handlers_truthful handlers_audited handlers_keep_ok)

lemma handle_writes:
  assumes "mutating ep"
  shows "\<exists>x. handle wide t env r ep vs db = (Reply (fst x), snd x) \<and> good_step t env r (audit_action ep) db x"
  using assms
  by (cases ep) (simp_all add: mutating_def audit_action_def handle_def Let_def case_prod_beta handlers_good)

lemma handle_step:
  "audited t (actorFromRequest r) (audit_action ep) db (snd (handle wide t env r ep vs db))
    \<and> (db_ok t db \<and> env_ok t (ae_stmt env) \<and> env_ok t (ae_audit env) \<longrightarrow> db_ok t (snd (handle wide t env r ep vs db)))"
proof (cases "mutating ep")
  case True
  from handle_writes [OF True, of wide t env r vs db] show ?thesis by (auto simp: good_step_def)
qed (simp add: handle_reads)

lemma serve_step:
  shows "\<exists>action. audited t (actorFromRequest r) action db (snd (serve mx wide t env r db))"
    and "db_ok t db \<Longrightarrow> env_ok t (ae_stmt env) \<Longrightarrow> env_ok t (ae_audit env) \<Longrightarrow> db_ok t (snd (serve mx wide t env r db))"
  using handle_step by (fastforce simp: serve_def split: dispatch.split)+

subsection \<open>The gauge\<close>

lemma Collect_up_one:
  "(n, 1) \<in> set (Collect_up (ps, None) bus) \<longleftrightarrow> n \<in> vp_Name ` set ps \<and> hs_State (fst (bus_GetStatus bus n)) = StateUp"
proof -
  have "(n, 1) = (vp_Name p, if hs_State (fst (bus_GetStatus bus (vp_Name p))) = StateUp then 1 else 0 :: nat)
    \<longleftrightarrow> n = vp_Name p \<and> hs_State (fst (bus_GetStatus bus n)) = StateUp" for p by auto
  then show ?thesis by (auto simp: Collect_up_def image_iff)
qed

subsection \<open>Any number of requests\<close>

inductive api_reach :: "pg_types \<Rightarrow> (nat \<Rightarrow> bool) \<Rightarrow> db \<Rightarrow> db \<Rightarrow> bool" for t wide db0 where
  start: "api_reach t wide db0 db0"
| request: "api_reach t wide db0 db \<Longrightarrow> env_ok t (ae_stmt env) \<Longrightarrow> env_ok t (ae_audit env)
    \<Longrightarrow> api_reach t wide db0 (snd (serve api_routes wide t env r db))"

lemma api_reach_ok: "api_reach t wide db0 db \<Longrightarrow> db_ok t db0 \<Longrightarrow> db_ok t db"
  by (induction rule: api_reach.induct) (auto intro: serve_step(2))

context pg_padding
begin

lemma serve_keeps_named: "named db \<Longrightarrow> named (snd (serve mx wide t env r db))"
proof -
  assume n: "named db"
  have "named (snd (handle wide t env r ep vs db))" for ep vs
    using n by (cases ep) (simp_all add: handle_def Let_def case_prod_beta handlers_keep_named)
  then show ?thesis using n by (simp add: serve_def split: dispatch.split)
qed

lemma api_reach_named: "api_reach t wide db0 db \<Longrightarrow> named db0 \<Longrightarrow> named db"
  by (induction rule: api_reach.induct) (simp_all add: serve_keeps_named)

end

lemma api_reach_audit:
  "api_reach t wide db0 db \<Longrightarrow> \<exists>rows. db_audit db = db_audit db0 @ rows \<and> (rows = [] \<longrightarrow> db = db0)"
proof (induction rule: api_reach.induct)
  case (request db env r)
  then obtain rows where rows: "db_audit db = db_audit db0 @ rows" "rows = [] \<longrightarrow> db = db0" by blast
  show ?case
    using serve_step(1) [of t r db api_routes wide env] rows by (auto simp: audited_def)
qed simp

subsection \<open>Properties\<close>

text \<open>
  C4: no unaudited change: whatever requests the control API serves, in whatever order and
  however the database, the audit insert, the commits and their replies fail, the audit log
  only grows, and unless it has grown the whole database is as it was.
\<close>

theorem api_changes_are_audited:
  assumes "api_reach t wide db0 db"
  shows "\<exists>rows. db_audit db = db_audit db0 @ rows \<and> (rows = [] \<longrightarrow> db = db0)"
  using api_reach_audit [OF assms] .

definition del_request :: http_request where
  "del_request = \<lparr>hr_Method = ''DELETE'', hr_Path = ''/api/profiles/'' @ pid1, hr_PeerCNs = Some [''admin''], hr_Body = []\<rparr>"

definition ok_env :: req_env where
  "ok_env = \<lparr>ae_stmt = ref_env, ae_audit = ref_env,
     ae_tx = \<lparr>te_begin = None, te_commit = Committed, te_aborted = Msg []\<rparr>, ae_decode = (\<lambda>_. [])\<rparr>"

definition lost_env :: req_env where
  "lost_env = ok_env\<lparr>ae_audit := ref_env\<lparr>se_fault := LostBefore (Msg ''connection reset'')\<rparr>\<rparr>"

lemma del_found: "findHandler api_routes (hr_Method del_request) (hr_Path del_request) = Found EpDeleteProfile [pid1]"
  by (simp add: findHandler_def del_request_def cleanPath_def path_segs_def api_routes_def pid1_def)

lemma del_detail: "pg_jsonb ref_types (print_object [(''id'', print_string pid1)]) = Some (print_object [(''id'', print_string pid1)])"
proof -
  let ?v = "JObj [(''id'', JStr pid1)]"
  have p: "print_object [(''id'', print_string pid1)] = print_json ?v" by (simp add: print_object_def)
  have wf: "wf_json ?v" by (simp add: visible_utf8 visible_def pid1_def)
  show ?thesis unfolding p
    by (simp add: ref_types_def ref_jsonb_def parse_print [OF wf] wf del: print_json.simps wf_json.simps)
qed

lemma del_served:
  "serve api_routes (\<lambda>_. True) ref_types ok_env del_request wiki_db
    = (Reply noContent, wiki_db\<lparr>db_profiles := [], db_targets := [row_wiki\<lparr>tr_profile := None, tr_updated := 100\<rparr>],
         db_audit := [\<lparr>ar_id = 1, ar_ts = 100, ar_actor = ''admin'', ar_action = ''profile.delete'',
                      ar_detail = print_object [(''id'', print_string pid1)]\<rparr>]\<rparr>)"
  "serve api_routes (\<lambda>_. True) ref_types lost_env del_request wiki_db
    = (Reply (writeErr 500 ''audit write failed: store: append audit: connection reset''), wiki_db)"
proof -
  have d: "DeleteProfile ref_types ref_env pid1 \<lparr>ss_db = wiki_db, ss_tx = True, ss_aborted = False\<rparr>
    = (Inr (), \<lparr>ss_db = wiki_db\<lparr>db_profiles := [], db_targets := [row_wiki\<lparr>tr_profile := None, tr_updated := 100\<rparr>]\<rparr>,
         ss_tx = True, ss_aborted = False\<rparr>)"
    using ref_uuids
    by (simp add: DeleteProfile_def run_stmt_def ref_env_def sqlDeleteProfile_def conv_def ref_types_def wiki_db_def
        row_eu_def row_wiki_def wrap_result_def)
  have vc: "pg_varchar ref_types 255 ''admin'' = Some ''admin''"
    "pg_varchar ref_types 100 ''profile.delete'' = Some ''profile.delete''"
    by (simp_all add: ref_varchar visible_def)
  have wa: "db_audit wiki_db = []" by (simp add: wiki_db_def)
  have ne: "print_object xs \<noteq> []" for xs by (simp add: print_object_def)
  have a: "AppendAudit ref_types ref_env (auditEntry del_request ''profile.delete'' (marshal_strings [(''id'', pid1)]))
      \<lparr>ss_db = db, ss_tx = True, ss_aborted = False\<rparr>
    = (Inr (), \<lparr>ss_db = db\<lparr>db_audit := [\<lparr>ar_id = 1, ar_ts = 100, ar_actor = ''admin'', ar_action = ''profile.delete'',
         ar_detail = print_object [(''id'', print_string pid1)]\<rparr>]\<rparr>, ss_tx = True, ss_aborted = False\<rparr>)"
    if "db_audit db = []" for db
    using that del_detail vc
    by (simp add: AppendAudit_def run_stmt_def sqlAppendAudit_def conv_def require_def auditEntry_def marshal_strings_def
        actorFromRequest_def del_request_def ref_env_def wrap_result_def ne)
  have le: "ae_stmt lost_env = ref_env" "te_begin (ae_tx lost_env) = None" by (simp_all add: lost_env_def ok_env_def)
  have l: "AppendAudit ref_types (ae_audit lost_env) e \<lparr>ss_db = db, ss_tx = True, ss_aborted = False\<rparr>
    = (Inl (Wrap ''store: append audit: '' (Msg ''connection reset'')), \<lparr>ss_db = db, ss_tx = True, ss_aborted = True\<rparr>)" for db e
    by (simp add: AppendAudit_def run_stmt_def lost_env_def wrap_result_def fail_tx_def)
  note served = serve_def del_found handle_def deleteProfile_def mutateWithAudit_def audit_body_def do_then_def
    WithTx_def answer_def
  show "serve api_routes (\<lambda>_. True) ref_types ok_env del_request wiki_db
    = (Reply noContent, wiki_db\<lparr>db_profiles := [], db_targets := [row_wiki\<lparr>tr_profile := None, tr_updated := 100\<rparr>],
         db_audit := [\<lparr>ar_id = 1, ar_ts = 100, ar_actor = ''admin'', ar_action = ''profile.delete'',
                      ar_detail = print_object [(''id'', print_string pid1)]\<rparr>]\<rparr>)"
    by (simp add: served ok_env_def d a wa)
  show "serve api_routes (\<lambda>_. True) ref_types lost_env del_request wiki_db
    = (Reply (writeErr 500 ''audit write failed: store: append audit: connection reset''), wiki_db)"
    by (simp add: served d l le)
qed

theorem api_changes_are_audited_witness:
  "\<exists>rows. db_audit (snd (serve api_routes (\<lambda>_. True) ref_types ok_env del_request wiki_db)) = db_audit wiki_db @ rows
    \<and> length rows = 1"
proof -
  let ?db = "snd (serve api_routes (\<lambda>_. True) ref_types ok_env del_request wiki_db)"
  have "api_reach ref_types (\<lambda>_. True) wiki_db ?db"
    by (intro api_reach.intros) (simp_all add: ok_env_def ref_env_ok)
  from api_changes_are_audited [OF this] obtain rows where "db_audit ?db = db_audit wiki_db @ rows" by blast
  moreover have "length (db_audit ?db) = 1" "db_audit wiki_db = []" by (simp add: del_served, simp add: wiki_db_def)
  ultimately show ?thesis by auto
qed

text \<open>
  C5: a status can be believed. A request other than PUT and DELETE changes nothing, nor does
  one that is not dispatched. A PUT or DELETE answered with an error (400 and up) changed
  nothing, unless the reply of its commit was lost; one answered otherwise added a row to the
  log, under the name of the client's certificate and the action it was: the kind of entity
  the path names, in the singular, and \<open>upsert\<close> or \<open>delete\<close>.
\<close>

theorem serve_status_truthful:
  "case serve api_routes wide t env r db of (rep, db') \<Rightarrow>
     if hr_Method r \<noteq> ''PUT'' \<and> hr_Method r \<noteq> ''DELETE'' then db' = db
     else case rep of
         Reply resp \<Rightarrow>
           if 400 \<le> rs_Status resp then db' = db \<or> (\<exists>e. te_commit (ae_tx env) = CommitReplyLost e)
           else \<exists>row kind rest. db_audit db' = db_audit db @ [row]
             \<and> pg_varchar t 255 (actorFromRequest r) = Some (ar_actor row)
             \<and> path_segs (hr_Path r) = ''api'' # (kind @ ''s'') # rest
             \<and> pg_varchar t 100 (kind @ (if hr_Method r = ''PUT'' then ''.upsert'' else ''.delete'')) = Some (ar_action row)
       | _ \<Rightarrow> db' = db"
proof (cases "findHandler api_routes (hr_Method r) (hr_Path r)")
  case (Found ep vs)
  note m = found_method [OF Found]
  have s: "serve api_routes wide t env r db = handle wide t env r ep vs db" by (simp add: serve_def Found)
  show ?thesis
  proof (cases "mutating ep")
    case True
    from handle_writes [OF True, of wide t env r vs db] obtain x where
      "handle wide t env r ep vs db = (Reply (fst x), snd x)" "good_step t env r (audit_action ep) db x" by blast
    moreover from found_action [OF Found True] obtain kind rest where "path_segs (hr_Path r) = ''api'' # (kind @ ''s'') # rest"
      "audit_action ep = kind @ (if hr_Method r = ''PUT'' then ''.upsert'' else ''.delete'')" by blast
    ultimately show ?thesis using m True by (auto simp: s good_step_def truthful_def audited_def)
  next
    case False
    then have "snd (handle wide t env r ep vs db) = db" by (rule handle_reads)
    then show ?thesis using m False by (auto simp: s split: prod.splits)
  qed
qed (simp_all add: serve_def)

text \<open>
  C32: validation is exact: a PUT is answered 400 exactly when its body is not one JSON value of
  the entity's shape with known fields only, or a required field is blank, or the type, the
  port or the tier is out of range. (A value only the
  database refuses, such as a malformed address, is not among them: it is a 500.)
\<close>

theorem put_validation:
  "(rs_Status (fst (putProfile t env r db)) = 400 \<longleftrightarrow>
      (case decode_profile (hr_Body r) of None \<Rightarrow> True | Some d \<Rightarrow> TrimSpace (pd_Name d) = []
         \<or> pd_Type d \<notin> set [[], ''wireguard'', ''openvpn'', ''legacy''] \<or> pd_Config d \<noteq> [] \<and> parse_json (pd_Config d) = None))
   \<and> (rs_Status (fst (putTarget t env r db)) = 400 \<longleftrightarrow>
      (case decode_target (hr_Body r) of None \<Rightarrow> True | Some d \<Rightarrow> TrimSpace (td_PublicAlias d) = []
         \<or> TrimSpace (td_PrivateIP d) = [] \<or> td_Port d \<notin> {0..65535}))
   \<and> (rs_Status (fst (putRule t env r db)) = 400 \<longleftrightarrow>
      (case decode_rule (hr_Body r) of None \<Rightarrow> True | Some d \<Rightarrow> rd_MatchHost d = [] \<and> rd_MatchPath d = []))
   \<and> (rs_Status (fst (putTier t env r db)) = 400 \<longleftrightarrow>
      (case decode_tier (hr_Body r) of None \<Rightarrow> True | Some d \<Rightarrow> id_TargetID d = [] \<or> id_VPNProfileID d = [] \<or> id_Tier d < 0))
   \<and> (rs_Status (fst (putUser t env r db)) = 400 \<longleftrightarrow>
      (case decode_user (hr_Body r) of None \<Rightarrow> True | Some d \<Rightarrow> TrimSpace (ud_Username d) = []))"
proof -
  have ans: "rs_Status (fst (answer ok x)) \<noteq> 400" if "\<And>v. rs_Status (ok v) = 200" for ok x
    using that by (auto simp: answer_def split: prod.splits option.splits)
  have rule: "rs_Status (fst (case x of ((Some e, v), db') \<Rightarrow> if P e then (writeErr 404 m, db') else (writeErr 500 (f e), db')
      | ((None, v), db') \<Rightarrow> (id_response v, db'))) \<noteq> 400" for x :: "(go_error option \<times> string) \<times> db" and P m f
    by (auto split: prod.splits option.splits)
  show ?thesis
    by (intro conjI)
      (auto simp: put_handlers ans rule VPNTypeWireGuard_def VPNTypeOpenVPN_def VPNTypeLegacy_def split: option.split)
qed

definition port_json :: json where
  "port_json = JObj [(''public_alias'', JStr ''wiki''), (''private_ip'', JStr ''10.0.0.1''), (''port'', JNum (show_int 70000))]"

definition port_request :: http_request where
  "port_request = \<lparr>hr_Method = ''PUT'', hr_Path = ''/api/targets'', hr_PeerCNs = Some [''admin''], hr_Body = print_json port_json\<rparr>"

lemma port_decoded: "\<exists>d. decode_target (hr_Body port_request) = Some d \<and> td_Port d = 70000"
proof -
  have "wf_json port_json" by (auto simp: port_json_def visible_utf8 visible_def)
  then have "decode_first (print_json port_json) = Some port_json"
    using parse_value_print [of port_json "Suc (length (print_json port_json))" "[]"] by (simp add: decode_first_def ends_value_def)
  moreover have "ParseInt (show_int 70000) = Inr 70000" by (rule ParseInt_show_int) simp_all
  ultimately show ?thesis
    by (simp add: port_request_def decode_target_def decodeJSON_def)
      (simp add: port_json_def fill_struct_def find_field_def target_fields_def dec_string_def dec_int_def)
qed

theorem put_validation_witness:
  "rs_Status (fst (putTarget ref_types ok_env port_request wiki_db)) = 400"
proof -
  have "case decode_target (hr_Body port_request) of None \<Rightarrow> True | Some d \<Rightarrow> TrimSpace (td_PublicAlias d) = []
      \<or> TrimSpace (td_PrivateIP d) = [] \<or> td_Port d \<notin> {0..65535}" using port_decoded by auto
  then show ?thesis using put_validation [of ref_types ok_env port_request wiki_db] by simp
qed

lemma metricsRoutes_serve:
  "serve metricsRoutes wide t env r db = (MetricsPage, db) \<or> (\<exists>d. serve metricsRoutes wide t env r db = (NotServed d, db))"
  using find_route_Some [of metricsRoutes] findHandler_Found [of metricsRoutes]
  by (fastforce simp: serve_def metricsRoutes_def handle_def Let_def split: dispatch.splits)

lemma api_main_sockets:
  "fst (api_main wide usage io listen fin os open_pg open_redis args) = []
    \<or> (\<exists>addr. fst (api_main wide usage io listen fin os open_pg open_redis args) = fst (fst (Start wide io listen fin (NewServer (api_config os addr)))))"
  by (auto simp: api_main_def api_run_def split: sum.splits prod.splits option.splits) (metis fst_conv)+

lemma Start_sockets:
  assumes "(addr, mx, tls) \<in> set (fst (fst (Start wide io listen fin (NewServer cfg))))"
  shows "\<exists>pem. io_LoadX509KeyPair io (cf_TLSCert cfg) (cf_TLSKey cfg) = None
      \<and> io_ReadFile io (cf_ClientCA cfg) = Inr pem \<and> io_AppendCertsFromPEM io pem
      \<and> cf_TLSCert cfg \<noteq> [] \<and> cf_TLSKey cfg \<noteq> [] \<and> cf_ClientCA cfg \<noteq> []"
    and "case tls of
        Some c \<Rightarrow> tc_ClientAuth c = RequireAndVerifyClientCert \<and> VersionTLS12 \<le> tc_MinVersion c
          \<and> io_ReadFile io (cf_ClientCA cfg) = Inr (tc_ClientCAs c)
      | None \<Rightarrow> cf_MetricsAddr cfg \<noteq> [] \<and> mx = metricsRoutes"
  using assms by (auto simp: Start_def NewServer_def buildTLSConfig_def startMetricsListener_def Let_def split: sum.splits option.splits if_splits)

text \<open>The address a server reports is that of its plaintext socket, and empty without one.\<close>

lemma Start_bound:
  assumes "Start wide io listen fin (NewServer cfg) = ((socks, e), s)"
  shows "(addr, mx, None) \<in> set socks \<Longrightarrow> boundMetricsAddr s = addr \<and> listen (cf_MetricsAddr cfg) = Inr addr"
    and "None \<notin> (snd \<circ> snd) ` set socks \<Longrightarrow> boundMetricsAddr s = []"
  using assms
  by (auto simp: Start_def NewServer_def startMetricsListener_def boundMetricsAddr_def Let_def split: sum.splits if_splits)

text \<open>
  C10: no way around mTLS. However the server is started, whatever its arguments and its
  environment, it asks for a socket only if the configured key pair loads and the client CA
  file holds a certificate; the socket of the control API requires and verifies a client
  certificate, at TLS 1.2 at least; and any other socket serves the metrics page alone: no
  request on it reaches a handler that reads or writes the store. Without one of the three
  files the process exits with 1 and has opened nothing.
\<close>

theorem api_fails_closed:
  shows "(\<forall>addr mx tls. (addr, mx, tls) \<in> set (fst (api_main wide usage io listen fin os open_pg open_redis args)) \<longrightarrow>
      (\<exists>pem. io_LoadX509KeyPair io (os ''CONTROL_API_TLS_CERT'') (os ''CONTROL_API_TLS_KEY'') = None
        \<and> io_ReadFile io (os ''CONTROL_API_TLS_CLIENT_CA'') = Inr pem \<and> io_AppendCertsFromPEM io pem)
      \<and> (case tls of
          Some c \<Rightarrow> tc_ClientAuth c = RequireAndVerifyClientCert \<and> VersionTLS12 \<le> tc_MinVersion c
            \<and> io_ReadFile io (os ''CONTROL_API_TLS_CLIENT_CA'') = Inr (tc_ClientCAs c)
        | None \<Rightarrow> os ''CONTROL_API_METRICS_ADDR'' \<noteq> [] \<and> snd (serve mx wide t env r db) = db
            \<and> (fst (serve mx wide t env r db) = MetricsPage \<or> (\<exists>d. fst (serve mx wide t env r db) = NotServed d))))
    \<and> ((os ''CONTROL_API_TLS_CERT'' = [] \<or> os ''CONTROL_API_TLS_KEY'' = [] \<or> os ''CONTROL_API_TLS_CLIENT_CA'' = []) \<longrightarrow>
        fst (api_main wide usage io listen fin os open_pg open_redis []) = []
        \<and> pr_exit (snd (api_main wide usage io listen fin os open_pg open_redis [])) = 1)"
proof (intro conjI allI impI)
  fix addr mx tls
  assume "(addr, mx, tls) \<in> set (fst (api_main wide usage io listen fin os open_pg open_redis args))"
  then obtain a where s: "(addr, mx, tls) \<in> set (fst (fst (Start wide io listen fin (NewServer (api_config os a)))))"
    using api_main_sockets [of wide usage io listen fin os open_pg open_redis args] by auto
  show "\<exists>pem. io_LoadX509KeyPair io (os ''CONTROL_API_TLS_CERT'') (os ''CONTROL_API_TLS_KEY'') = None
      \<and> io_ReadFile io (os ''CONTROL_API_TLS_CLIENT_CA'') = Inr pem \<and> io_AppendCertsFromPEM io pem"
    using Start_sockets(1) [OF s] by (auto simp: api_config_def)
  show "case tls of
      Some c \<Rightarrow> tc_ClientAuth c = RequireAndVerifyClientCert \<and> VersionTLS12 \<le> tc_MinVersion c
        \<and> io_ReadFile io (os ''CONTROL_API_TLS_CLIENT_CA'') = Inr (tc_ClientCAs c)
    | None \<Rightarrow> os ''CONTROL_API_METRICS_ADDR'' \<noteq> [] \<and> snd (serve mx wide t env r db) = db
        \<and> (fst (serve mx wide t env r db) = MetricsPage \<or> (\<exists>d. fst (serve mx wide t env r db) = NotServed d))"
    using Start_sockets(2) [OF s] metricsRoutes_serve [of wide t env r db]
    by (auto simp: api_config_def split: option.splits)
next
  assume missing: "os ''CONTROL_API_TLS_CERT'' = [] \<or> os ''CONTROL_API_TLS_KEY'' = [] \<or> os ''CONTROL_API_TLS_CLIENT_CA'' = []"
  then have "\<exists>e. api_run wide io listen fin os open_pg open_redis (flag_string (api_flags os) ''addr'') = ([], Some e)"
    by (auto simp: api_run_def Start_def NewServer_def buildTLSConfig_def api_config_def split: option.splits)
  then show "fst (api_main wide usage io listen fin os open_pg open_redis []) = []"
    "pr_exit (snd (api_main wide usage io listen fin os open_pg open_redis [])) = 1"
    by (auto simp: api_main_def flag_bool_def api_flags_def)
qed

definition ex_io :: tls_io where
  "ex_io = \<lparr>io_LoadX509KeyPair = (\<lambda>_ _. None), io_ReadFile = (\<lambda>_. Inr ''PEM''), io_AppendCertsFromPEM = (\<lambda>_. True)\<rparr>"

theorem api_fails_closed_witness:
  "snd (serve metricsRoutes (\<lambda>_. True) ref_types ok_env del_request wiki_db) = wiki_db"
proof -
  have "('':34090'', metricsRoutes, None) \<in> set (fst (api_main (\<lambda>_. True) [] ex_io Inr (Cancelled None)
      (\<lambda>k. '':34090'') (\<lambda>_. None) (\<lambda>_. None) []))"
    by (simp add: api_main_def flag_bool_def api_flags_def api_run_def Start_def NewServer_def buildTLSConfig_def startMetricsListener_def Let_def
        ex_io_def api_config_def)
  then show ?thesis
    using api_fails_closed [of "\<lambda>_. True" "[]" ex_io Inr "Cancelled None" "\<lambda>k. '':34090''" "\<lambda>_. None" "\<lambda>_. None" "[]"
        ref_types ok_env del_request wiki_db] by fastforce
qed

end
