(* ===== verification/Api_Roundtrip.thy ===== *)
theory Api_Roundtrip
  imports Api_Server
begin

text \<open>
  What a client of the control API gets back: the JSON of targets, rules, tiers and users is
  read as it was printed, and a target written by one request is the target the next one
  reads, through the router, the handlers, the transaction and the store.
\<close>

subsection \<open>Printed objects\<close>

lemma decode_first_object:
  assumes "wf_json (JObj kvs)"
  shows "decode_first (print_json (JObj kvs) @ u) = Some (JObj kvs)"
proof (cases "kvs = []")
  case True
  then show ?thesis by (simp add: decode_first_def)
next
  case False
  define n where "n = length (print_json (JObj kvs) @ u)"
  obtain w where w: "Join (map print_member kvs) '','' @ CHR ''}'' # u = CHR 0x22 # w"
    using Join_members_hd [OF False] by blast
  have "parse_members n (Join (map print_member kvs) '','' @ CHR ''}'' # u) = Some (kvs, u)"
  proof (rule parse_members_print [OF _ _ False])
    show "length (Join (map print_member kvs) '','') < n" by (simp add: n_def)
    fix kv m r assume "kv \<in> set kvs" "length (print_json (snd kv)) \<le> m" "ends_value r"
    then show "parse_value m (print_json (snd kv) @ r) = Some (snd kv, r)"
      using assms by (intro parse_value_print) auto
  qed (use assms in auto)
  then have "parse_members n (CHR 0x22 # w) = Some (kvs, u)" by (simp only: w)
  then have "parse_value (Suc n) (CHR ''{'' # CHR 0x22 # w) = Some (JObj kvs, u)" by simp
  moreover have "print_json (JObj kvs) @ u = CHR ''{'' # CHR 0x22 # w" using w by simp
  ultimately show ?thesis by (simp only: decode_first_def n_def option.map fst_conv)
qed

definition printed :: "(string \<times> json) list \<Rightarrow> (string \<times> string) list" where
  "printed kvs = map (\<lambda>kv. (fst kv, print_json (snd kv))) kvs"

lemma print_object_printed: "print_object (printed kvs) = print_json (JObj kvs)"
  by (simp add: print_object_def printed_def comp_def)

lemma fill_fields_append:
  "fill_fields strict fds (xs @ ys) x = Option.bind (fill_fields strict fds xs x) (fill_fields strict fds ys)"
proof (induction xs arbitrary: x)
  case (Cons a xs)
  obtain k v where a: "a = (k, v)" by fastforce
  show ?case
  proof (cases "find_field fds k")
    case None
    then show ?thesis using Cons by (cases strict) (simp_all add: a)
  next
    case (Some f)
    then show ?thesis using Cons by (cases "f v x") (simp_all add: a)
  qed
qed simp

definition opt_member :: "string \<Rightarrow> string \<Rightarrow> (string \<times> json) list" where
  "opt_member k s = (if s = [] then [] else [(k, JStr s)])"

lemma opt_string_printed: "opt_string k s = printed (opt_member k s)"
  by (simp add: opt_string_def opt_member_def printed_def)

lemma fill_opt_member:
  assumes "find_field fds k = Some (dec_string upd)" and "upd [] x = x"
  shows "fill_fields strict fds (opt_member k s) x = Some (upd s x)"
  using assms by (simp add: opt_member_def dec_string_def)

lemma wf_opt_member: "valid_utf8 k \<Longrightarrow> valid_utf8 s \<Longrightarrow> \<forall>kv \<in> set (opt_member k s). valid_utf8 (fst kv) \<and> wf_json (snd kv)"
  by (simp add: opt_member_def)

lemma decodeJSON_object:
  assumes "wf_json (JObj kvs)" and "b = print_json (JObj kvs)"
  shows "decodeJSON fds zero (b @ u) = fill_fields True fds kvs zero"
  unfolding assms(2) decodeJSON_def decode_first_object [OF assms(1)] by (simp add: fill_struct_def)

lemmas member_decoders = fill_fields_append fill_opt_member dec_string_def dec_int_def dec_bool_def

text \<open>What a value must be to survive: text in UTF-8, numbers in the range of \<open>int\<close>.\<close>

definition int_ok :: "int \<Rightarrow> bool" where
  "int_ok i \<longleftrightarrow> - (2 ^ 63) \<le> i \<and> i < 2 ^ 63"

lemma ParseInt_ok: "int_ok i \<Longrightarrow> ParseInt (show_int i) = Inr i"
  by (rule ParseInt_show_int) (simp_all add: int_ok_def)

subsection \<open>Targets\<close>

definition target_members :: "targetDTO \<Rightarrow> (string \<times> json) list" where
  "target_members d =
     opt_member ''id'' (td_ID d) @ [(''public_alias'', JStr (td_PublicAlias d)), (''private_ip'', JStr (td_PrivateIP d))]
     @ (if td_Port d = 0 then [] else [(''port'', JNum (show_int (td_Port d)))])
     @ opt_member ''protocol'' (td_Protocol d) @ opt_member ''vpn_profile_id'' (td_VPNProfileID d)
     @ opt_member ''health_check'' (td_HealthCheck d) @ [(''enabled'', JBool (td_Enabled d))]"

lemma marshal_target_json: "marshal_target d = Some (print_json (JObj (target_members d)))"
proof -
  have "marshal_target d = Some (print_object (printed (target_members d)))"
    by (simp add: marshal_target_def target_members_def opt_string_printed printed_def print_bool_def)
  then show ?thesis by (simp only: print_object_printed)
qed

definition target_ok :: "targetDTO \<Rightarrow> bool" where
  "target_ok d \<longleftrightarrow> list_all valid_utf8 [td_ID d, td_PublicAlias d, td_PrivateIP d, td_Protocol d, td_VPNProfileID d, td_HealthCheck d]
     \<and> int_ok (td_Port d)"

lemma target_field_of:
  "find_field target_fields ''id'' = Some (dec_string (\<lambda>v d. d\<lparr>td_ID := v\<rparr>))"
  "find_field target_fields ''public_alias'' = Some (dec_string (\<lambda>v d. d\<lparr>td_PublicAlias := v\<rparr>))"
  "find_field target_fields ''private_ip'' = Some (dec_string (\<lambda>v d. d\<lparr>td_PrivateIP := v\<rparr>))"
  "find_field target_fields ''port'' = Some (dec_int (\<lambda>v d. d\<lparr>td_Port := v\<rparr>))"
  "find_field target_fields ''protocol'' = Some (dec_string (\<lambda>v d. d\<lparr>td_Protocol := v\<rparr>))"
  "find_field target_fields ''vpn_profile_id'' = Some (dec_string (\<lambda>v d. d\<lparr>td_VPNProfileID := v\<rparr>))"
  "find_field target_fields ''health_check'' = Some (dec_string (\<lambda>v d. d\<lparr>td_HealthCheck := v\<rparr>))"
  "find_field target_fields ''enabled'' = Some (dec_bool (\<lambda>v d. d\<lparr>td_Enabled := v\<rparr>))"
  by (simp_all add: find_field_def target_fields_def)

lemma decode_marshal_target:
  assumes "target_ok d" and "marshal_target d = Some b"
  shows "decode_target (b @ u) = Some d"
proof -
  have wf: "wf_json (JObj (target_members d))"
    using assms(1) by (auto simp: target_members_def target_ok_def opt_member_def visible_utf8 visible_def)
  have b: "b = print_json (JObj (target_members d))" using assms(2) by (simp only: marshal_target_json option.inject)
  show ?thesis
    unfolding decode_target_def decodeJSON_object [OF wf b] using assms(1)
    by (simp add: target_members_def member_decoders target_field_of ParseInt_ok target_ok_def)
qed

subsection \<open>Rules, tiers and users\<close>

definition rule_members :: "ruleDTO \<Rightarrow> (string \<times> json) list" where
  "rule_members d =
     opt_member ''id'' (rd_ID d) @ [(''priority'', JNum (show_int (rd_Priority d)))]
     @ opt_member ''match_host'' (rd_MatchHost d) @ opt_member ''match_path'' (rd_MatchPath d)
     @ opt_member ''target_host_id'' (rd_TargetHostID d) @ [(''enabled'', JBool (rd_Enabled d))]"

definition tier_members :: "tierDTO \<Rightarrow> (string \<times> json) list" where
  "tier_members d = [(''target_id'', JStr (id_TargetID d)), (''vpn_profile_id'', JStr (id_VPNProfileID d)), (''tier'', JNum (show_int (id_Tier d)))]"

definition user_members :: "userDTO \<Rightarrow> (string \<times> json) list" where
  "user_members d =
     opt_member ''id'' (ud_ID d) @ [(''username'', JStr (ud_Username d))] @ opt_member ''secret_ref'' (ud_SecretRef d)
     @ opt_member ''role'' (ud_Role d) @ [(''enabled'', JBool (ud_Enabled d))]"

lemma marshal_rule_json: "marshal_rule d = Some (print_json (JObj (rule_members d)))"
  and marshal_tier_json: "marshal_tier d' = Some (print_json (JObj (tier_members d')))"
  and marshal_user_json: "marshal_user d'' = Some (print_json (JObj (user_members d'')))"
proof -
  have "marshal_rule d = Some (print_object (printed (rule_members d)))"
    "marshal_tier d' = Some (print_object (printed (tier_members d')))"
    "marshal_user d'' = Some (print_object (printed (user_members d'')))"
    by (simp_all add: marshal_rule_def rule_members_def marshal_tier_def tier_members_def marshal_user_def user_members_def
        opt_string_printed printed_def print_bool_def)
  then show "marshal_rule d = Some (print_json (JObj (rule_members d)))" "marshal_tier d' = Some (print_json (JObj (tier_members d')))"
    "marshal_user d'' = Some (print_json (JObj (user_members d'')))"
    by (simp_all only: print_object_printed)
qed

definition rule_ok :: "ruleDTO \<Rightarrow> bool" where
  "rule_ok d \<longleftrightarrow> list_all valid_utf8 [rd_ID d, rd_MatchHost d, rd_MatchPath d, rd_TargetHostID d] \<and> int_ok (rd_Priority d)"

definition tier_ok :: "tierDTO \<Rightarrow> bool" where
  "tier_ok d \<longleftrightarrow> list_all valid_utf8 [id_TargetID d, id_VPNProfileID d] \<and> int_ok (id_Tier d)"

definition user_ok :: "userDTO \<Rightarrow> bool" where
  "user_ok d \<longleftrightarrow> list_all valid_utf8 [ud_ID d, ud_Username d, ud_SecretRef d, ud_Role d]"

lemma decode_marshal_rule:
  assumes "rule_ok d" and "marshal_rule d = Some b"
  shows "decode_rule (b @ u) = Some d"
proof -
  have wf: "wf_json (JObj (rule_members d))"
    using assms(1) by (auto simp: rule_members_def rule_ok_def opt_member_def visible_utf8 visible_def)
  have b: "b = print_json (JObj (rule_members d))" using assms(2) by (simp only: marshal_rule_json option.inject)
  show ?thesis
    unfolding decode_rule_def decodeJSON_object [OF wf b] using assms(1)
    by (simp add: rule_members_def member_decoders find_field_def rule_fields_def ParseInt_ok rule_ok_def opt_member_def)
qed

lemma decode_marshal_tier:
  assumes "tier_ok d" and "marshal_tier d = Some b"
  shows "decode_tier (b @ u) = Some d"
proof -
  have wf: "wf_json (JObj (tier_members d))"
    using assms(1) by (auto simp: tier_members_def tier_ok_def visible_utf8 visible_def)
  have b: "b = print_json (JObj (tier_members d))" using assms(2) by (simp only: marshal_tier_json option.inject)
  show ?thesis
    unfolding decode_tier_def decodeJSON_object [OF wf b] using assms(1)
    by (simp add: tier_members_def member_decoders find_field_def tier_fields_def ParseInt_ok tier_ok_def)
qed

lemma decode_marshal_user:
  assumes "user_ok d" and "marshal_user d = Some b"
  shows "decode_user (b @ u) = Some d"
proof -
  have wf: "wf_json (JObj (user_members d))"
    using assms(1) by (auto simp: user_members_def user_ok_def opt_member_def visible_utf8 visible_def)
  have b: "b = print_json (JObj (user_members d))" using assms(2) by (simp only: marshal_user_json option.inject)
  show ?thesis
    unfolding decode_user_def decodeJSON_object [OF wf b] using assms(1)
    by (simp add: user_members_def member_decoders find_field_def user_fields_def user_ok_def opt_member_def)
qed

subsection \<open>The path of a target\<close>

text \<open>A path element that the router hands on as it is: no slash, no dots alone.\<close>

definition plain_elem :: "string \<Rightarrow> bool" where
  "plain_elem raw \<longleftrightarrow> raw \<noteq> [] \<and> raw \<noteq> ''.'' \<and> raw \<noteq> ''..'' \<and> CHR ''/'' \<notin> set raw"

lemma target_path_segs:
  assumes "plain_elem raw"
  shows "Split (''/api/targets/'' @ raw) (CHR ''/'') = [[], ''api'', ''targets'', raw]"
  using assms by (simp add: Split_single plain_elem_def)

lemma target_path_clean:
  assumes "plain_elem raw"
  shows "cleanPath (''/api/targets/'' @ raw) = ''/api/targets/'' @ raw"
proof -
  have ne: "raw \<noteq> []" using assms by (simp add: plain_elem_def)
  then have "last raw \<in> set raw" by simp
  then have "last raw \<noteq> CHR ''/''" using assms unfolding plain_elem_def by metis
  then have "last (''/api/targets/'' @ raw) \<noteq> CHR ''/''" using ne by simp
  moreover have "clean_segs [] [[], ''api'', ''targets'', raw] = [''api'', ''targets'', raw]"
    using assms by (simp add: plain_elem_def)
  ultimately show ?thesis
    using target_path_segs [OF assms] by (simp add: cleanPath_def Let_def del: last.simps Split.simps)
qed

lemma target_get_route:
  assumes "plain_elem raw" and "encodes raw a" and "a \<noteq> ''/''"
  shows "findHandler api_routes ''GET'' (''/api/targets/'' @ raw) = Found EpGetTarget [a]"
proof -
  have "path_segs (''/api/targets/'' @ raw) = [''api'', ''targets'', a]"
  proof -
    have "Split (tl (''/api/targets/'' @ raw)) (CHR ''/'') = [''api'', ''targets'', raw]"
      using assms(1) by (simp add: Split_single plain_elem_def)
    moreover have "PathUnescape ''api'' = Some ''api''" "PathUnescape ''targets'' = Some ''targets''" by simp_all
    ultimately show ?thesis
      using assms(1) PathUnescape_encodes [OF assms(2)] by (simp add: path_segs_def Let_def plain_elem_def del: Split.simps list.sel)
  qed
  moreover have "find_route api_routes ''GET'' [''api'', ''targets'', a] = Some (EpGetTarget, [a])"
    using assms(3) by (simp add: api_routes_def)
  ultimately show ?thesis
    by (simp add: findHandler_def target_path_clean [OF assms(1)] del: append_Cons append_Nil find_route.simps)
qed

lemma target_put_route: "findHandler api_routes ''PUT'' ''/api/targets'' = Found EpPutTarget []"
  by code_simp

subsection \<open>Text in the database\<close>

text \<open>
  A database whose encoding is UTF-8 hands out text, identifiers and addresses in UTF-8.
\<close>

locale pg_utf8 = pg_laws t for t +
  assumes text_utf8: "pg_text t s \<Longrightarrow> valid_utf8 s"
    and uuid_utf8: "pg_uuid t s = Some u \<Longrightarrow> valid_utf8 u"
    and inet_utf8: "pg_inet t s = Some u \<Longrightarrow> valid_utf8 u"
begin

lemma varchar_utf8: "pg_varchar t n s = Some u \<Longrightarrow> valid_utf8 u"
  using varchar_canon text_utf8 by blast

lemma row_utf8:
  assumes "db_ok t db" and "r \<in> set (db_targets db)"
  shows "valid_utf8 (tr_id r)" "valid_utf8 (coalesce (tr_profile r))"
proof -
  have r: "pg_uuid t (tr_id r) = Some (tr_id r)" "references (tr_profile r) (map vr_id (db_profiles db))"
    using assms by (auto simp: db_ok_def targets_ok_def list_all_iff)
  then show "valid_utf8 (tr_id r)" using uuid_utf8 by blast
  show "valid_utf8 (coalesce (tr_profile r))"
  proof (cases "tr_profile r")
    case (Some p)
    then obtain q where "q \<in> set (db_profiles db)" "vr_id q = p" using r(2) by (auto simp: references_def)
    then have "pg_uuid t p = Some p" using assms(1) by (auto simp: db_ok_def profiles_ok_def list_all_iff)
    then show ?thesis using uuid_utf8 Some by (simp add: coalesce_def)
  qed (simp add: coalesce_def visible_utf8)
qed

end

lemma chars_of_fields: "c \<in> set s \<Longrightarrow> c = sep \<or> (\<exists>f \<in> set (Split s sep). c \<in> set f)"
  by (induction s) (auto split: list.splits)

lemma dotted_visible:
  assumes "list_all (\<lambda>f. f = show_nat (dec_val f) \<and> dec_val f < 256) (Split s (CHR ''.''))"
  shows "visible_string s"
  unfolding list_all_iff
proof
  fix c assume "c \<in> set s"
  then consider "c = CHR ''.''" | f where "f \<in> set (Split s (CHR ''.''))" "c \<in> set f"
    using chars_of_fields [of c s "CHR ''.''"] by blast
  then show "visible c"
  proof cases
    case 2
    then have "f = show_nat (dec_val f)" using assms by (auto simp: list_all_iff)
    then have "list_all is_digit f" by (metis show_nat_digits)
    then show ?thesis using 2(2) digits_visible by (auto simp: list_all_iff)
  qed (simp add: visible_def)
qed

interpretation ref_utf8: pg_utf8 ref_types
proof
  fix s u
  show "valid_utf8 s" if "pg_text ref_types s" using that by (simp add: ref_types_def ref_text_def)
  have "visible_string u" if "pg_uuid ref_types s = Some u"
    using that by (auto simp: ref_types_def ref_uuid_def list_all_iff is_digit_def visible_def split: if_splits)
  then show "valid_utf8 u" if "pg_uuid ref_types s = Some u" using that visible_utf8 by blast
  show "valid_utf8 u" if "pg_inet ref_types s = Some u"
    using that dotted_visible visible_utf8 by (auto simp: ref_types_def ref_inet_def split: if_splits)
qed

subsection \<open>A successful write\<close>

lemma answer_id_ok:
  assumes "answer id_response w = (x, db')" and "rs_Status x = 200"
  obtains i where "w = ((None, i), db')" and "x = id_response i"
  using assms by (auto simp: answer_def split: prod.splits option.splits)

lemma putTarget_ok:
  assumes "putTarget t env r db = (x, db')" and "rs_Status x = 200" and "decode_target (hr_Body r) = Some d"
  obtains i s1 where "x = id_response i"
    "UpsertTarget t (ae_stmt env)
       \<lparr>th_ID = [], th_PublicAlias = td_PublicAlias d, th_PrivateIP = td_PrivateIP d, th_Port = td_Port d,
        th_Protocol = td_Protocol d, th_VPNProfileID = td_VPNProfileID d, th_HealthCheck = td_HealthCheck d,
        th_Enabled = td_Enabled d, th_Created = 0, th_Updated = 0\<rparr> \<lparr>ss_db = db, ss_tx = True, ss_aborted = False\<rparr> = (Inr i, s1)"
    "db_targets db' = db_targets (ss_db s1)"
proof -
  let ?g = "\<lparr>th_ID = [], th_PublicAlias = td_PublicAlias d, th_PrivateIP = td_PrivateIP d, th_Port = td_Port d,
        th_Protocol = td_Protocol d, th_VPNProfileID = td_VPNProfileID d, th_HealthCheck = td_HealthCheck d,
        th_Enabled = td_Enabled d, th_Created = 0, th_Updated = 0\<rparr>"
  let ?m = "upsert_then (UpsertTarget t (ae_stmt env) ?g)
     (\<lambda>i. auditEntry r ''target.upsert'' (marshal_strings [(''id'', i), (''public_alias'', td_PublicAlias d)]))"
  have "answer id_response (mutateWithAudit t env ?m db) = (x, db')"
    using assms by (auto simp: putTarget_def split: if_splits)
  then obtain i where w: "mutateWithAudit t env ?m db = ((None, i), db')" and x: "x = id_response i"
    using assms(2) by (rule answer_id_ok)
  from pg_tx.commits [OF w [unfolded mutateWithAudit_def]] obtain entry tx1 s where
    m: "?m \<lparr>ss_db = db, ss_tx = True, ss_aborted = False\<rparr> = ((Inr entry, i), tx1)"
    and a: "AppendAudit t (ae_audit env) entry tx1 = (Inr (), s)" and s: "db' = ss_db s"
    by (auto elim: audit_body_None)
  have "UpsertTarget t (ae_stmt env) ?g \<lparr>ss_db = db, ss_tx = True, ss_aborted = False\<rparr> = (Inr i, tx1)"
    using m by (auto simp: upsert_then_def split: prod.splits sum.splits)
  moreover have "db_targets db' = db_targets (ss_db tx1)" using AppendAudit_Inr [OF a] s by auto
  ultimately show thesis using x that by blast
qed

subsection \<open>Properties\<close>

text \<open>
  C34: a client reads back what it wrote. When a PUT of a target is answered with 200, the GET
  of its alias on the database the PUT left, on a working connection, is answered with 200 and
  a JSON body that decodes to the target written: under the identifier the PUT answered, with
  the address, protocol, profile and health check as the server stores them, and with port 80
  and protocol http where the request left them out. Through the router, the decoder, the
  transaction with its audit row, and the store.
\<close>

theorem put_then_get_target:
  assumes "pg_utf8 t" and "db_ok t db" and "env_ok t (ae_stmt env)" and "env_ok t (ae_audit env)"
    and "hr_Method r = ''PUT''" and "hr_Path r = ''/api/targets''" and "decode_target (hr_Body r) = Some d"
    and "serve api_routes wide t env r db = (Reply x, db')" and "rs_Status x = 200"
    and "pg_varchar t 255 (td_PublicAlias d) = Some a"
    and "hr_Method g = ''GET''" and "hr_Path g = ''/api/targets/'' @ raw"
    and "encodes raw a" and "plain_elem raw" and "a \<noteq> ''/''" and "se_fault (ae_stmt env2) = NoFault"
  shows "\<exists>i y d'. x = id_response i \<and> serve api_routes wide t env2 g db' = (Reply y, db') \<and> rs_Status y = 200
    \<and> decode_target (rs_Body y) = Some d' \<and> td_ID d' = i \<and> td_PublicAlias d' = a
    \<and> pg_inet t (td_PrivateIP d) = Some (td_PrivateIP d')
    \<and> td_Port d' = (if td_Port d = 0 then 80 else td_Port d)
    \<and> pg_varchar t 10 (if td_Protocol d = [] then ''http'' else td_Protocol d) = Some (td_Protocol d')
    \<and> (\<exists>p. nullif_uuid t (td_VPNProfileID d) = Some p \<and> td_VPNProfileID d' = coalesce p)
    \<and> (\<exists>h. nullif_varchar t 500 (td_HealthCheck d) = Some h \<and> td_HealthCheck d' = coalesce h)
    \<and> td_Enabled d' = td_Enabled d"
proof -
  have put: "putTarget t env r db = (x, db')"
    using assms(5,6,8) by (simp add: serve_def target_put_route handle_def split: prod.splits)
  then have ok': "db_ok t db'" using handlers_keep_ok(3) [OF assms(2-4), of r] by simp
  note laws = pg_utf8.axioms(1) [OF assms(1)]
  obtain i s1 where x: "x = id_response i" and db': "db_targets db' = db_targets (ss_db s1)"
    and up: "UpsertTarget t (ae_stmt env)
       \<lparr>th_ID = [], th_PublicAlias = td_PublicAlias d, th_PrivateIP = td_PrivateIP d, th_Port = td_Port d,
        th_Protocol = td_Protocol d, th_VPNProfileID = td_VPNProfileID d, th_HealthCheck = td_HealthCheck d,
        th_Enabled = td_Enabled d, th_Created = 0, th_Updated = 0\<rparr> \<lparr>ss_db = db, ss_tx = True, ss_aborted = False\<rparr> = (Inr i, s1)"
    by (rule putTarget_ok [OF put assms(9,7)])
  obtain row where row: "find (\<lambda>r. tr_alias r = a) (db_targets db') = Some row" "tr_id row = i"
      "pg_inet t (td_PrivateIP d) = Some (tr_ip row)" "tr_port row = (if td_Port d = 0 then 80 else td_Port d)"
      "pg_varchar t 10 (if td_Protocol d = [] then ''http'' else td_Protocol d) = Some (tr_protocol row)"
      "nullif_uuid t (td_VPNProfileID d) = Some (tr_profile row)"
      "nullif_varchar t 500 (td_HealthCheck d) = Some (tr_health row)" "tr_enabled row = td_Enabled d"
    by (rule UpsertTarget_read_back [OF laws _ up, of a]) (use assms(2,10) db' in \<open>simp_all cong: if_cong\<close>)
  have in': "row \<in> set (db_targets db')" and al: "tr_alias row = a" using row(1) by (auto simp: find_Some_iff)
  have pt: "pg_text t a" using pg_laws.varchar_canon [OF laws assms(10)] by simp
  let ?d = "targetToDTO (scanTarget row)"
  obtain b where b: "marshal_target ?d = Some b" by (simp add: marshal_target_json)
  have health: "valid_utf8 (coalesce (tr_health row))"
    using row(7) pg_utf8.varchar_utf8 [OF assms(1)] by (auto simp: nullif_varchar_def coalesce_def visible_utf8 split: if_splits option.splits)
  have "1 \<le> tr_port row" "tr_port row \<le> 65535" using ok' in' by (auto simp: db_ok_def targets_ok_def list_all_iff)
  then have "target_ok ?d"
    using pg_utf8.row_utf8 [OF assms(1) ok' in'] pg_utf8.text_utf8 [OF assms(1) pt] pg_utf8.inet_utf8 [OF assms(1) row(3)]
      pg_utf8.varchar_utf8 [OF assms(1) row(5)] health al
    by (simp add: target_ok_def targetToDTO_def scanTarget_def int_ok_def)
  from decode_marshal_target [OF this b] have dec: "decode_target (b @ [LF]) = Some ?d" .
  have "serve api_routes wide t env2 g db' = (Reply (writeJSON 200 (Some b)), db')"
    using target_get_route [OF assms(14,13,15)] GetTargetHost_found [OF row(1) pt assms(16)] b assms(11,12)
    by (simp add: serve_def handle_def getTarget_def get_response_def)
  then show ?thesis
    using x dec row al
    by (intro exI [of _ i] exI [of _ "writeJSON 200 (Some b)"] exI [of _ ?d])
      (simp add: targetToDTO_def scanTarget_def writeJSON_def)
qed

definition new_target :: TargetHost where
  "new_target = \<lparr>th_ID = [], th_PublicAlias = ''git.helix'', th_PrivateIP = ''10.0.0.2'', th_Port = 0, th_Protocol = [],
     th_VPNProfileID = pid1, th_HealthCheck = [], th_Enabled = True, th_Created = 0, th_Updated = 0\<rparr>"

lemma new_target_stored:
  "UpsertTarget ref_types ref_env new_target \<lparr>ss_db = wiki_db, ss_tx = True, ss_aborted = False\<rparr>
    = (Inr (se_newid ref_env), \<lparr>ss_db = wiki_db\<lparr>db_targets := [row_wiki,
        \<lparr>tr_id = se_newid ref_env, tr_alias = ''git.helix'', tr_ip = ''10.0.0.2'', tr_port = 80, tr_protocol = ''http'',
         tr_profile = Some pid1, tr_health = None, tr_enabled = True, tr_created = 100, tr_updated = 100\<rparr>]\<rparr>, ss_tx = True, ss_aborted = False\<rparr>)"
proof -
  have "pg_inet ref_types ''10.0.0.2'' = Some ''10.0.0.2''"
    by (simp add: ref_types_def ref_inet_def dec_val_def digit_val_def show_nat.simps char_of_def bit_0)
  moreover have "pg_uuid ref_types pid1 = Some pid1" "pid1 \<noteq> []" "tid1 \<noteq> se_newid ref_env"
    by (simp_all add: ref_types_def ref_uuids) (simp_all add: ids_defs ref_env_def)
  ultimately show ?thesis
    by (simp add: UpsertTarget_def new_target_def int4_def run_stmt_def sqlUpsertTarget_def conv_def require_def
        ref_varchar visible_def nullif_uuid_def nullif_varchar_def upsert_rows_def wiki_db_def row_wiki_def
        ref_env_def protocols_def references_def row_eu_def)
qed

definition git_dto :: targetDTO where
  "git_dto = \<lparr>td_ID = [], td_PublicAlias = ''git.helix'', td_PrivateIP = ''10.0.0.2'', td_Port = 0, td_Protocol = [],
     td_VPNProfileID = pid1, td_HealthCheck = [], td_Enabled = True\<rparr>"

definition git_put :: http_request where
  "git_put = \<lparr>hr_Method = ''PUT'', hr_Path = ''/api/targets'', hr_PeerCNs = Some [''admin''],
     hr_Body = (case marshal_target git_dto of Some b \<Rightarrow> b | None \<Rightarrow> [])\<rparr>"

definition git_get :: http_request where
  "git_get = \<lparr>hr_Method = ''GET'', hr_Path = ''/api/targets/git.helix'', hr_PeerCNs = Some [''admin''], hr_Body = []\<rparr>"

lemma git_decoded: "decode_target (hr_Body git_put) = Some git_dto"
proof -
  have "target_ok git_dto"
    by (simp add: target_ok_def git_dto_def int_ok_def visible_utf8 visible_def pid1_def)
  from decode_marshal_target [OF this, of _ "[]"] show ?thesis by (simp add: git_put_def marshal_target_json)
qed

lemma git_detail:
  "pg_jsonb ref_types (print_object [(''id'', print_string (se_newid ref_env)), (''public_alias'', print_string ''git.helix'')])
    = Some (print_object [(''id'', print_string (se_newid ref_env)), (''public_alias'', print_string ''git.helix'')])"
proof -
  let ?v = "JObj [(''id'', JStr (se_newid ref_env)), (''public_alias'', JStr ''git.helix'')]"
  have p: "print_object [(''id'', print_string (se_newid ref_env)), (''public_alias'', print_string ''git.helix'')] = print_json ?v"
    by (simp add: print_object_def)
  have wf: "wf_json ?v" by (simp add: visible_utf8 visible_def ref_env_def)
  show ?thesis unfolding p
    by (simp add: ref_types_def ref_jsonb_def parse_print [OF wf] wf del: print_json.simps wf_json.simps)
qed

lemma ok_env_sel: "ae_stmt ok_env = ref_env" "ae_audit ok_env = ref_env"
  "ae_tx ok_env = \<lparr>te_begin = None, te_commit = Committed, te_aborted = Msg []\<rparr>"
  by (simp_all add: ok_env_def)

lemma git_served:
  "\<exists>db'. serve api_routes (\<lambda>_. True) ref_types ok_env git_put wiki_db = (Reply (id_response (se_newid ref_env)), db')"
proof -
  have vc: "pg_varchar ref_types 255 ''admin'' = Some ''admin''" "pg_varchar ref_types 100 ''target.upsert'' = Some ''target.upsert''"
    by (simp_all add: ref_varchar visible_def)
  have ne: "print_object xs \<noteq> []" for xs by (simp add: print_object_def)
  have a: "\<exists>s'. AppendAudit ref_types ref_env (auditEntry git_put ''target.upsert''
        (marshal_strings [(''id'', se_newid ref_env), (''public_alias'', ''git.helix'')]))
      \<lparr>ss_db = wiki_db\<lparr>db_targets := ts\<rparr>, ss_tx = True, ss_aborted = False\<rparr> = (Inr (), s') \<and> ss_aborted s' = False" for ts
    using git_detail vc
    by (simp add: AppendAudit_def run_stmt_def sqlAppendAudit_def conv_def require_def auditEntry_def marshal_strings_def
        actorFromRequest_def git_put_def ref_env_def wrap_result_def ne wiki_db_def)
  have t: "TrimSpace ''git.helix'' = ''git.helix''" "TrimSpace ''10.0.0.2'' = ''10.0.0.2''" by code_simp+
  have p: "putTarget ref_types ok_env git_put wiki_db = answer id_response (mutateWithAudit ref_types ok_env
      (upsert_then (UpsertTarget ref_types ref_env new_target)
        (\<lambda>i. auditEntry git_put ''target.upsert'' (marshal_strings [(''id'', i), (''public_alias'', ''git.helix'')]))) wiki_db)"
    unfolding putTarget_def git_decoded by (simp add: git_dto_def t ok_env_def new_target_def)
  have "hr_Method git_put = ''PUT''" "hr_Path git_put = ''/api/targets''" by (simp_all add: git_put_def)
  then show ?thesis
    using a [of "[row_wiki,
        \<lparr>tr_id = se_newid ref_env, tr_alias = ''git.helix'', tr_ip = ''10.0.0.2'', tr_port = 80, tr_protocol = ''http'',
         tr_profile = Some pid1, tr_health = None, tr_enabled = True, tr_created = 100, tr_updated = 100\<rparr>]"]
    by (auto simp: serve_def target_put_route handle_def p mutateWithAudit_def audit_body_def upsert_then_def new_target_stored
        WithTx_def answer_def ok_env_sel)
qed

theorem put_then_get_target_witness:
  "\<exists>db' y d'. serve api_routes (\<lambda>_. True) ref_types ok_env git_put wiki_db = (Reply (id_response (se_newid ref_env)), db')
    \<and> serve api_routes (\<lambda>_. True) ref_types ok_env git_get db' = (Reply y, db') \<and> rs_Status y = 200
    \<and> decode_target (rs_Body y) = Some d' \<and> td_PublicAlias d' = ''git.helix'' \<and> td_Port d' = 80"
proof -
  obtain db' where put: "serve api_routes (\<lambda>_. True) ref_types ok_env git_put wiki_db = (Reply (id_response (se_newid ref_env)), db')"
    using git_served by blast
  have e: "encodes ''git.helix'' ''git.helix''" by (intro enc_lit enc_nil) simp_all
  have nf: "se_fault ref_env = NoFault" by (simp add: ref_env_def)
  have pe: "plain_elem ''git.helix''" by code_simp
  have "\<exists>i y d'. id_response (se_newid ref_env) = id_response i \<and> serve api_routes (\<lambda>_. True) ref_types ok_env git_get db' = (Reply y, db')
    \<and> rs_Status y = 200 \<and> decode_target (rs_Body y) = Some d' \<and> td_ID d' = i \<and> td_PublicAlias d' = ''git.helix''
    \<and> pg_inet ref_types (td_PrivateIP git_dto) = Some (td_PrivateIP d')
    \<and> td_Port d' = (if td_Port git_dto = 0 then 80 else td_Port git_dto)
    \<and> pg_varchar ref_types 10 (if td_Protocol git_dto = [] then ''http'' else td_Protocol git_dto) = Some (td_Protocol d')
    \<and> (\<exists>p. nullif_uuid ref_types (td_VPNProfileID git_dto) = Some p \<and> td_VPNProfileID d' = coalesce p)
    \<and> (\<exists>h. nullif_varchar ref_types 500 (td_HealthCheck git_dto) = Some h \<and> td_HealthCheck d' = coalesce h)
    \<and> td_Enabled d' = td_Enabled git_dto"
    by (rule put_then_get_target [OF ref_utf8.pg_utf8_axioms wiki_db_ok _ _ _ _ git_decoded put])
      (use e nf pe in \<open>simp_all add: ok_env_sel ref_env_ok git_put_def git_get_def git_dto_def ref_varchar visible_def\<close>)
  then show ?thesis using put by (auto simp: git_dto_def)
qed

text \<open>
  C6: no blank names: whatever requests the control API serves, in whatever order and however
  the database and the commits fail, no profile has a blank name, no target a blank alias and
  no user a blank name (white space of Unicode included), and no rule has an empty string as its
  host or path; the schema alone allows all of these. (Of the database: it stores text in a
  column as it is, up to spaces beyond the column's length.)
\<close>

theorem api_names_not_blank:
  assumes "pg_padding t" and "api_reach t wide db0 db" and "named db0"
  shows "named db"
  by (rule pg_padding.api_reach_named [OF assms])

theorem api_names_not_blank_witness:
  "\<exists>db x. serve api_routes (\<lambda>_. True) ref_types ok_env git_put wiki_db = (x, db) \<and> x = Reply (id_response (se_newid ref_env)) \<and> named db"
proof -
  obtain db where put: "serve api_routes (\<lambda>_. True) ref_types ok_env git_put wiki_db = (Reply (id_response (se_newid ref_env)), db)"
    using git_served by blast
  have n: "named wiki_db" by (simp add: named_def wiki_db_def row_eu_def row_wiki_def rule_wiki_def visible_def)
  have "api_reach ref_types (\<lambda>_. True) wiki_db (snd (serve api_routes (\<lambda>_. True) ref_types ok_env git_put wiki_db))"
    by (intro api_reach.intros) (simp_all add: ok_env_sel ref_env_ok)
  from api_names_not_blank [OF ref_padding.pg_padding_axioms this n]
  show ?thesis using put by simp
qed

end
