(* ===== verification/Control_Plane.thy ===== *)
theory Control_Plane
  imports Store_Gate Api_Roundtrip
begin

text \<open>
  The four programs at work together: the control API changing the database request by request,
  compilers reading it and seeding Redis, the publisher polling, and the helper answering from
  Redis. The processes run independently of each other, so a run is any sequence of their steps.
\<close>

subsection \<open>Definitions\<close>

text \<open>
  A compile pass reads the store by several queries outside any transaction, so that each may
  see another state of the database.
\<close>

definition read_queries ::
  "pg_types \<Rightarrow> stmt_env \<times> db \<Rightarrow> stmt_env \<times> db \<Rightarrow> (string \<Rightarrow> stmt_env \<times> db) \<Rightarrow> Queries" where
  "read_queries t p g i =
     \<lparr>q_ListProfiles = listed (ListProfiles t (fst p) (pool (snd p))),
      q_ListTargets = listed (ListTargets t (fst g) (pool (snd g))),
      q_ListTiers = (\<lambda>k. listed (ListTiers t (fst (i k)) k (pool (snd (i k)))))\<rparr>"

text \<open>
  The states the database has been in, the present one first, and the processes around Redis.
  A read of the database is a position in that list, and a later read has no larger one.
\<close>

record 'r plane =
  pl_dbs :: "db list"
  pl_sys :: "'r system"

definition reads_in_order :: "db list \<Rightarrow> nat \<Rightarrow> nat \<Rightarrow> (string \<Rightarrow> nat) \<Rightarrow> bool" where
  "reads_in_order dbs p g i \<longleftrightarrow> p < length dbs \<and> g \<le> p \<and> (\<forall>k. i k \<le> g)"

inductive plane_step ::
  "pg_types \<Rightarrow> (nat \<Rightarrow> bool) \<Rightarrow> 'r redis \<Rightarrow> (string \<Rightarrow> liveSampler) \<Rightarrow> run_config \<Rightarrow> DataPlaneEvaluator
    \<Rightarrow> 'r plane \<Rightarrow> 'r plane \<Rightarrow> bool"
  for t :: pg_types and wide :: "nat \<Rightarrow> bool" and srv :: "'r redis" and smp :: "string \<Rightarrow> liveSampler"
    and c :: run_config and ev :: DataPlaneEvaluator
where
  request: "env_ok t (ae_stmt env) \<Longrightarrow> env_ok t (ae_audit env)
    \<Longrightarrow> serve api_routes wide t env rq (hd (pl_dbs s)) = (rep, db')
    \<Longrightarrow> plane_step t wide srv smp c ev s (s\<lparr>pl_dbs := db' # pl_dbs s\<rparr>)"
| compile: "reads_in_order (pl_dbs s) p g i
    \<Longrightarrow> ce_queries env = read_queries t (env_p, pl_dbs s ! p) (env_g, pl_dbs s ! g) (\<lambda>k. (env_i k, pl_dbs s ! i k))
    \<Longrightarrow> compiler_main wide srv env os args fs (sy_redis (pl_sys s)) = (fin, fs', r')
    \<Longrightarrow> plane_step t wide srv smp c ev s (s\<lparr>pl_sys := (pl_sys s)\<lparr>sy_redis := r'\<rparr>\<rparr>)"
| poll: "tick srv c n (smp n) ev env (sy_prof (pl_sys s) n) (sy_redis (pl_sys s)) = (cur, e, st', r')
    \<Longrightarrow> plane_step t wide srv smp c ev s (s\<lparr>pl_sys := (pl_sys s)\<lparr>sy_redis := r', sy_prof := (sy_prof (pl_sys s))(n := st'),
         sy_log := \<lparr>lg_profile = n, lg_env = env, lg_prev = ps_prev (sy_prof (pl_sys s) n), lg_snap = cur\<rparr> # sy_log (pl_sys s)\<rparr>\<rparr>)"
| restart: "plane_step t wide srv smp c ev s (s\<lparr>pl_sys := (pl_sys s)\<lparr>sy_prof := (sy_prof (pl_sys s))(n := prof_init)\<rparr>\<rparr>)"

inductive plane_reach ::
  "pg_types \<Rightarrow> (nat \<Rightarrow> bool) \<Rightarrow> 'r redis \<Rightarrow> (string \<Rightarrow> liveSampler) \<Rightarrow> run_config \<Rightarrow> DataPlaneEvaluator
    \<Rightarrow> db \<Rightarrow> 'r \<Rightarrow> 'r plane \<Rightarrow> bool"
  for t :: pg_types and wide :: "nat \<Rightarrow> bool" and srv :: "'r redis" and smp :: "string \<Rightarrow> liveSampler"
    and c :: run_config and ev :: DataPlaneEvaluator and db0 :: db and r0 :: 'r
where
  start: "plane_reach t wide srv smp c ev db0 r0 \<lparr>pl_dbs = [db0], pl_sys = sys_init r0\<rparr>"
| step: "plane_reach t wide srv smp c ev db0 r0 s \<Longrightarrow> plane_step t wide srv smp c ev s s'
    \<Longrightarrow> plane_reach t wide srv smp c ev db0 r0 s'"

subsection \<open>Where a compiled route comes from\<close>

text \<open>
  A route is drawn from three states of the database: the target is an enabled row of the first,
  its primary tunnel by the tiers of the second is an enabled and named profile of the third.
\<close>

definition drawn :: "db \<Rightarrow> db \<Rightarrow> db \<Rightarrow> Route \<Rightarrow> bool" where
  "drawn dg di dp x \<longleftrightarrow>
     (\<exists>row \<in> set (db_targets dg). \<exists>p \<in> set (db_profiles dp). tr_enabled row \<and> tr_alias row = rt_Target x
        \<and> primary di row = Some (vr_id p, rt_Tier x) \<and> vr_enabled p \<and> vr_name p = rt_Tunnel x \<and> rt_Tunnel x \<noteq> []
        \<and> rt_BreakerState x = ''closed'')"

definition drawn_from :: "db list \<Rightarrow> Route \<Rightarrow> bool" where
  "drawn_from dbs x \<longleftrightarrow> (\<exists>dg \<in> set dbs. \<exists>di \<in> set dbs. \<exists>dp \<in> set dbs. drawn dg di dp x)"

lemma drawn_from_mono: "drawn_from dbs x \<Longrightarrow> set dbs \<subseteq> set dbs' \<Longrightarrow> drawn_from dbs' x"
  unfolding drawn_from_def by blast

text \<open>Three times the same state: the route is one of the database's.\<close>

lemma drawn_same:
  assumes "db_ok t db"
  shows "drawn db db db x \<longleftrightarrow> (\<exists>row \<in> set (db_targets db). db_route db row = Some x)"
proof -
  have dist: "distinct (map vr_id (db_profiles db))" using assms by (auto simp: db_ok_def profiles_ok_def)
  have find: "find (\<lambda>p. vr_id p = i) (db_profiles db) = Some p \<longleftrightarrow> p \<in> set (db_profiles db) \<and> vr_id p = i" for i p
    using find_key_Some [OF dist, of i p] by auto
  have "db_route db row = Some x \<longleftrightarrow> (\<exists>p \<in> set (db_profiles db). tr_enabled row \<and> tr_alias row = rt_Target x
      \<and> primary db row = Some (vr_id p, rt_Tier x) \<and> vr_enabled p \<and> vr_name p = rt_Tunnel x \<and> rt_Tunnel x \<noteq> []
      \<and> rt_BreakerState x = ''closed'')" for row
    by (cases x) (auto simp: db_route_def bind_eq_Some_conv find split: if_splits)
  then show ?thesis unfolding drawn_def by blast
qed

lemma listed_list_query: "listed (list_query l m f env stmt (pool db)) = Inr xs \<Longrightarrow> \<exists>rows db'. stmt db = Inr (rows, db') \<and> xs = map f rows"
  using list_query_None [of l m f env stmt "pool db" xs]
  by (cases "list_query l m f env stmt (pool db)") (auto simp: listed_def split: prod.splits option.splits)

lemma listed_rows:
  "listed (ListProfiles t env (pool db)) = Inr ps \<Longrightarrow> ps = map scanProfile (sort_key (\<lambda>r. pg_key t (vr_name r)) (db_profiles db))"
  "listed (ListTargets t env (pool db)) = Inr gs \<Longrightarrow> gs = map scanTarget (sort_key (\<lambda>r. pg_key t (tr_alias r)) (db_targets db))"
  "listed (ListTiers t env k (pool db)) = Inr xs \<Longrightarrow> pg_uuid t k = Some k
    \<Longrightarrow> xs = map scanTier (sort_key ti_tier (filter (\<lambda>x. ti_target x = k) (db_tiers db)))"
  by (auto simp: list_methods sqlListProfiles_def sqlListTargets_def sqlListTiers_def conv_def dest!: listed_list_query)

lemma read_queries_route:
  assumes "pg_laws t" and "db_ok t (snd p)" and "db_ok t (snd g)"
    and "CompileAll wide e (read_queries t p g i) = Inr (arts, routes)" and "x \<in> set routes"
  shows "\<exists>k. drawn (snd g) (snd (i k)) (snd p) x"
proof -
  let ?q = "read_queries t p g i"
  obtain ps gs where l: "q_ListProfiles ?q = Inr ps" "q_ListTargets ?q = Inr gs"
    using assms(4) by (auto simp: CompileAll_def split: sum.splits)
  have ps: "ps = map scanProfile (sort_key (\<lambda>r. pg_key t (vr_name r)) (db_profiles (snd p)))"
    and gs: "gs = map scanTarget (sort_key (\<lambda>r. pg_key t (tr_alias r)) (db_targets (snd g)))"
    using l by (simp_all add: read_queries_def listed_rows)
  have ok: "distinct (map vr_name (db_profiles (snd p)))"
    "r \<in> set (db_profiles (snd p)) \<Longrightarrow> vr_id r \<noteq> []" "r' \<in> set (db_targets (snd g)) \<Longrightarrow> pg_uuid t (tr_id r') = Some (tr_id r')" for r r'
    using assms(2,3) pg_laws.uuid_canon [OF assms(1), of "vr_id r" "vr_id r"]
    by (auto simp: db_ok_def profiles_ok_def targets_ok_def list_all_iff)
  from CompileAll_route_sound [OF assms(4) l assms(5)] obtain tgt tiers u w where
    tgt: "tgt \<in> set gs" "th_Enabled tgt" "th_PublicAlias tgt = rt_Target x" "q_ListTiers ?q (th_ID tgt) = Inr tiers"
    and u: "u \<in> set ps" "vp_Name u = rt_Tunnel x" "case tiers of y # _ \<Rightarrow> vp_ID u = tt_VPNProfileID y \<and> rt_Tier x = tt_Tier y
       | [] \<Rightarrow> vp_ID u = th_VPNProfileID tgt \<and> rt_Tier x = 0"
    and w: "w \<in> set ps" "vp_Enabled w" "vp_Name w = rt_Tunnel x"
    and x: "rt_Tunnel x \<noteq> []" "rt_BreakerState x = ''closed''"
    by blast
  from tgt(1) u(1) w(1) obtain row a b where row: "row \<in> set (db_targets (snd g))" "tgt = scanTarget row"
    and a: "a \<in> set (db_profiles (snd p))" "u = scanProfile a" and b: "b \<in> set (db_profiles (snd p))" "w = scanProfile b"
    unfolding ps gs by auto
  note sel = tgt(2-4) u(2,3) w(2,3)
  note sel = sel [unfolded row(2) a(2) b(2) scanTarget_sel scanProfile_sel]
  have "a = b" using a(1) b(1) sel(4,7) ok(1) by (metis distinct_map inj_onD)
  moreover have "tiers = map scanTier (tier_chain (snd (i (tr_id row))) row)"
    using sel(3) listed_rows(3) ok(3) [OF row(1)] by (simp add: read_queries_def tier_chain_def)
  then have "primary (snd (i (tr_id row))) row = Some (vr_id a, rt_Tier x)"
    using sel(5) ok(2) [OF a(1)]
    by (cases "tier_chain (snd (i (tr_id row))) row") (auto simp: primary_def coalesce_def split: option.splits)
  ultimately show ?thesis using row(1) a(1) sel x unfolding drawn_def by blast
qed

subsection \<open>Invariants\<close>

text \<open>Every state of the database was reached by audited requests.\<close>

lemma plane_dbs:
  "plane_reach t wide srv smp c ev db0 r0 s \<Longrightarrow> pl_dbs s \<noteq> [] \<and> (\<forall>db \<in> set (pl_dbs s). api_reach t wide db0 db)"
proof (induction rule: plane_reach.induct)
  case start
  then show ?case by (simp add: api_reach.start)
next
  case (step s s')
  from step.hyps(2) show ?case
  proof (cases rule: plane_step.cases)
    case (request env rq rep db')
    then have "api_reach t wide db0 db'"
      using step.IH api_reach.request [of t wide db0 "hd (pl_dbs s)" env rq] by simp
    then show ?thesis using step.IH request(1) by simp
  qed (use step.IH in simp_all)
qed

text \<open>
  Seen from Redis the control plane is the system of publisher and seeding compiler: requests
  are idle steps, and a compiler that does not come to seeding is one too.
\<close>

lemma plane_sys:
  "plane_reach t wide srv smp c ev db0 r0 s \<Longrightarrow> sys_reach srv smp c ev r0 (pl_sys s)"
proof (induction rule: plane_reach.induct)
  case start
  then show ?case by (simp add: sys_reach.start)
next
  case (step s s')
  from step.hyps(2) show ?case
  proof (cases rule: plane_step.cases)
    case (compile p g i env env_p env_g env_i os args fs fin fs' r')
    from compiler_main_redis [OF compile(4)] show ?thesis
    proof (elim disjE exE conjE)
      assume "r' = sy_redis (pl_sys s)"
      then show ?thesis using step.IH compile(1) by simp
    next
      fix routes n e assume "seed srv (ce_set_at env) routes 0 (sy_redis (pl_sys s)) = (n, e, r')"
      from sys_reach.step [OF step.IH sys_step.compile [OF this]] show ?thesis using compile(1) by simp
    qed
  next
    case (poll n env cur e st' r')
    from sys_reach.step [OF step.IH sys_step.poll [of srv c n smp ev env "pl_sys s" cur e st' r']] poll show ?thesis by simp
  next
    case (restart n)
    from sys_reach.step [OF step.IH sys_step.restart] restart show ?thesis by simp
  qed (use step.IH in simp)
qed

text \<open>Every route in Redis was drawn from states of the database.\<close>

definition route_inv :: "('r \<Rightarrow> string \<Rightarrow> entry option) \<Rightarrow> 'r plane \<Rightarrow> bool" where
  "route_inv view s \<longleftrightarrow> (\<forall>h en. view (sy_redis (pl_sys s)) (RouteKey h) = Some en \<longrightarrow>
     (\<exists>x. en = (marshal_route x, None) \<and> rt_Target x = h \<and> drawn_from (pl_dbs s) x))"

lemma route_inv_seed:
  assumes "redis_server srv view" and "route_inv view s" and "seed srv now routes n (sy_redis (pl_sys s)) = (n', e, r')"
    and "\<And>x. x \<in> set routes \<Longrightarrow> drawn_from (pl_dbs s) x"
  shows "route_inv view (s\<lparr>pl_sys := (pl_sys s)\<lparr>sy_redis := r'\<rparr>\<rparr>)"
proof -
  have "\<exists>x. en = (marshal_route x, None) \<and> rt_Target x = h \<and> drawn_from (pl_dbs s) x"
    if "view r' (RouteKey h) = Some en" for h en
    using seed_view [OF assms(1,3), of "RouteKey h"]
  proof (elim disjE bexE conjE)
    assume "view r' (RouteKey h) = view (sy_redis (pl_sys s)) (RouteKey h)"
    then show ?thesis using that assms(2) unfolding route_inv_def by metis
  next
    fix x assume "x \<in> set routes" "RouteKey h = RouteKey (rt_Target x)" "view r' (RouteKey h) = Some (marshal_route x, None)"
    then show ?thesis using that assms(4) [of x] by (intro exI [of _ x]) simp
  qed
  then show ?thesis by (simp add: route_inv_def)
qed

lemma plane_routes:
  assumes "redis_server srv view" and "pg_laws t" and "db_ok t db0" and "\<And>h. view r0 (RouteKey h) = None"
  shows "plane_reach t wide srv smp c ev db0 r0 s \<Longrightarrow> route_inv view s"
proof (induction rule: plane_reach.induct)
  case start
  then show ?case using assms(4) by (simp add: route_inv_def sys_init_def)
next
  case (step s s')
  from step.hyps(2) show ?case
  proof (cases rule: plane_step.cases)
    case (request env rq rep db')
    then show ?thesis using step.IH drawn_from_mono [of "pl_dbs s" _ "db' # pl_dbs s"] unfolding route_inv_def by fastforce
  next
    case (compile p g i env env_p env_g env_i os args fs fin fs' r')
    have dbs: "pl_dbs s ! p \<in> set (pl_dbs s)" "pl_dbs s ! g \<in> set (pl_dbs s)" "pl_dbs s ! i k \<in> set (pl_dbs s)" for k
      using compile(2) le_less_trans unfolding reads_in_order_def by (meson nth_mem)+
    then have ok: "db_ok t (pl_dbs s ! p)" "db_ok t (pl_dbs s ! g)"
      using plane_dbs [OF step.hyps(1)] api_reach_ok assms(3) by blast+
    from compiler_main_redis [OF compile(4)] show ?thesis
    proof (elim disjE exE conjE)
      assume "r' = sy_redis (pl_sys s)"
      then show ?thesis using step.IH compile(1) by simp
    next
      fix h pac arts routes n e
      assume c: "CompileAll wide (New h pac) (ce_queries env) = Inr (arts, routes)"
        and sd: "seed srv (ce_set_at env) routes 0 (sy_redis (pl_sys s)) = (n, e, r')"
      have "drawn_from (pl_dbs s) x" if "x \<in> set routes" for x
        using read_queries_route [OF assms(2) _ _ c [unfolded compile(3)] that] ok dbs by (auto simp: drawn_from_def)
      from route_inv_seed [OF assms(1) step.IH sd this] show ?thesis using compile(1) by simp
    qed
  next
    case (poll n env cur e st' r')
    have "view r' (RouteKey h) = view (sy_redis (pl_sys s)) (RouteKey h)" for h
      using tick_view [OF assms(1) poll(2)] by auto
    then show ?thesis using step.IH poll(1) by (simp add: route_inv_def)
  qed (use step.IH in \<open>simp add: route_inv_def\<close>)
qed

subsection \<open>From an allowed request back to the database\<close>

lemma allowed_route:
  assumes "redis_server srv view" and "pg_laws t" and "db_ok t db0" and "\<And>h. view r0 (RouteKey h) = None"
    and "plane_reach t wide srv smp c ev db0 r0 s" and "Decide (redis_bus srv cl (sy_redis (pl_sys s)) t1 r t2) host = (True, tag)"
    and "\<And>x. drawn_from (pl_dbs s) x \<Longrightarrow> route_ok x"
  shows "\<exists>x. drawn_from (pl_dbs s) x \<and> rt_Target x = host \<and> rt_Tunnel x = tag"
proof -
  from Decide_redis [OF assms(1,6)] obtain rb route where
    lv: "live (view (sy_redis (pl_sys s)) (RouteKey host)) t1 = Some rb" and um: "unmarshal_route rb = Some route" "rt_Tunnel route = tag"
    by blast
  from lv obtain en where en: "view (sy_redis (pl_sys s)) (RouteKey host) = Some en" by (auto simp: live_def split: option.splits)
  from plane_routes [OF assms(1-5)] en obtain x where x: "en = (marshal_route x, None)" "rt_Target x = host" "drawn_from (pl_dbs s) x"
    unfolding route_inv_def by blast
  have "route = x" using lv en x(1) um(1) unmarshal_marshal_route [OF assms(7) [OF x(3)]] by (simp add: live_def)
  then show ?thesis using x um(2) by blast
qed

subsection \<open>A concrete run\<close>

text \<open>The compiler over the database of \<open>wiki_db\<close>, then a poll.\<close>

lemma read_queries_same: "read_queries t (env_p, db) (env_g, db) (\<lambda>k. (env_i k, db)) = store_queries t env_p env_g env_i db"
  by (simp add: read_queries_def store_queries_def)

lemma ex_poll_step:
  "plane_step t wide mem_redis ex_sampler ex_cfg \<lparr>Freshness = 180 * Second\<rparr>
    \<lparr>pl_dbs = dbs, pl_sys = (sys_init mem_empty)\<lparr>sy_redis := ex_seeded\<rparr>\<rparr> \<lparr>pl_dbs = dbs, pl_sys = ex_sys\<rparr>"
proof -
  let ?s = "\<lparr>pl_dbs = dbs, pl_sys = (sys_init mem_empty)\<lparr>sy_redis := ex_seeded\<rparr>\<rparr>"
  have "plane_step t wide mem_redis ex_sampler ex_cfg ex_eval ?s \<lparr>pl_dbs = dbs, pl_sys = ex_sys\<rparr>"
    using plane_step.poll [of mem_redis ex_cfg "''eu''" ex_sampler ex_eval ex_env ?s, simplified sys_init_def, simplified, OF ex_tick_eq]
    by (simp add: sys_init_def ex_sys_def prof_init_def)
  then show ?thesis by (simp add: ex_eval_def)
qed

lemma ex_plane:
  "plane_reach ref_types wide mem_redis ex_sampler ex_cfg \<lparr>Freshness = 180 * Second\<rparr> wiki_db mem_empty \<lparr>pl_dbs = [wiki_db], pl_sys = ex_sys\<rparr>"
proof -
  let ?R = "plane_reach ref_types wide mem_redis ex_sampler ex_cfg \<lparr>Freshness = 180 * Second\<rparr> wiki_db mem_empty"
  let ?s0 = "\<lparr>pl_dbs = [wiki_db], pl_sys = sys_init mem_empty\<rparr>"
  let ?s1 = "?s0\<lparr>pl_sys := (pl_sys ?s0)\<lparr>sy_redis := ex_seeded\<rparr>\<rparr>"
  obtain fin fs' where run: "compiler_main wide mem_redis gate_env (\<lambda>_. []) (map setting wiki_args) Map.empty mem_empty = (fin, fs', ex_seeded)"
    using gate_run by blast
  have "plane_step ref_types wide mem_redis ex_sampler ex_cfg \<lparr>Freshness = 180 * Second\<rparr> ?s0 ?s1"
  proof (rule plane_step.compile)
    show "reads_in_order (pl_dbs ?s0) 0 0 (\<lambda>_. 0)" by (simp add: reads_in_order_def)
    show "ce_queries gate_env = read_queries ref_types (ref_env, pl_dbs ?s0 ! 0) (ref_env, pl_dbs ?s0 ! 0) (\<lambda>k. (ref_env, pl_dbs ?s0 ! 0))"
      by (simp add: gate_env_def read_queries_same)
    show "compiler_main wide mem_redis gate_env (\<lambda>_. []) (map setting wiki_args) Map.empty (sy_redis (pl_sys ?s0)) = (fin, fs', ex_seeded)"
      using run by (simp add: sys_init_def)
  qed
  with plane_reach.start have "?R ?s1" by (rule plane_reach.step)
  moreover have "plane_step ref_types wide mem_redis ex_sampler ex_cfg \<lparr>Freshness = 180 * Second\<rparr> ?s1 \<lparr>pl_dbs = [wiki_db], pl_sys = ex_sys\<rparr>"
    using ex_poll_step by simp
  ultimately show ?thesis by (rule plane_reach.step)
qed

end
