(* ===== verification/Compile_Race.thy ===== *)
theory Compile_Race
  imports Control_Plane
begin

text \<open>
  A compile pass while the database is being edited. The pass lists profiles, targets and the
  tiers of each target in separate statements; here both profiles are deleted between the second
  and the third.
\<close>

subsection \<open>The run\<close>

text \<open>A target with the profile \<open>eu\<close> of its own and the profile \<open>us\<close> as its first tier.\<close>

definition pid2 :: string where "pid2 = ''6f1c2f60-0000-4000-8000-000000000005''"

definition row_us :: profile_row where "row_us = row_eu\<lparr>vr_id := pid2, vr_name := ''us''\<rparr>"

definition race_db :: db where
  "race_db = \<lparr>db_profiles = [row_eu, row_us], db_targets = [row_wiki],
     db_tiers = [\<lparr>ti_target = tid1, ti_profile = pid2, ti_tier = 0, ti_created = 40\<rparr>],
     db_rules = [], db_users = [], db_audit = []\<rparr>"

definition race_delete :: "string \<Rightarrow> http_request" where
  "race_delete i = \<lparr>hr_Method = ''DELETE'', hr_Path = ''/api/profiles/'' @ i, hr_PeerCNs = Some [''admin''], hr_Body = []\<rparr>"

definition race_env :: "int \<Rightarrow> req_env" where
  "race_env n = ok_env\<lparr>ae_audit := ref_env\<lparr>se_seq := n\<rparr>\<rparr>"

lemma pid2_simps: "ref_uuid pid2 = Some pid2" "pid1 \<noteq> pid2" "pid2 \<noteq> pid1"
  by (simp_all add: ref_uuid_def pid2_def pid1_def is_digit_def)

lemma race_found:
  "findHandler api_routes ''DELETE'' (''/api/profiles/'' @ pid1) = Found EpDeleteProfile [pid1]"
  "findHandler api_routes ''DELETE'' (''/api/profiles/'' @ pid2) = Found EpDeleteProfile [pid2]"
  by (simp_all add: findHandler_def cleanPath_def path_segs_def api_routes_def pid1_def pid2_def)

lemma race_detail:
  assumes "valid_utf8 i"
  shows "pg_jsonb ref_types (print_object [(''id'', print_string i)]) = Some (print_object [(''id'', print_string i)])"
proof -
  let ?v = "JObj [(''id'', JStr i)]"
  have p: "print_object [(''id'', print_string i)] = print_json ?v" by (simp add: print_object_def)
  have wf: "wf_json ?v" using assms by (simp add: visible_utf8 visible_def)
  show ?thesis unfolding p
    by (simp add: ref_types_def ref_jsonb_def parse_print [OF wf] wf del: print_json.simps wf_json.simps)
qed

text \<open>What a DELETE of a profile does to the tables, its audit row fresh.\<close>

lemma race_served:
  assumes "i \<in> {pid1, pid2}" and "n \<notin> ar_id ` set (db_audit db)" and "i \<in> vr_id ` set (db_profiles db)"
  shows "\<exists>row. serve api_routes wide ref_types (race_env n) (race_delete i) db = (Reply noContent,
    db\<lparr>db_profiles := filter (\<lambda>r. vr_id r \<noteq> i) (db_profiles db),
       db_targets := map (\<lambda>r. if tr_profile r = Some i then r\<lparr>tr_profile := None, tr_updated := 100\<rparr> else r) (db_targets db),
       db_tiers := filter (\<lambda>r. ti_profile r \<noteq> i) (db_tiers db), db_audit := db_audit db @ [row]\<rparr>) \<and> ar_id row = n"
proof -
  have id: "ref_uuid i = Some i" "valid_utf8 i" using assms(1) pid2_simps ref_uuids
    by (auto simp: visible_utf8 visible_def pid1_def pid2_def)
  let ?db1 = "db\<lparr>db_profiles := filter (\<lambda>r. vr_id r \<noteq> i) (db_profiles db),
       db_targets := map (\<lambda>r. if tr_profile r = Some i then r\<lparr>tr_profile := None, tr_updated := 100\<rparr> else r) (db_targets db),
       db_tiers := filter (\<lambda>r. ti_profile r \<noteq> i) (db_tiers db)\<rparr>"
  have d: "DeleteProfile ref_types ref_env i \<lparr>ss_db = db, ss_tx = True, ss_aborted = False\<rparr>
      = (Inr (), \<lparr>ss_db = ?db1, ss_tx = True, ss_aborted = False\<rparr>)"
    using id(1) assms(3)
    by (simp add: DeleteProfile_def run_stmt_def ref_env_def sqlDeleteProfile_def conv_def ref_types_def wrap_result_def)
  have vc: "pg_varchar ref_types 255 ''admin'' = Some ''admin''" "pg_varchar ref_types 100 ''profile.delete'' = Some ''profile.delete''"
    by (simp_all add: ref_varchar visible_def)
  have ne: "print_object xs \<noteq> []" for xs by (simp add: print_object_def)
  obtain row where a: "AppendAudit ref_types (ref_env\<lparr>se_seq := n\<rparr>) (auditEntry (race_delete i) ''profile.delete'' (marshal_strings [(''id'', i)]))
      \<lparr>ss_db = ?db1, ss_tx = True, ss_aborted = False\<rparr>
    = (Inr (), \<lparr>ss_db = ?db1\<lparr>db_audit := db_audit db @ [row]\<rparr>, ss_tx = True, ss_aborted = False\<rparr>)" "ar_id row = n"
    using race_detail [OF id(2)] vc assms(2)
    by (simp add: AppendAudit_def run_stmt_def sqlAppendAudit_def conv_def require_def auditEntry_def marshal_strings_def
        actorFromRequest_def race_delete_def ref_env_def wrap_result_def ne)
  have found: "findHandler api_routes (hr_Method (race_delete i)) (hr_Path (race_delete i)) = Found EpDeleteProfile [i]"
    using assms(1) race_found by (auto simp: race_delete_def)
  have env: "ae_stmt (race_env n) = ref_env" "ae_audit (race_env n) = ref_env\<lparr>se_seq := n\<rparr>"
    "ae_tx (race_env n) = \<lparr>te_begin = None, te_commit = Committed, te_aborted = Msg []\<rparr>"
    by (simp_all add: race_env_def ok_env_def)
  show ?thesis
    using a
    by (intro exI [of _ row]) (simp add: serve_def found handle_def deleteProfile_def mutateWithAudit_def audit_body_def do_then_def WithTx_def answer_def env d)
qed

lemma race_db_ok: "db_ok ref_types race_db"
  using pid2_simps ref_uuids
  by (simp add: db_ok_def schema_defs race_db_def row_eu_def row_us_def row_wiki_def ref_types_def ids_defs
      profile_types_def VPNTypeWireGuard_def protocols_def references_def)

text \<open>The states the two requests lead to.\<close>

lemma race_requests:
  "\<exists>db1 db2 rep1 rep2. serve api_routes wide ref_types (race_env 1) (race_delete pid1) race_db = (rep1, db1)
    \<and> serve api_routes wide ref_types (race_env 2) (race_delete pid2) db1 = (rep2, db2)
    \<and> db_profiles db1 = [row_us] \<and> db_tiers db1 = db_tiers race_db
    \<and> db_targets db1 = [row_wiki\<lparr>tr_profile := None, tr_updated := 100\<rparr>]
    \<and> db_profiles db2 = [] \<and> db_tiers db2 = [] \<and> db_targets db2 = db_targets db1"
proof -
  have "pid1 \<in> vr_id ` set (db_profiles race_db)" "1 \<notin> ar_id ` set (db_audit race_db)"
    by (simp_all add: race_db_def row_eu_def)
  from race_served [OF _ this(2,1), of wide] obtain row where 1: "ar_id row = 1"
    "serve api_routes wide ref_types (race_env 1) (race_delete pid1) race_db = (Reply noContent,
      race_db\<lparr>db_profiles := [row_us], db_targets := [row_wiki\<lparr>tr_profile := None, tr_updated := 100\<rparr>], db_audit := [row]\<rparr>)"
    using pid2_simps by (auto simp: race_db_def row_eu_def row_us_def row_wiki_def)
  let ?db1 = "race_db\<lparr>db_profiles := [row_us], db_targets := [row_wiki\<lparr>tr_profile := None, tr_updated := 100\<rparr>], db_audit := [row]\<rparr>"
  have "pid2 \<in> vr_id ` set (db_profiles ?db1)" "2 \<notin> ar_id ` set (db_audit ?db1)"
    using 1(1) by (simp_all add: row_us_def)
  from race_served [OF _ this(2,1), of wide] obtain row2 where
    "serve api_routes wide ref_types (race_env 2) (race_delete pid2) ?db1 = (Reply noContent,
      ?db1\<lparr>db_profiles := [], db_tiers := [], db_audit := [row, row2]\<rparr>)"
    by (auto simp: race_db_def row_us_def row_wiki_def)
  with 1(2) show ?thesis by (intro exI conjI) (assumption, assumption, simp_all)
qed

text \<open>The pass resolves the target's own profile, as if there had never been a tier.\<close>

lemma race_compile:
  assumes "db_tiers db = []"
  shows "\<exists>arts. CompileAll wide e (read_queries ref_types (ref_env, race_db) (ref_env, race_db) (\<lambda>_. (ref_env, db))) = Inr (arts, [ex_route])"
proof -
  have nf: "se_fault ref_env = NoFault" by (simp add: ref_env_def)
  let ?q = "read_queries ref_types (ref_env, race_db) (ref_env, race_db) (\<lambda>_. (ref_env, db))"
  let ?ps = "sort_key (\<lambda>r. pg_key ref_types (vr_name r)) [row_eu, row_us]"
  have q: "q_ListProfiles ?q = Inr (map scanProfile ?ps)" "q_ListTargets ?q = Inr [scanTarget row_wiki]"
    "q_ListTiers ?q (tr_id row_wiki) = Inr []"
    using store_reads [OF nf] assms ref_uuids by (simp_all add: read_queries_def race_db_def row_wiki_def ref_types_def)
  have dist: "distinct (map vr_id ?ps)" "distinct (map vr_name ?ps)"
    using pid2_simps by (simp_all add: distinct_map row_us_def row_eu_def)
  have "row_eu \<in> set ?ps" by simp
  from peers_table [OF dist(2) this] have peer: "fill_map tn_Profile (\<lambda>t. t) (ResolveTunnels (map scanProfile ?ps)) ''eu'' = Some (tunnel_of (scanProfile row_eu))"
    by (simp add: row_eu_def)
  have "find (\<lambda>p. vr_id p = pid1) ?ps = Some row_eu" by (rule find_key_Some [OF dist(1), THEN iffD2]) (simp add: row_eu_def)
  then have name: "fill_map vp_ID vp_Name (map scanProfile ?ps) pid1 = Some ''eu''"
    unfolding names_table [OF dist(1)] by (simp add: row_eu_def)
  have "tr_enabled row_wiki" "pid1 \<noteq> []" by (simp_all add: row_wiki_def pid1_def)
  then show ?thesis
    using q peer name
    by (simp add: CompileAll_def primaryTunnel_def row_wiki_def coalesce_def ex_route_def del: set_sort)
qed

text \<open>The whole run: two requests, the pass that overlaps them, and a poll of \<open>eu\<close>.\<close>

lemma race_run:
  "\<exists>db1 db2. plane_reach ref_types (\<lambda>_. True) mem_redis ex_sampler ex_cfg \<lparr>Freshness = 180 * Second\<rparr> race_db mem_empty
      \<lparr>pl_dbs = [db2, db1, race_db], pl_sys = ex_sys\<rparr>
    \<and> db_profiles db1 = [row_us] \<and> db_tiers db1 = db_tiers race_db
    \<and> db_targets db1 = [row_wiki\<lparr>tr_profile := None, tr_updated := 100\<rparr>] \<and> db_profiles db2 = [] \<and> db_tiers db2 = []"
proof -
  let ?step = "plane_step ref_types (\<lambda>_. True) mem_redis ex_sampler ex_cfg \<lparr>Freshness = 180 * Second\<rparr>"
  let ?R = "plane_reach ref_types (\<lambda>_. True) mem_redis ex_sampler ex_cfg \<lparr>Freshness = 180 * Second\<rparr> race_db mem_empty"
  obtain db1 db2 rep1 rep2 where
    q1: "serve api_routes (\<lambda>_. True) ref_types (race_env 1) (race_delete pid1) race_db = (rep1, db1)"
    and q2: "serve api_routes (\<lambda>_. True) ref_types (race_env 2) (race_delete pid2) db1 = (rep2, db2)"
    and d1: "db_profiles db1 = [row_us]" "db_tiers db1 = db_tiers race_db" "db_targets db1 = [row_wiki\<lparr>tr_profile := None, tr_updated := 100\<rparr>]"
    and d2: "db_profiles db2 = []" "db_tiers db2 = []"
    using race_requests [of "\<lambda>_. True"] by blast
  let ?dbs = "[db2, db1, race_db]"
  let ?q = "read_queries ref_types (ref_env, race_db) (ref_env, race_db) (\<lambda>_. (ref_env, db2))"
  have env: "env_ok ref_types (ae_stmt (race_env n))" "env_ok ref_types (ae_audit (race_env n))" for n
    using ref_env_ok by (simp_all add: race_env_def ok_env_def env_ok_def)
  have "?R \<lparr>pl_dbs = [race_db], pl_sys = sys_init mem_empty\<rparr>" by (rule plane_reach.start)
  moreover have "?step \<lparr>pl_dbs = [race_db], pl_sys = sys_init mem_empty\<rparr> \<lparr>pl_dbs = [db1, race_db], pl_sys = sys_init mem_empty\<rparr>"
    using plane_step.request [OF env, of "\<lambda>_. True" 1 "race_delete pid1" "\<lparr>pl_dbs = [race_db], pl_sys = sys_init mem_empty\<rparr>"] q1 by simp
  moreover have "?step \<lparr>pl_dbs = [db1, race_db], pl_sys = sys_init mem_empty\<rparr> \<lparr>pl_dbs = ?dbs, pl_sys = sys_init mem_empty\<rparr>"
    using plane_step.request [OF env, of "\<lambda>_. True" 2 "race_delete pid2" "\<lparr>pl_dbs = [db1, race_db], pl_sys = sys_init mem_empty\<rparr>"] q2 by simp
  moreover have "?step \<lparr>pl_dbs = ?dbs, pl_sys = sys_init mem_empty\<rparr> \<lparr>pl_dbs = ?dbs, pl_sys = (sys_init mem_empty)\<lparr>sy_redis := ex_seeded\<rparr>\<rparr>"
  proof -
    obtain fin fs' where run: "compiler_main (\<lambda>_. True) mem_redis (gate_env\<lparr>ce_queries := ?q\<rparr>) (\<lambda>_. []) (map setting wiki_args) Map.empty mem_empty
        = (fin, fs', ex_seeded)"
      using gate_run_queries [OF race_compile [OF d2(2)]] by blast
    have "reads_in_order ?dbs 2 2 (\<lambda>_. 0)" by (simp add: reads_in_order_def)
    from plane_step.compile [of "\<lparr>pl_dbs = ?dbs, pl_sys = sys_init mem_empty\<rparr>" 2 2 "\<lambda>_. 0" "gate_env\<lparr>ce_queries := ?q\<rparr>" ref_types
        ref_env ref_env "\<lambda>_. ref_env" "\<lambda>_. True" mem_redis "\<lambda>_. []" "map setting wiki_args" Map.empty fin fs' ex_seeded] this run
    show ?thesis by (simp add: sys_init_def numeral_2_eq_2)
  qed
  moreover have "?step \<lparr>pl_dbs = ?dbs, pl_sys = (sys_init mem_empty)\<lparr>sy_redis := ex_seeded\<rparr>\<rparr> \<lparr>pl_dbs = ?dbs, pl_sys = ex_sys\<rparr>"
    by (rule ex_poll_step)
  ultimately have "?R \<lparr>pl_dbs = ?dbs, pl_sys = ex_sys\<rparr>" using plane_reach.step by metis
  then show ?thesis using d1 d2 by blast
qed

subsection \<open>Properties\<close>

text \<open>
  C24: a compile pass is not a snapshot. There is a run of the control plane, from a database
  where the target \<open>wiki.helix\<close> is routed into \<open>us\<close>, through the deletion of both profiles and one
  compile pass that overlaps it, after which the helper sends requests for \<open>wiki.helix\<close> into the
  tunnel \<open>eu\<close>: no profile is left in the database, and no state it was ever in routes that host
  there.
\<close>

theorem compile_not_a_snapshot:
  "\<exists>s. plane_reach ref_types (\<lambda>_. True) mem_redis ex_sampler ex_cfg \<lparr>Freshness = 180 * Second\<rparr> race_db mem_empty s
    \<and> Decide (redis_bus mem_redis ex_client (sy_redis (pl_sys s)) (ex_t0 + 2 * Second) (sy_redis (pl_sys s)) (ex_t0 + 2 * Second))
        ''wiki.helix'' = (True, ''eu'')
    \<and> db_profiles (hd (pl_dbs s)) = []
    \<and> \<not> (\<exists>db \<in> set (pl_dbs s). \<exists>row \<in> set (db_targets db). \<exists>x. db_route db row = Some x
          \<and> rt_Target x = ''wiki.helix'' \<and> rt_Tunnel x = ''eu'')"
proof -
  obtain db1 db2 where run: "plane_reach ref_types (\<lambda>_. True) mem_redis ex_sampler ex_cfg \<lparr>Freshness = 180 * Second\<rparr> race_db mem_empty
      \<lparr>pl_dbs = [db2, db1, race_db], pl_sys = ex_sys\<rparr>"
    and d1: "db_profiles db1 = [row_us]" "db_tiers db1 = db_tiers race_db" "db_targets db1 = [row_wiki\<lparr>tr_profile := None, tr_updated := 100\<rparr>]"
    and d2: "db_profiles db2 = []" "db_tiers db2 = []"
    using race_run by blast
  let ?dbs = "[db2, db1, race_db]"
  have "Decide (redis_bus mem_redis ex_client (sy_redis ex_sys) (ex_t0 + 2 * Second) (sy_redis ex_sys) (ex_t0 + 2 * Second))
        ''wiki.helix'' = (True, ''eu'')"
    using ex_allowed by (simp add: ex_sys_def)
  moreover have "\<not> (\<exists>db \<in> set ?dbs. \<exists>row \<in> set (db_targets db). \<exists>x. db_route db row = Some x \<and> rt_Tunnel x = ''eu'')"
    using d1 d2 pid2_simps
    by (auto simp: race_db_def db_route_def primary_def tier_chain_def row_wiki_def row_eu_def row_us_def bind_eq_Some_conv
        split: if_splits list.splits option.splits)
  ultimately show ?thesis using run d2(1) by (intro exI [of _ "\<lparr>pl_dbs = ?dbs, pl_sys = ex_sys\<rparr>"]) auto
qed

end
