(* ===== verification/Breaker.thy ===== *)
theory Breaker
  imports Go_Strings Go_Time
begin

text \<open>
  \<open>control-plane/internal/breaker\<close>: the tier-failover choice of \<open>selection.go\<close> and the
  per-tunnel circuit breakers of \<open>tunnelbreaker.go\<close>. The package \<open>sony/gobreaker/v2\<close> is
  the parameter \<open>gb\<close>; what the code relies on is the locale \<open>gobreaker\<close>.
\<close>

subsection \<open>Definitions\<close>

subsubsection \<open>selection.go\<close>

record Tier =
  tier_Tunnel :: string
  tier_Tier :: int

text \<open>The loop of \<open>SelectTunnel\<close> over its variables \<open>found\<close>, \<open>bestTier\<close> and \<open>chosen\<close>.\<close>

fun select_loop ::
  "(string \<Rightarrow> bool \<times> bool) \<Rightarrow> Tier list \<Rightarrow> bool \<times> int \<times> string \<Rightarrow> bool \<times> int \<times> string" where
  "select_loop state [] acc = acc"
| "select_loop state (t # ts) (found, bestTier, chosen) =
     (let (breakerClosed, healthUp) = state (tier_Tunnel t) in
      if \<not> breakerClosed \<or> \<not> healthUp then select_loop state ts (found, bestTier, chosen)
      else if \<not> found \<or> tier_Tier t < bestTier
        then select_loop state ts (True, tier_Tier t, tier_Tunnel t)
      else select_loop state ts (found, bestTier, chosen))"

text \<open>\<open>None\<close> is the nil closure.\<close>

definition SelectTunnel :: "Tier list \<Rightarrow> (string \<Rightarrow> bool \<times> bool) option \<Rightarrow> string" where
  "SelectTunnel tiers state =
     (case state of
        None \<Rightarrow> []
      | Some st \<Rightarrow>
          if tiers = [] then []
          else (case select_loop st tiers (False, 0, []) of
                  (found, _, chosen) \<Rightarrow> if \<not> found then [] else chosen))"

subsubsection \<open>tunnelbreaker.go\<close>

type_synonym uint32 = "32 word"

definition DefaultFailThreshold :: uint32 where "DefaultFailThreshold = 3"
definition DefaultCooldown :: Duration where "DefaultCooldown = 30 * Second"

record Options =
  FailThreshold :: uint32
  Cooldown :: Duration

definition failThreshold :: "Options \<Rightarrow> uint32" where
  "failThreshold o' = (if FailThreshold o' = 0 then DefaultFailThreshold else FailThreshold o')"

definition cooldown :: "Options \<Rightarrow> Duration" where
  "cooldown o' = (if Cooldown o' \<le> 0 then DefaultCooldown else Cooldown o')"

text \<open>
  The interface of gobreaker: the settings the code fills in, and the operations it calls.
  \<open>Execute\<close> is given the outcome of the function it would run; \<open>State\<close> also returns the
  breaker, which may have left the open state because its timeout has passed.
\<close>

record Settings =
  st_Name :: string
  st_MaxRequests :: uint32
  st_Timeout :: Duration
  st_ReadyToTrip :: "uint32 \<Rightarrow> bool"  \<comment> \<open>of the count of consecutive failures\<close>

datatype gb_state = StateClosed | StateHalfOpen | StateOpen

record 'cb gobreaker_api =
  gb_New :: "Settings \<Rightarrow> 'cb"
  gb_Execute :: "'cb \<Rightarrow> time \<Rightarrow> bool \<Rightarrow> 'cb"
  gb_State :: "'cb \<Rightarrow> time \<Rightarrow> gb_state \<times> 'cb"

definition breaker_settings :: "string \<Rightarrow> Options \<Rightarrow> Settings" where
  "breaker_settings tunnel opts =
     (let thr = failThreshold opts in
      \<lparr>st_Name = tunnel, st_MaxRequests = 1, st_Timeout = cooldown opts,
       st_ReadyToTrip = (\<lambda>failures. thr \<le> failures)\<rparr>)"

definition NewBreaker :: "'cb gobreaker_api \<Rightarrow> string \<Rightarrow> Options \<Rightarrow> 'cb" where
  "NewBreaker gb tunnel opts = gb_New gb (breaker_settings tunnel opts)"

definition Breaker_Record :: "'cb gobreaker_api \<Rightarrow> 'cb \<Rightarrow> time \<Rightarrow> bool \<Rightarrow> 'cb" where
  "Breaker_Record gb b now success = gb_Execute gb b now success"

definition Breaker_Closed :: "'cb gobreaker_api \<Rightarrow> 'cb \<Rightarrow> time \<Rightarrow> bool \<times> 'cb" where
  "Breaker_Closed gb b now = (case gb_State gb b now of (s, b') \<Rightarrow> (s = StateClosed, b'))"

definition Breaker_State :: "'cb gobreaker_api \<Rightarrow> 'cb \<Rightarrow> time \<Rightarrow> string \<times> 'cb" where
  "Breaker_State gb b now =
     (case gb_State gb b now of
        (s, b') \<Rightarrow> (case s of StateClosed \<Rightarrow> ''closed'' | StateHalfOpen \<Rightarrow> ''half-open'' | StateOpen \<Rightarrow> ''open'', b'))"

record 'cb Registry =
  rg_opts :: Options
  rg_breakers :: "string \<Rightarrow> 'cb option"

definition NewRegistry :: "Options \<Rightarrow> 'cb Registry" where
  "NewRegistry opts = \<lparr>rg_opts = opts, rg_breakers = Map.empty\<rparr>"

text \<open>\<open>get\<close>: the breaker of a tunnel, made on first sight.\<close>

definition Registry_get :: "'cb gobreaker_api \<Rightarrow> 'cb Registry \<Rightarrow> string \<Rightarrow> 'cb \<times> 'cb Registry" where
  "Registry_get gb r tunnel =
     (case rg_breakers r tunnel of
        Some b \<Rightarrow> (b, r)
      | None \<Rightarrow>
          let b = NewBreaker gb tunnel (rg_opts r)
          in (b, r\<lparr>rg_breakers := (rg_breakers r)(tunnel \<mapsto> b)\<rparr>))"

definition Registry_Record :: "'cb gobreaker_api \<Rightarrow> 'cb Registry \<Rightarrow> string \<Rightarrow> time \<Rightarrow> bool \<Rightarrow> 'cb Registry" where
  "Registry_Record gb r tunnel now success =
     (case Registry_get gb r tunnel of
        (b, r') \<Rightarrow> r'\<lparr>rg_breakers := (rg_breakers r')(tunnel \<mapsto> Breaker_Record gb b now success)\<rparr>)"

definition Registry_Closed :: "'cb gobreaker_api \<Rightarrow> 'cb Registry \<Rightarrow> string \<Rightarrow> time \<Rightarrow> bool \<times> 'cb Registry" where
  "Registry_Closed gb r tunnel now =
     (case Registry_get gb r tunnel of
        (b, r') \<Rightarrow>
          (case Breaker_Closed gb b now of
             (c, b') \<Rightarrow> (c, r'\<lparr>rg_breakers := (rg_breakers r')(tunnel \<mapsto> b')\<rparr>)))"

subsection \<open>The tier choice\<close>

definition eligible :: "(string \<Rightarrow> bool \<times> bool) \<Rightarrow> Tier \<Rightarrow> bool" where
  "eligible state t \<longleftrightarrow> state (tier_Tunnel t) = (True, True)"

text \<open>The reference: the first eligible entry of least tier.\<close>

definition best_tier :: "(string \<Rightarrow> bool \<times> bool) \<Rightarrow> Tier list \<Rightarrow> Tier option" where
  "best_tier state tiers =
     (let es = filter (eligible state) tiers in if es = [] then None else Some (arg_min_list tier_Tier es))"

lemma select_loop_filter:
  "select_loop state ts acc = select_loop (\<lambda>_. (True, True)) (filter (eligible state) ts) acc"
  by (induction state ts acc rule: select_loop.induct)
    (auto simp: eligible_def Let_def split: prod.splits)

lemma arg_min_list_le: "x \<in> set xs \<Longrightarrow> (f (arg_min_list f xs) :: int) \<le> f x"
  using f_arg_min_list_f [of xs f] by (cases "xs = []") auto

lemma arg_min_list_Cons:
  "ts \<noteq> [] \<Longrightarrow> arg_min_list f (t # ts) =
     (if f t \<le> (f (arg_min_list f ts) :: int) then t else arg_min_list f ts)"
  by (cases ts) (auto simp: Let_def)

lemma select_loop_all:
  "select_loop (\<lambda>_. (True, True)) ts (True, tier_Tier t, tier_Tunnel t) =
     (True, tier_Tier (arg_min_list tier_Tier (t # ts)), tier_Tunnel (arg_min_list tier_Tier (t # ts)))"
proof (induction ts arbitrary: t)
  case Nil
  then show ?case by simp
next
  case (Cons u ts)
  have "tier_Tier (arg_min_list tier_Tier (u # ts)) \<le> tier_Tier u" by (rule arg_min_list_le) simp
  then show ?case
    using Cons.IH [of u] Cons.IH [of t]
    by (cases "ts = []") (auto simp: arg_min_list_Cons simp del: arg_min_list.simps(2))
qed

lemma SelectTunnel_best:
  "SelectTunnel tiers (Some st) = (case best_tier st tiers of None \<Rightarrow> [] | Some t \<Rightarrow> tier_Tunnel t)"
proof (cases "filter (eligible st) tiers")
  case Nil
  then show ?thesis
    by (auto simp: SelectTunnel_def best_tier_def select_loop_filter [of st])
next
  case (Cons t ts)
  then have "tiers \<noteq> []" by auto
  have "select_loop st tiers (False, 0, []) = select_loop (\<lambda>_. (True, True)) ts (True, tier_Tier t, tier_Tunnel t)"
    by (simp add: select_loop_filter [of st] Cons)
  then show ?thesis
    using \<open>tiers \<noteq> []\<close> Cons by (simp add: SelectTunnel_def best_tier_def select_loop_all)
qed

lemma arg_min_list_first:
  "xs \<noteq> [] \<Longrightarrow> \<exists>pre post. xs = pre @ arg_min_list f xs # post
     \<and> (\<forall>x \<in> set pre. (f (arg_min_list f xs) :: int) < f x) \<and> (\<forall>x \<in> set post. f (arg_min_list f xs) \<le> f x)"
proof (induction xs)
  case (Cons t ts)
  show ?case
  proof (cases "ts = []")
    case False
    let ?m = "arg_min_list f ts"
    from Cons.IH [OF False] obtain pre post where s: "ts = pre @ ?m # post"
      "\<forall>x \<in> set pre. f ?m < f x" "\<forall>x \<in> set post. f ?m \<le> f x" by blast
    show ?thesis
    proof (cases "f t \<le> f ?m")
      case True
      have "\<forall>x \<in> set ts. f t \<le> f x" using True arg_min_list_le [of _ ts f] by fastforce
      then show ?thesis
        using True by (intro exI [of _ "[]"] exI [of _ ts]) (simp add: arg_min_list_Cons [OF False])
    next
      case nle: False
      show ?thesis
        by (rule exI [of _ "t # pre"], rule exI [of _ post])
          (use nle s in \<open>auto simp: arg_min_list_Cons [OF False]\<close>)
    qed
  qed (auto intro: exI [of _ "[]"])
qed simp

lemma filter_eq_append:
  "filter P xs = p @ q \<Longrightarrow> \<exists>us vs. xs = us @ vs \<and> filter P us = p \<and> filter P vs = q"
proof (induction xs arbitrary: p)
  case (Cons x xs)
  show ?case
  proof (cases "P x \<and> p \<noteq> []")
    case True
    then obtain p' where "p = x # p'" "filter P xs = p' @ q" using Cons.prems by (cases p) auto
    then show ?thesis using Cons.IH [of p'] True by (metis append_Cons filter.simps(2))
  next
    case False
    then consider "p = []" | "\<not> P x" by blast
    then show ?thesis
    proof cases
      case 1
      then show ?thesis using Cons.prems by (intro exI [of _ "[]"] exI [of _ "x # xs"]) simp
    next
      case 2
      then show ?thesis using Cons.IH [of p] Cons.prems by (metis append_Cons filter.simps(2))
    qed
  qed
qed simp

lemma best_tier_Some:
  assumes "best_tier st tiers = Some t"
  shows "\<exists>pre post. tiers = pre @ t # post \<and> eligible st t
    \<and> (\<forall>x \<in> set pre. eligible st x \<longrightarrow> tier_Tier t < tier_Tier x)
    \<and> (\<forall>x \<in> set post. eligible st x \<longrightarrow> tier_Tier t \<le> tier_Tier x)"
proof -
  let ?es = "filter (eligible st) tiers"
  have ne: "?es \<noteq> []" and t: "t = arg_min_list tier_Tier ?es"
    using assms by (auto simp: best_tier_def Let_def split: if_splits)
  from arg_min_list_first [OF ne, of tier_Tier] obtain p q where
    split: "?es = p @ t # q" and pq: "\<forall>x \<in> set p. tier_Tier t < tier_Tier x" "\<forall>x \<in> set q. tier_Tier t \<le> tier_Tier x"
    unfolding t by blast
  from filter_eq_append [OF split] obtain us vs where uv: "tiers = us @ vs"
    "filter (eligible st) us = p" "filter (eligible st) vs = t # q" by blast
  from uv(3) obtain us2 vs2 where v: "vs = us2 @ t # vs2" "\<forall>x \<in> set us2. \<not> eligible st x" "eligible st t"
      "filter (eligible st) vs2 = q"
    by (auto simp: filter_eq_Cons_iff)
  have "set p = {x \<in> set us. eligible st x}" "set q = {x \<in> set vs2. eligible st x}"
    using uv(2) v(4) by auto
  then show ?thesis
    using uv(1) v pq by (intro exI [of _ "us @ us2"] exI [of _ vs2]) auto
qed

lemma best_tier_None: "best_tier st tiers = None \<longleftrightarrow> (\<forall>t \<in> set tiers. \<not> eligible st t)"
  by (auto simp: best_tier_def Let_def filter_empty_conv)

subsection \<open>What the breaker relies on\<close>

text \<open>
  The documented state machine of gobreaker for settings with one half-open request and
  no clearing interval: closed with a count of consecutive failures, open until a moment,
  half-open. A failure in the closed state trips when \<open>ReadyToTrip\<close> says so; the open state
  ignores outcomes until its timeout has passed; the half-open state is left by the next
  outcome.
\<close>

datatype phase = PClosed uint32 | POpen time | PHalfOpen

definition phase_at :: "phase \<Rightarrow> time \<Rightarrow> phase" where
  "phase_at ph now = (case ph of POpen t \<Rightarrow> if t < now then PHalfOpen else ph | _ \<Rightarrow> ph)"

definition phase_step :: "Settings \<Rightarrow> phase \<Rightarrow> time \<Rightarrow> bool \<Rightarrow> phase" where
  "phase_step st ph now success =
     (case phase_at ph now of
        PClosed n \<Rightarrow> if success then PClosed 0
                     else if st_ReadyToTrip st (n + 1) then POpen (now + st_Timeout st) else PClosed (n + 1)
      | PHalfOpen \<Rightarrow> if success then PClosed 0 else POpen (now + st_Timeout st)
      | POpen t \<Rightarrow> POpen t)"

definition phase_state :: "phase \<Rightarrow> gb_state" where
  "phase_state ph = (case ph of PClosed _ \<Rightarrow> StateClosed | POpen _ \<Rightarrow> StateOpen | PHalfOpen \<Rightarrow> StateHalfOpen)"

definition closed_phase :: "phase \<Rightarrow> bool" where
  "closed_phase ph \<longleftrightarrow> phase_state ph = StateClosed"

text \<open>A sequence of probe outcomes, of any tunnels, recorded one after the other.\<close>

definition feed ::
  "'cb gobreaker_api \<Rightarrow> (string \<times> time \<times> bool) list \<Rightarrow> 'cb Registry \<Rightarrow> 'cb Registry" where
  "feed gb evs r = foldl (\<lambda>r (t, now, ok). Registry_Record gb r t now ok) r evs"

lemma closed_phase_simps [simp]:
  "closed_phase (PClosed n)" "\<not> closed_phase (POpen x)" "\<not> closed_phase PHalfOpen"
  by (simp_all add: closed_phase_def phase_state_def)

lemma NewRegistry_opts [simp]: "rg_opts (NewRegistry opts) = opts"
  by (simp add: NewRegistry_def)

locale gobreaker =
  fixes gb :: "'cb gobreaker_api" and phase :: "'cb \<Rightarrow> phase" and settings :: "'cb \<Rightarrow> Settings"
  assumes new: "phase (gb_New gb st) = PClosed 0" "settings (gb_New gb st) = st"
    and execute: "st_MaxRequests (settings cb) = 1 \<Longrightarrow>
      phase (gb_Execute gb cb now ok) = phase_step (settings cb) (phase cb) now ok"
    and execute_settings: "settings (gb_Execute gb cb now ok) = settings cb"
    and state: "gb_State gb cb now = (s, cb') \<Longrightarrow>
      phase cb' = phase_at (phase cb) now \<and> settings cb' = settings cb \<and> s = phase_state (phase cb')"
begin

definition registry_ok :: "'cb Registry \<Rightarrow> bool" where
  "registry_ok r \<longleftrightarrow> (\<forall>t b. rg_breakers r t = Some b \<longrightarrow> settings b = breaker_settings t (rg_opts r))"

definition reg_phase :: "'cb Registry \<Rightarrow> string \<Rightarrow> phase" where
  "reg_phase r t = (case rg_breakers r t of None \<Rightarrow> PClosed 0 | Some b \<Rightarrow> phase b)"

lemma registry_ok_new: "registry_ok (NewRegistry opts)" "reg_phase (NewRegistry opts) t = PClosed 0"
  by (simp_all add: registry_ok_def reg_phase_def NewRegistry_def)

lemma reg_phase_upd:
  "reg_phase (r\<lparr>rg_breakers := (rg_breakers r)(t \<mapsto> b)\<rparr>) u = (if u = t then phase b else reg_phase r u)"
  by (simp add: reg_phase_def)

lemma Registry_get:
  assumes "registry_ok r" and "Registry_get gb r t = (b, r')"
  shows "registry_ok r'" and "rg_opts r' = rg_opts r" and "rg_breakers r' t = Some b"
    and "phase b = reg_phase r t" and "settings b = breaker_settings t (rg_opts r)"
    and "reg_phase r' = reg_phase r"
  using assms new
  by (auto simp: Registry_get_def Let_def registry_ok_def reg_phase_def NewBreaker_def fun_eq_iff
      split: option.splits if_splits)

lemma Registry_Record:
  assumes "registry_ok r"
  shows "registry_ok (Registry_Record gb r t now ok)"
    and "rg_opts (Registry_Record gb r t now ok) = rg_opts r"
    and "reg_phase (Registry_Record gb r t now ok) u =
      (if u = t then phase_step (breaker_settings t (rg_opts r)) (reg_phase r t) now ok else reg_phase r u)"
proof -
  obtain b r' where g: "Registry_get gb r t = (b, r')" by fastforce
  note f = Registry_get [OF assms g]
  have "st_MaxRequests (settings b) = 1" using f(5) by (simp add: breaker_settings_def Let_def)
  note ex = execute [OF this] execute_settings [of b now ok]
  show "registry_ok (Registry_Record gb r t now ok)"
    using f ex by (auto simp: Registry_Record_def g Breaker_Record_def registry_ok_def)
  show "rg_opts (Registry_Record gb r t now ok) = rg_opts r"
    using f by (simp add: Registry_Record_def g)
  show "reg_phase (Registry_Record gb r t now ok) u =
      (if u = t then phase_step (breaker_settings t (rg_opts r)) (reg_phase r t) now ok else reg_phase r u)"
    using f ex by (simp add: Registry_Record_def g Breaker_Record_def reg_phase_upd)
qed

lemma Registry_Closed:
  assumes "registry_ok r" and "Registry_Closed gb r t now = (c, r')"
  shows "c = closed_phase (phase_at (reg_phase r t) now)" and "registry_ok r'"
    and "reg_phase r' u = (if u = t then phase_at (reg_phase r t) now else reg_phase r u)"
proof -
  obtain b r1 where g: "Registry_get gb r t = (b, r1)" by fastforce
  obtain s b' where s: "gb_State gb b now = (s, b')" by fastforce
  note f = Registry_get [OF assms(1) g] and st = state [OF s]
  have r': "c = (s = StateClosed)" "r' = r1\<lparr>rg_breakers := (rg_breakers r1)(t \<mapsto> b')\<rparr>"
    using assms(2) by (auto simp: Registry_Closed_def g Breaker_Closed_def s)
  show "c = closed_phase (phase_at (reg_phase r t) now)" using r' st f by (simp add: closed_phase_def)
  show "registry_ok r'" using r' st f by (auto simp: registry_ok_def)
  show "reg_phase r' u = (if u = t then phase_at (reg_phase r t) now else reg_phase r u)"
    using r' st f by (simp add: reg_phase_upd)
qed

text \<open>Each tunnel sees only its own outcomes.\<close>

lemma feed_phase:
  assumes "registry_ok r"
  shows "registry_ok (feed gb evs r) \<and> rg_opts (feed gb evs r) = rg_opts r \<and>
    reg_phase (feed gb evs r) t =
      foldl (\<lambda>ph (_, now, ok). phase_step (breaker_settings t (rg_opts r)) ph now ok) (reg_phase r t)
        (filter (\<lambda>e. fst e = t) evs)"
  using assms
proof (induction evs arbitrary: r)
  case Nil
  then show ?case by (simp add: feed_def)
next
  case (Cons e evs)
  obtain u now ok where e: "e = (u, now, ok)" by (cases e)
  note rec = Registry_Record [OF Cons.prems, of u now ok]
  show ?case using Cons.IH [OF rec(1)] rec(2,3) by (auto simp: feed_def e)
qed

end

subsection \<open>Tripping and recovery\<close>

definition counting :: "uint32 \<Rightarrow> phase \<Rightarrow> bool" where
  "counting thr ph \<longleftrightarrow> (case ph of PClosed n \<Rightarrow> n < thr | _ \<Rightarrow> True)"

lemma failThreshold_pos: "0 < failThreshold o'"
  by (simp add: failThreshold_def DefaultFailThreshold_def word_gt_0)

lemma breaker_settings_sel [simp]:
  "st_ReadyToTrip (breaker_settings t o') n = (failThreshold o' \<le> n)"
  "st_Timeout (breaker_settings t o') = cooldown o'"
  by (simp_all add: breaker_settings_def Let_def)

lemma phase_step_counting:
  "counting (failThreshold o') (phase_step (breaker_settings t o') ph now ok)"
  using failThreshold_pos [of o']
  by (auto simp: counting_def phase_step_def phase_at_def not_le split: phase.splits if_splits)

lemma phase_step_failure_keeps_open:
  "\<not> closed_phase ph \<Longrightarrow> \<not> closed_phase (phase_step st ph now False)"
  by (auto simp: closed_phase_def phase_state_def phase_step_def phase_at_def split: phase.splits if_splits)

lemma phase_at_closed [simp]: "closed_phase (phase_at ph now) = closed_phase ph"
  by (auto simp: closed_phase_def phase_state_def phase_at_def split: phase.splits)

lemma unat_suc:
  assumes "n < (thr :: uint32)"
  shows "unat (n + 1) = Suc (unat n)"
proof -
  have "unat n < unat thr" using assms by (simp add: word_less_nat_alt)
  moreover have "unat thr < 2 ^ 32" using unsigned_less [of thr, where ?'a = nat] by simp
  ultimately have "Suc (unat n) < 2 ^ 32" by linarith
  then show ?thesis by (simp add: unat_word_ariths(1))
qed

definition closed_count :: "phase \<Rightarrow> nat" where
  "closed_count ph = (case ph of PClosed n \<Rightarrow> unat n | _ \<Rightarrow> 0)"

lemma failures_keep_open:
  "\<not> closed_phase ph \<Longrightarrow> list_all (\<lambda>(_, _, ok). \<not> ok) evs \<Longrightarrow>
     \<not> closed_phase (foldl (\<lambda>ph (_, now, ok). phase_step st ph now ok) ph evs)"
  by (induction evs arbitrary: ph) (simp_all add: phase_step_failure_keeps_open case_prod_beta)

lemma phase_step_failure_closed:
  "phase_step (breaker_settings t o') (PClosed n) now False =
     (if failThreshold o' \<le> n + 1 then POpen (now + cooldown o') else PClosed (n + 1))"
  by (simp add: phase_step_def phase_at_def)

lemma failures_trip:
  assumes "counting (failThreshold o') ph" and "list_all (\<lambda>(_, _, ok). \<not> ok) evs"
    and "unat (failThreshold o') \<le> closed_count ph + length evs"
  shows "\<not> closed_phase (foldl (\<lambda>ph (_, now, ok). phase_step (breaker_settings t o') ph now ok) ph evs)"
  using assms
proof (induction evs arbitrary: ph)
  case Nil
  then show ?case
    by (auto simp: counting_def closed_count_def closed_phase_def phase_state_def word_less_nat_alt split: phase.splits)
next
  case (Cons e evs)
  obtain u now where e: "e = (u, now, False)" using Cons.prems(2) by (cases e) auto
  show ?case
  proof (cases "closed_phase ph")
    case False
    then show ?thesis using failures_keep_open [OF False Cons.prems(2)] by simp
  next
    case True
    then obtain n where n: "ph = PClosed n" by (auto simp: closed_phase_def phase_state_def split: phase.splits)
    show ?thesis
    proof (cases "failThreshold o' \<le> n + 1")
      case True
      then show ?thesis
        using Cons.prems(2) by (simp add: n e phase_step_failure_closed failures_keep_open)
    next
      case False
      have "n < failThreshold o'" using Cons.prems(1) n by (simp add: counting_def)
      from unat_suc [OF this] show ?thesis
        using Cons.IH [of "PClosed (n + 1)"] Cons.prems False
        by (simp add: n e phase_step_failure_closed counting_def closed_count_def)
    qed
  qed
qed

text \<open>The open state ends no later than one cooldown after the last outcome.\<close>

definition open_until :: "phase \<Rightarrow> time \<Rightarrow> bool" where
  "open_until ph t \<longleftrightarrow> (case ph of POpen x \<Rightarrow> x \<le> t | _ \<Rightarrow> True)"

lemma cooldown_pos: "0 < cooldown o'"
  by (simp add: cooldown_def DefaultCooldown_def Second_def)

lemma phase_step_open_until:
  "open_until ph (t0 + cooldown o') \<Longrightarrow> t0 \<le> now \<Longrightarrow>
     open_until (phase_step (breaker_settings t o') ph now ok) (now + cooldown o')"
  by (auto simp: open_until_def phase_step_def phase_at_def split: phase.splits if_splits)

lemma phase_step_recovers:
  "open_until ph (t0 + cooldown o') \<Longrightarrow> t0 + cooldown o' < now \<Longrightarrow>
     phase_step (breaker_settings t o') ph now True = PClosed 0"
  by (auto simp: open_until_def phase_step_def phase_at_def split: phase.splits if_splits)

lemma foldl_open_until:
  assumes "sorted (t0 # map (\<lambda>(_, now, _). now) evs)" and "open_until ph (t0 + cooldown o')"
  shows "open_until (foldl (\<lambda>ph (_, now, ok). phase_step (breaker_settings t o') ph now ok) ph evs)
    ((if evs = [] then t0 else fst (snd (last evs))) + cooldown o')"
  using assms
proof (induction evs arbitrary: t0 ph)
  case (Cons e evs)
  obtain u now ok where e: "e = (u, now, ok)" by (cases e)
  have "open_until (phase_step (breaker_settings t o') ph now ok) (now + cooldown o')"
    using Cons.prems by (intro phase_step_open_until [of _ t0]) (auto simp: e)
  then show ?case using Cons.IH [of now] Cons.prems by (auto simp: e)
qed simp

context gobreaker
begin

lemma tripped:
  assumes "list_all (\<lambda>(_, _, ok). \<not> ok) (filter (\<lambda>e. fst e = t) later)"
    and "unat (failThreshold opts) \<le> length (filter (\<lambda>e. fst e = t) later)"
  shows "\<not> fst (Registry_Closed gb (feed gb (evs @ later) (NewRegistry opts)) t now)"
proof -
  let ?step = "\<lambda>ph (_ :: string, now, ok). phase_step (breaker_settings t opts) ph now ok"
  let ?r = "feed gb (evs @ later) (NewRegistry opts)" and ?evs = "filter (\<lambda>e. fst e = t) evs"
  note ph = feed_phase [OF registry_ok_new(1), of "evs @ later" opts t]
  have "counting (failThreshold opts) (foldl ?step (PClosed 0) ?evs)"
    using failThreshold_pos [of opts]
    by (cases ?evs rule: rev_cases) (auto simp: phase_step_counting case_prod_beta counting_def [of _ "PClosed 0"])
  from failures_trip [OF this assms(1)] assms(2)
  have "\<not> closed_phase (reg_phase ?r t)" using ph by (simp add: registry_ok_new(2))
  moreover obtain c r' where c: "Registry_Closed gb ?r t now = (c, r')" by fastforce
  moreover have "registry_ok ?r" using ph by blast
  ultimately show ?thesis using Registry_Closed(1) [of ?r t now c r'] by simp
qed

lemma recovered:
  assumes "sorted (t0 # map (\<lambda>(_, now, _). now) (filter (\<lambda>e. fst e = t) evs))"
    and "(if filter (\<lambda>e. fst e = t) evs = [] then t0 else fst (snd (last (filter (\<lambda>e. fst e = t) evs))))
      + cooldown opts < now"
  shows "fst (Registry_Closed gb (feed gb (evs @ [(t, now, True)]) (NewRegistry opts)) t now')"
proof -
  let ?r = "feed gb (evs @ [(t, now, True)]) (NewRegistry opts)"
  note ph = feed_phase [OF registry_ok_new(1), of "evs @ [(t, now, True)]" opts t]
  have "open_until (PClosed 0) (t0 + cooldown opts)" by (simp add: open_until_def)
  from phase_step_recovers [OF foldl_open_until [OF assms(1) this] assms(2)]
  have "reg_phase ?r t = PClosed 0" using ph by (simp add: registry_ok_new(2))
  then have "closed_phase (reg_phase ?r t)" by (simp add: closed_phase_def phase_state_def)
  moreover obtain c r' where "Registry_Closed gb ?r t now' = (c, r')" by fastforce
  moreover have "registry_ok ?r" using ph by blast
  ultimately show ?thesis using Registry_Closed(1) [of ?r t now' c r'] by simp
qed

end

subsection \<open>The state machine as an instance\<close>

definition ref_gobreaker :: "(Settings \<times> phase) gobreaker_api" where
  "ref_gobreaker =
     \<lparr>gb_New = (\<lambda>st. (st, PClosed 0)),
      gb_Execute = (\<lambda>(st, ph) now ok. (st, phase_step st ph now ok)),
      gb_State = (\<lambda>(st, ph) now. (phase_state (phase_at ph now), (st, phase_at ph now)))\<rparr>"

interpretation ref: gobreaker ref_gobreaker snd fst
  by unfold_locales (auto simp: ref_gobreaker_def)

subsection \<open>Failover\<close>

text \<open>
  The state closure of the selection, over the breakers of a registry and the health of the
  tunnels, as the documentation of \<open>Registry.Closed\<close> gives it.
\<close>

definition tunnel_state ::
  "'cb gobreaker_api \<Rightarrow> 'cb Registry \<Rightarrow> (string \<Rightarrow> bool) \<Rightarrow> time \<Rightarrow> string \<Rightarrow> bool \<times> bool" where
  "tunnel_state gb r up now = (\<lambda>t. (fst (Registry_Closed gb r t now), up t))"

lemma SelectTunnel_skips:
  assumes "st t \<noteq> (True, True)"
  shows "SelectTunnel tiers (Some st) = SelectTunnel (filter (\<lambda>x. tier_Tunnel x \<noteq> t) tiers) (Some st)"
proof -
  have "filter (eligible st) tiers = filter (eligible st) (filter (\<lambda>x. tier_Tunnel x \<noteq> t) tiers)"
    unfolding filter_filter using assms by (intro filter_cong) (auto simp: eligible_def)
  then show ?thesis by (simp add: SelectTunnel_best best_tier_def)
qed

lemma SelectTunnel_least:
  assumes "x \<in> set tiers" and "st (tier_Tunnel x) = (True, True)"
    and "\<forall>y \<in> set tiers. tier_Tunnel y \<noteq> tier_Tunnel x \<longrightarrow> tier_Tier x < tier_Tier y"
  shows "SelectTunnel tiers (Some st) = tier_Tunnel x"
proof (cases "best_tier st tiers")
  case None
  with assms(1,2) show ?thesis by (auto simp: best_tier_None eligible_def)
next
  case (Some t)
  from best_tier_Some [OF Some] obtain pre post where t: "tiers = pre @ t # post"
    and le: "\<forall>y \<in> set tiers. eligible st y \<longrightarrow> tier_Tier t \<le> tier_Tier y" by fastforce
  have "tier_Tunnel t = tier_Tunnel x"
  proof (rule ccontr)
    assume "tier_Tunnel t \<noteq> tier_Tunnel x"
    then have "tier_Tier x < tier_Tier t" using assms(3) t by simp
    moreover have "tier_Tier t \<le> tier_Tier x" using le assms(1,2) by (simp add: eligible_def)
    ultimately show False by simp
  qed
  then show ?thesis by (simp add: SelectTunnel_best Some)
qed

subsection \<open>Properties\<close>

text \<open>
  C25: the failover choice is the first entry of least tier among those whose breaker is
  closed and whose health is up, and the empty name exactly when there is none or no state
  is given: it never names a tunnel that is down or tripped.
\<close>

theorem SelectTunnel_correct:
  "SelectTunnel tiers None = [] \<and>
   ((\<exists>pre t post. tiers = pre @ t # post \<and> state (tier_Tunnel t) = (True, True)
      \<and> (\<forall>x \<in> set pre. state (tier_Tunnel x) = (True, True) \<longrightarrow> tier_Tier t < tier_Tier x)
      \<and> (\<forall>x \<in> set post. state (tier_Tunnel x) = (True, True) \<longrightarrow> tier_Tier t \<le> tier_Tier x)
      \<and> SelectTunnel tiers (Some state) = tier_Tunnel t)
   \<or> (\<forall>t \<in> set tiers. state (tier_Tunnel t) \<noteq> (True, True)) \<and> SelectTunnel tiers (Some state) = [])"
proof (cases "best_tier state tiers")
  case None
  then have "\<forall>t \<in> set tiers. state (tier_Tunnel t) \<noteq> (True, True)"
    by (simp add: best_tier_None eligible_def)
  then show ?thesis using None by (simp add: SelectTunnel_best SelectTunnel_def [of _ None])
next
  case (Some t)
  have "SelectTunnel tiers None = []" by (simp add: SelectTunnel_def)
  with best_tier_Some [OF Some] show ?thesis
    unfolding SelectTunnel_best Some eligible_def option.case by blast
qed

theorem SelectTunnel_correct_witness:
  "SelectTunnel [\<lparr>tier_Tunnel = ''b'', tier_Tier = 2\<rparr>, \<lparr>tier_Tunnel = ''a'', tier_Tier = 1\<rparr>]
     (Some (\<lambda>_. (True, True))) = ''a''"
  using SelectTunnel_correct [of "[\<lparr>tier_Tunnel = ''b'', tier_Tier = 2\<rparr>, \<lparr>tier_Tunnel = ''a'', tier_Tier = 1\<rparr>]"
      "\<lambda>_. (True, True)"]
  by (auto simp: Cons_eq_append_conv)

text \<open>
  C26: once the last outcomes recorded for a tunnel are failures, as many as the threshold,
  its breaker does not report closed at any later time, however outcomes of other tunnels
  are interleaved and whatever went before; and the failover choice is then the one made
  over the tiers of the other tunnels, whatever their health.
\<close>

theorem breaker_trips:
  assumes "gobreaker gb phase settings"
    and "\<forall>(u, _, ok) \<in> set later. u = t \<longrightarrow> \<not> ok"
    and "unat (failThreshold opts) \<le> length (filter (\<lambda>e. fst e = t) later)"
    and "r = feed gb (earlier @ later) (NewRegistry opts)"
  shows "\<not> fst (Registry_Closed gb r t now)
    \<and> SelectTunnel tiers (Some (tunnel_state gb r up now))
        = SelectTunnel (filter (\<lambda>x. tier_Tunnel x \<noteq> t) tiers) (Some (tunnel_state gb r up now))"
proof -
  have "\<not> fst (Registry_Closed gb r t now)"
    using gobreaker.tripped [OF assms(1) _ assms(3)] assms(2,4) by (fastforce simp: list_all_iff)
  then show ?thesis by (simp add: SelectTunnel_skips tunnel_state_def)
qed

theorem breaker_trips_witness:
  "\<exists>r. r = feed ref_gobreaker ([(''eu'', 1, True)]
       @ [(''eu'', 2, False), (''us'', 3, True), (''eu'', 4, False), (''eu'', 5, False)])
       (NewRegistry \<lparr>FailThreshold = 0, Cooldown = 0\<rparr>)
    \<and> \<not> fst (Registry_Closed ref_gobreaker r ''eu'' 100)
    \<and> SelectTunnel [\<lparr>tier_Tunnel = ''eu'', tier_Tier = 0\<rparr>, \<lparr>tier_Tunnel = ''us'', tier_Tier = 1\<rparr>]
        (Some (tunnel_state ref_gobreaker r (\<lambda>_. True) 100)) = ''us''"
proof -
  define r where "r = feed ref_gobreaker ([(''eu'', 1, True)]
       @ [(''eu'', 2, False), (''us'', 3, True), (''eu'', 4, False), (''eu'', 5, False)])
       (NewRegistry \<lparr>FailThreshold = 0, Cooldown = 0\<rparr>)"
  have us: "fst (Registry_Closed ref_gobreaker r ''us'' 100)" unfolding r_def by code_simp
  have "\<not> fst (Registry_Closed ref_gobreaker r ''eu'' 100)
    \<and> SelectTunnel [\<lparr>tier_Tunnel = ''eu'', tier_Tier = 0\<rparr>, \<lparr>tier_Tunnel = ''us'', tier_Tier = 1\<rparr>]
        (Some (tunnel_state ref_gobreaker r (\<lambda>_. True) 100))
      = SelectTunnel (filter (\<lambda>x. tier_Tunnel x \<noteq> ''eu'')
          [\<lparr>tier_Tunnel = ''eu'', tier_Tier = 0\<rparr>, \<lparr>tier_Tunnel = ''us'', tier_Tier = 1\<rparr>])
        (Some (tunnel_state ref_gobreaker r (\<lambda>_. True) 100))"
    by (rule breaker_trips [OF ref.gobreaker_axioms _ _ r_def])
      (auto simp: failThreshold_def DefaultFailThreshold_def)
  moreover have "SelectTunnel [\<lparr>tier_Tunnel = ''us'', tier_Tier = 1\<rparr>]
      (Some (tunnel_state ref_gobreaker r (\<lambda>_. True) 100)) = ''us''"
    using us by (simp add: SelectTunnel_def tunnel_state_def)
  ultimately show ?thesis unfolding r_def [symmetric] by simp
qed

text \<open>
  C27: a tunnel recovers: a successful probe recorded more than one cooldown after the
  latest outcome of the tunnel leaves its breaker closed, and when its health is up and no
  other tunnel has as low a tier the failover choice returns to it.
\<close>

theorem breaker_recovers:
  assumes "gobreaker gb phase settings"
    and "sorted (since # map (\<lambda>(_, at, _). at) (filter (\<lambda>e. fst e = t) evs))"
    and "\<forall>(u, at, _) \<in> set evs. u = t \<longrightarrow> at + cooldown opts < now" and "since + cooldown opts < now"
    and "r = feed gb (evs @ [(t, now, True)]) (NewRegistry opts)"
    and "x \<in> set tiers" and "tier_Tunnel x = t" and "up t"
    and "\<forall>y \<in> set tiers. tier_Tunnel y \<noteq> t \<longrightarrow> tier_Tier x < tier_Tier y"
  shows "fst (Registry_Closed gb r t now')
    \<and> SelectTunnel tiers (Some (tunnel_state gb r up now')) = t"
proof -
  have "fst (Registry_Closed gb r t now')"
    unfolding assms(5)
  proof (rule gobreaker.recovered [OF assms(1,2)])
    show "(if filter (\<lambda>e. fst e = t) evs = [] then since else fst (snd (last (filter (\<lambda>e. fst e = t) evs)))) + cooldown opts < now"
      using assms(3,4) last_in_set [of "filter (\<lambda>e. fst e = t) evs"] by fastforce
  qed
  with assms(6-9) show ?thesis by (auto simp: tunnel_state_def intro: SelectTunnel_least)
qed

theorem breaker_recovers_witness:
  "\<exists>r. r = feed ref_gobreaker
       ([(''eu'', 2, False), (''eu'', 4, False), (''eu'', 5, False)] @ [(''eu'', 16, True)])
       (NewRegistry \<lparr>FailThreshold = 3, Cooldown = 10\<rparr>)
    \<and> fst (Registry_Closed ref_gobreaker r ''eu'' 17)
    \<and> SelectTunnel [\<lparr>tier_Tunnel = ''us'', tier_Tier = 1\<rparr>, \<lparr>tier_Tunnel = ''eu'', tier_Tier = 0\<rparr>]
        (Some (tunnel_state ref_gobreaker r (\<lambda>_. True) 17)) = ''eu''"
proof -
  define r where "r = feed ref_gobreaker
       ([(''eu'', 2, False), (''eu'', 4, False), (''eu'', 5, False)] @ [(''eu'', 16, True)])
       (NewRegistry \<lparr>FailThreshold = 3, Cooldown = 10\<rparr>)"
  have "fst (Registry_Closed ref_gobreaker r ''eu'' 17)
    \<and> SelectTunnel [\<lparr>tier_Tunnel = ''us'', tier_Tier = 1\<rparr>, \<lparr>tier_Tunnel = ''eu'', tier_Tier = 0\<rparr>]
        (Some (tunnel_state ref_gobreaker r (\<lambda>_. True) 17)) = ''eu''"
    by (rule breaker_recovers [OF ref.gobreaker_axioms _ _ _ r_def,
          where since = 0 and x = "\<lparr>tier_Tunnel = ''eu'', tier_Tier = 0\<rparr>"])
      (auto simp: cooldown_def)
  then show ?thesis unfolding r_def [symmetric] by simp
qed

end
