(* ===== verification/Go_Duration.thy ===== *)
theory Go_Duration
  imports Complex_Main Go_Float Go_Time
begin

text \<open>
  \<open>time.ParseDuration\<close> and \<open>Duration.Seconds\<close>, with the \<open>float64\<close> arithmetic they use:
  every operation rounds the exact result to nearest even. The programs drop the text of a
  parse error, so \<open>None\<close> stands for it.
\<close>

subsection \<open>Definitions\<close>

subsubsection \<open>Arithmetic of non-negative floats\<close>

text \<open>The value as a ratio of naturals; \<open>None\<close> as a result is \<open>+Inf\<close>.\<close>

definition float_ratio :: "float64 \<Rightarrow> nat \<times> nat" where
  "float_ratio x = (if 0 \<le> snd x then (fst x * 2 ^ nat (snd x), 1) else (fst x, 2 ^ nat (- snd x)))"

definition float_of_nat :: "nat \<Rightarrow> float64 option" where
  "float_of_nat n = round_ratio n 1"

definition float_mul :: "float64 \<Rightarrow> float64 \<Rightarrow> float64 option" where
  "float_mul x y =
     (case float_ratio x of (a, b) \<Rightarrow> case float_ratio y of (c, d) \<Rightarrow> round_ratio (a * c) (b * d))"

definition float_div :: "float64 \<Rightarrow> float64 \<Rightarrow> float64 option" where
  "float_div x y =
     (case float_ratio x of (a, b) \<Rightarrow> case float_ratio y of (c, d) \<Rightarrow> round_ratio (a * d) (b * c))"

definition float_add :: "float64 \<Rightarrow> float64 \<Rightarrow> float64 option" where
  "float_add x y =
     (case float_ratio x of (a, b) \<Rightarrow> case float_ratio y of (c, d) \<Rightarrow> round_ratio (a * d + c * b) (b * d))"

subsubsection \<open>ParseDuration\<close>

fun leadingInt :: "nat \<Rightarrow> string \<Rightarrow> (nat \<times> string) option" where
  "leadingInt x [] = Some (x, [])"
| "leadingInt x (c # s) =
     (if \<not> is_digit c then Some (x, c # s)
      else if 2 ^ 63 div 10 < x then None
      else let y = x * 10 + digit_val c in if 2 ^ 63 < y then None else leadingInt y s)"

text \<open>
  The digits after the point as an integer and the power of ten to divide it by, a float
  that is multiplied by ten for every digit taken; digits past the range are skipped.
\<close>

fun leadingFraction :: "bool \<Rightarrow> nat \<Rightarrow> float64 option \<Rightarrow> string \<Rightarrow> nat \<times> float64 option \<times> string" where
  "leadingFraction overflow x scale [] = (x, scale, [])"
| "leadingFraction overflow x scale (c # s) =
     (if \<not> is_digit c then (x, scale, c # s)
      else if overflow then leadingFraction True x scale s
      else if (2 ^ 63 - 1) div 10 < x then leadingFraction True x scale s
      else let y = x * 10 + digit_val c in
           if 2 ^ 63 < y then leadingFraction True x scale s
           else leadingFraction False y (Option.bind scale (\<lambda>k. float_mul k (10, 0))) s)"

definition unitMap :: "string \<Rightarrow> nat option" where
  "unitMap =
     [''ns'' \<mapsto> 1, ''us'' \<mapsto> 1000, [CHR 0xC2, CHR 0xB5, CHR ''s''] \<mapsto> 1000, [CHR 0xCE, CHR 0xBC, CHR ''s''] \<mapsto> 1000,
      ''ms'' \<mapsto> 1000000, ''s'' \<mapsto> 1000000000, ''m'' \<mapsto> 60000000000, ''h'' \<mapsto> 3600000000000]"

text \<open>\<open>uint64(float64(f) * (float64(unit) / scale))\<close>; a quotient by infinity is zero.\<close>

definition fraction_ns :: "nat \<Rightarrow> nat \<Rightarrow> float64 option \<Rightarrow> nat" where
  "fraction_ns f unit scale =
     (case scale of
        None \<Rightarrow> 0
      | Some k \<Rightarrow>
          (case Option.bind (float_of_nat unit) (\<lambda>u. Option.bind (float_div u k)
                   (\<lambda>q. Option.bind (float_of_nat f) (\<lambda>g. float_mul g q))) of
             Some x \<Rightarrow> float_trunc x
           | None \<Rightarrow> 2 ^ 63))"

definition number_char :: "char \<Rightarrow> bool" where
  "number_char c \<longleftrightarrow> c = CHR ''.'' \<or> is_digit c"

text \<open>One number with its unit: the nanoseconds and the rest of the text.\<close>

definition duration_term :: "string \<Rightarrow> (nat \<times> string) option" where
  "duration_term s =
     (if s = [] \<or> \<not> number_char (hd s) then None
      else Option.bind (leadingInt 0 s) (\<lambda>(v, s1).
        let pre = (length s1 \<noteq> length s);
            point = (s1 \<noteq> [] \<and> hd s1 = CHR ''.'');
            (f, scale, s2) = (if point then leadingFraction False 0 (Some (1, 0)) (tl s1) else (0, Some (1, 0), s1));
            post = (point \<and> length s2 \<noteq> length (tl s1));
            u = takeWhile (\<lambda>c. \<not> number_char c) s2
        in if \<not> pre \<and> \<not> post then None
           else if u = [] then None
           else Option.bind (unitMap u) (\<lambda>unit.
             if 2 ^ 63 div unit < v then None
             else let w = (if 0 < f then (v * unit + fraction_ns f unit scale) mod 2 ^ 64 else v * unit)
                  in if 2 ^ 63 < w then None else Some (w, dropWhile (\<lambda>c. \<not> number_char c) s2))))"

lemma leadingInt_length: "leadingInt x s = Some (y, r) \<Longrightarrow> length r \<le> length s"
  by (induction x s rule: leadingInt.induct) (auto simp: Let_def split: if_splits)

lemma leadingFraction_length: "leadingFraction b x k s = (y, k', r) \<Longrightarrow> length r \<le> length s"
proof (induction s arbitrary: b x k)
  case (Cons c s)
  have "r = c # s \<or> (\<exists>b' x' k''. leadingFraction b' x' k'' s = (y, k', r))"
    using Cons.prems unfolding leadingFraction.simps(2) Let_def
    by (cases "is_digit c"; cases b; cases "(2 ^ 63 - 1) div 10 < x"; cases "2 ^ 63 < x * 10 + digit_val c";
        simp only: if_True if_False not_True_eq_False not_False_eq_True prod.inject) blast+
  then show ?case using Cons.IH by (metis le_SucI length_Cons order_refl)
qed simp

lemma dropWhile_shorter: "takeWhile P s \<noteq> [] \<Longrightarrow> length (dropWhile P s) < length s"
proof -
  assume "takeWhile P s \<noteq> []"
  then have "0 < length (takeWhile P s)" by simp
  moreover have "length (takeWhile P s) + length (dropWhile P s) = length s"
    by (metis length_append takeWhile_dropWhile_id)
  ultimately show ?thesis by linarith
qed

lemma duration_term_length:
  assumes "duration_term s = Some (w, r)"
  shows "length r < length s"
proof -
  obtain v s1 where s1: "leadingInt 0 s = Some (v, s1)"
    using assms by (auto simp: duration_term_def bind_eq_Some_conv split: if_splits)
  define q where "q = (if s1 \<noteq> [] \<and> hd s1 = CHR ''.'' then leadingFraction False 0 (Some (1, 0)) (tl s1) else (0, Some (1, 0), s1))"
  obtain f k s2 where q: "q = (f, k, s2)" by (cases q)
  have "length s2 \<le> length s1"
    using q leadingFraction_length [of False 0 "Some (1, 0)" "tl s1" f k s2]
    by (auto simp: q_def split: if_splits)
  moreover have "takeWhile (\<lambda>c. \<not> number_char c) s2 \<noteq> []" "r = dropWhile (\<lambda>c. \<not> number_char c) s2"
    using assms s1 q
    by (auto simp: duration_term_def Let_def bind_eq_Some_conv q_def [symmetric] split: if_splits)
  ultimately show ?thesis using leadingInt_length [OF s1] dropWhile_shorter by fastforce
qed

function duration_loop :: "nat \<Rightarrow> string \<Rightarrow> nat option" where
  "duration_loop d s =
     (if s = [] then Some d
      else case duration_term s of
          None \<Rightarrow> None
        | Some (w, r) \<Rightarrow> let d' = (d + w) mod 2 ^ 64 in if 2 ^ 63 < d' then None else duration_loop d' r)"
  by pat_completeness auto

termination duration_loop
  by (relation "measure (\<lambda>(_, s). length s)") (auto dest: duration_term_length)

declare duration_loop.simps [simp del]

definition ParseDuration :: "string \<Rightarrow> Duration option" where
  "ParseDuration s =
     (let signed = (s \<noteq> [] \<and> (hd s = CHR ''-'' \<or> hd s = CHR ''+''));
          neg = (s \<noteq> [] \<and> hd s = CHR ''-'');
          t = (if signed then tl s else s)
      in if t = ''0'' then Some 0
         else if t = [] then None
         else case duration_loop 0 t of
             None \<Rightarrow> None
           | Some d \<Rightarrow> if neg then Some (- int d) else if 2 ^ 63 - 1 < d then None else Some (int d))"

subsubsection \<open>Seconds\<close>

text \<open>\<open>Duration.Seconds\<close> of a non-negative duration, given as its nanoseconds.\<close>

definition Seconds :: "nat \<Rightarrow> float64 option" where
  "Seconds d =
     Option.bind (float_of_nat (d div 1000000000)) (\<lambda>sec.
       Option.bind (float_of_nat (d mod 1000000000)) (\<lambda>nsec.
         Option.bind (float_div nsec (1000000000, 0)) (float_add sec)))"

subsection \<open>Reading what is printed\<close>

lemma leadingInt_digits:
  assumes "list_all is_digit ds" and "rest = [] \<or> \<not> is_digit (hd rest)"
    and "foldl (\<lambda>n c. 10 * n + digit_val c) x ds \<le> 2 ^ 63"
  shows "leadingInt x (ds @ rest) = Some (foldl (\<lambda>n c. 10 * n + digit_val c) x ds, rest)"
  using assms(1,3)
proof (induction ds arbitrary: x)
  case Nil
  then show ?case using assms(2) by (cases rest) auto
next
  case (Cons c ds)
  have grow: "n \<le> foldl (\<lambda>n c. 10 * n + digit_val c) n cs" for n cs
  proof (induction cs arbitrary: n)
    case (Cons a cs)
    show ?case using Cons [of "10 * n + digit_val a"] by simp
  qed simp
  have "10 * x + digit_val c \<le> 2 ^ 63"
    using Cons.prems(2) grow [of "10 * x + digit_val c" ds] by simp
  moreover from this have "x \<le> 2 ^ 63 div 10" by linarith
  ultimately have "leadingInt x ((c # ds) @ rest) = leadingInt (10 * x + digit_val c) (ds @ rest)"
    using Cons.prems(1) by (simp add: Let_def mult.commute)
  also have "\<dots> = Some (foldl (\<lambda>n c. 10 * n + digit_val c) (10 * x + digit_val c) ds, rest)"
    using Cons.prems by (intro Cons.IH) simp_all
  finally show ?case by simp
qed

definition unit_text :: "string \<Rightarrow> bool" where
  "unit_text u \<longleftrightarrow> unitMap u \<noteq> None"

lemma unit_text_cases:
  "unit_text u \<longleftrightarrow> u \<in> {''ns'', ''us'', [CHR 0xC2, CHR 0xB5, CHR ''s''], [CHR 0xCE, CHR 0xBC, CHR ''s''],
     ''ms'', ''s'', ''m'', ''h''}"
  by (simp add: unit_text_def unitMap_def fun_upd_def split: if_splits)

lemma unit_text_chars: "unit_text u \<Longrightarrow> list_all (\<lambda>c. \<not> number_char c) u \<and> u \<noteq> []"
  by (auto simp: unit_text_cases number_char_def is_digit_def)

lemma unit_pos: "unitMap u = Some k \<Longrightarrow> 0 < k"
  by (auto simp: unitMap_def split: if_splits)

lemma takeWhile_dropWhile_all:
  assumes "list_all P u" and "r = [] \<or> \<not> P (hd r)"
  shows "takeWhile P (u @ r) = u" and "dropWhile P (u @ r) = r"
  using assms by (cases r; simp add: takeWhile_append list_all_iff)+

lemma duration_term_whole:
  assumes "unitMap u = Some k" and "n * k \<le> 2 ^ 63" and "r = [] \<or> number_char (hd r)"
  shows "duration_term (show_nat n @ u @ r) = Some (n * k, r)"
proof -
  have u: "list_all (\<lambda>c. \<not> number_char c) u" "u \<noteq> []" using assms(1) unit_text_chars by (auto simp: unit_text_def)
  then have hu: "\<not> number_char (hd u)" by (cases u) auto
  have kn: "0 < k" using assms(1) unit_pos by auto
  then have "n \<le> n * k" by simp
  then have n: "n \<le> 2 ^ 63" using assms(2) by linarith
  have li: "leadingInt 0 (show_nat n @ u @ r) = Some (n, u @ r)"
    using leadingInt_digits [OF show_nat_digits, of "u @ r" 0 n] u hu n dec_val_show_nat [of n]
    by (auto simp: number_char_def dec_val_def)
  have hd: "number_char (hd (show_nat n @ u @ r))"
    using show_nat_digits [of n] by (cases "show_nat n") (auto simp: number_char_def)
  have tw: "takeWhile (\<lambda>c. \<not> number_char c) (u @ r) = u" "dropWhile (\<lambda>c. \<not> number_char c) (u @ r) = r"
    using takeWhile_dropWhile_all [OF u(1)] assms(3) by auto
  have "\<not> 2 ^ 63 div k < n" using assms(2) kn by (metis less_eq_div_iff_mult_less_eq not_less)
  moreover have "hd (u @ r) \<noteq> CHR ''.''" using hu u(2) by (auto simp: number_char_def)
  ultimately show ?thesis
    using li hd tw u(2) assms(1,2) unfolding duration_term_def by (simp add: Let_def)
qed

text \<open>A duration as a list of whole numbers with their units, as in \<open>1h30m\<close>.\<close>

definition print_terms :: "(nat \<times> string) list \<Rightarrow> string" where
  "print_terms ts = concat (map (\<lambda>(n, u). show_nat n @ u) ts)"

definition term_ns :: "nat \<times> string \<Rightarrow> nat" where
  "term_ns t = fst t * (case unitMap (snd t) of Some k \<Rightarrow> k | None \<Rightarrow> 0)"

lemma is_digit_hd: "is_digit (hd (show_nat n))"
  using show_nat_hd list.collapse [OF show_nat_not_Nil, symmetric] .

lemma print_terms_hd: "ts \<noteq> [] \<Longrightarrow> print_terms ts \<noteq> [] \<and> is_digit (hd (print_terms ts))"
  by (cases ts) (auto simp: print_terms_def is_digit_hd)

lemma duration_loop_terms:
  assumes "list_all (unit_text \<circ> snd) ts" and "d + (\<Sum>t\<leftarrow>ts. term_ns t) \<le> 2 ^ 63"
  shows "duration_loop d (print_terms ts) = Some (d + (\<Sum>t\<leftarrow>ts. term_ns t))"
  using assms
proof (induction ts arbitrary: d)
  case Nil
  then show ?case by (simp add: print_terms_def duration_loop.simps)
next
  case (Cons t ts)
  obtain n u where t: "t = (n, u)" by (cases t)
  from Cons.prems(1) obtain k where k: "unitMap u = Some k" by (auto simp: t unit_text_def)
  let ?r = "print_terms ts"
  have split: "print_terms (t # ts) = show_nat n @ u @ ?r" by (simp add: print_terms_def t)
  have "duration_term (print_terms (t # ts)) = Some (term_ns t, ?r)"
    unfolding split using duration_term_whole [OF k, of n ?r] Cons.prems(2) print_terms_hd [of ts]
    by (cases ts) (auto simp: t term_ns_def k number_char_def print_terms_def)
  moreover have "(d + term_ns t) mod 2 ^ 64 = d + term_ns t" using Cons.prems(2) by simp
  moreover have "duration_loop (d + term_ns t) ?r = Some (d + term_ns t + (\<Sum>t\<leftarrow>ts. term_ns t))"
    using Cons by (intro Cons.IH) simp_all
  ultimately show ?case
    using Cons.prems(2) print_terms_hd [of "t # ts"] by (subst duration_loop.simps) (simp add: Let_def)
qed

lemma ParseDuration_terms:
  assumes "ts \<noteq> []" and "list_all (unit_text \<circ> snd) ts" and "(\<Sum>t\<leftarrow>ts. term_ns t) < 2 ^ 63"
  shows "ParseDuration (print_terms ts) = Some (int (\<Sum>t\<leftarrow>ts. term_ns t))"
proof -
  note hd = print_terms_hd [OF assms(1)]
  have no: "hd (print_terms ts) \<noteq> CHR ''-''" "hd (print_terms ts) \<noteq> CHR ''+''"
    using hd by (auto simp: is_digit_def)
  obtain n u ts' where ts: "ts = (n, u) # ts'" using assms(1) by (cases ts) auto
  have "u \<noteq> []" using assms(2) unit_text_chars by (auto simp: ts)
  then have "0 < length u" "0 < length (show_nat n)" by simp_all
  then have "2 \<le> length (print_terms ts)"
    unfolding ts print_terms_def by (simp del: length_greater_0_conv)
  then have "print_terms ts \<noteq> ''0''" by auto
  then show ?thesis
    using duration_loop_terms [of ts 0] assms(2,3) hd no unfolding ParseDuration_def by (simp add: Let_def)
qed

lemma duration_loop_bound: "d \<le> 2 ^ 63 \<Longrightarrow> duration_loop d s = Some x \<Longrightarrow> x \<le> 2 ^ 63"
proof (induction d s rule: duration_loop.induct)
  case (1 d s)
  show ?case
  proof (cases "s = []")
    case True
    then show ?thesis using "1.prems" by (simp add: duration_loop.simps)
  next
    case False
    with "1.prems"(2) obtain w r where w: "duration_term s = Some (w, r)"
      and le: "\<not> 2 ^ 63 < (d + w) mod 2 ^ 64" and rec: "duration_loop ((d + w) mod 2 ^ 64) r = Some x"
      by (subst (asm) duration_loop.simps) (auto simp: Let_def split: if_splits option.splits)
    show ?thesis using "1.IH" [OF False w refl refl le _ rec] le by linarith
  qed
qed

lemma ParseDuration_range:
  assumes "ParseDuration s = Some d"
  shows "minDuration \<le> d \<and> d \<le> maxDuration"
  using assms duration_loop_bound [of 0] by (fastforce simp: ParseDuration_def Let_def split: if_splits option.splits)

subsection \<open>The rounding error\<close>

definition fval :: "float64 \<Rightarrow> real" where
  "fval x = real (fst x) * 2 powi snd x"

definition ulp :: real where "ulp = 1 / 2 ^ 53"

lemma bit_length_bounds: "0 < n \<Longrightarrow> 2 ^ (bit_length n - 1) \<le> n \<and> n < 2 ^ bit_length n \<and> 0 < bit_length n"
proof (induction n rule: bit_length.induct)
  case (1 n)
  show ?case
  proof (cases "n div 2 = 0")
    case True
    then have "n = 1" using "1.prems" by linarith
    then show ?thesis by simp
  next
    case False
    with "1.IH" "1.prems" have IH: "2 ^ (bit_length (n div 2) - 1) \<le> n div 2" "n div 2 < 2 ^ bit_length (n div 2)"
      "0 < bit_length (n div 2)" by auto
    have b: "bit_length n = Suc (bit_length (n div 2))" using "1.prems" by (subst bit_length.simps) simp
    from IH(3) obtain j where j: "bit_length (n div 2) = Suc j" by (cases "bit_length (n div 2)") auto
    show ?thesis using IH(1,2) by (simp add: b j) linarith
  qed
qed

lemma half_even_error:
  assumes "0 < d"
  shows "\<bar>real (half_even n d) - real n / real d\<bar> \<le> 1 / 2"
proof -
  let ?q = "n div d" and ?r = "n mod d"
  have n: "real n = real d * real ?q + real ?r"
    by (metis div_mult_mod_eq mult.commute of_nat_add of_nat_mult)
  then have eq: "real n / real d = real ?q + real ?r / real d" using assms by (simp add: field_simps)
  have lt: "real ?r < real d" using assms by simp
  show ?thesis
  proof (cases "2 * ?r < d \<or> 2 * ?r = d \<and> even ?q")
    case True
    then have "2 * real ?r \<le> real d" by linarith
    then have "real ?r / real d \<le> 1 / 2" "0 \<le> real ?r / real d" using assms by (simp_all add: field_simps)
    then show ?thesis using True by (simp add: half_even_def Let_def eq)
  next
    case False
    then have "real d \<le> 2 * real ?r" by linarith
    then have "1 / 2 \<le> real ?r / real d" "real ?r / real d \<le> 1" using assms lt by (simp_all add: field_simps)
    then show ?thesis using False assms by (simp add: half_even_def Let_def eq)
  qed
qed

lemma scale2_real:
  assumes "0 < d" "scale2 n d e = (a, b)"
  shows "real a / real b = real n / real d / 2 powi e" and "0 < b"
  using assms by (auto simp: scale2_def power_int_def field_simps split: if_splits)

lemma ratio_bits:
  assumes "0 < n" "0 < d"
  shows "2 powi (int (bit_length n) - int (bit_length d) - 1) \<le> real n / real d"
proof -
  have n: "2 powi (int (bit_length n) - 1) \<le> real n"
  proof -
    have "real (2 ^ (bit_length n - 1)) \<le> real n" using bit_length_bounds [OF assms(1)] of_nat_le_iff by blast
    moreover have "int (bit_length n) - 1 = int (bit_length n - 1)" using bit_length_bounds [OF assms(1)] by linarith
    ultimately show ?thesis by (simp only: power_int_of_nat of_nat_power of_nat_numeral)
  qed
  have d: "real d \<le> 2 powi int (bit_length d)"
  proof -
    have "real d < real (2 ^ bit_length d)" using bit_length_bounds [OF assms(2)] of_nat_less_iff by blast
    then show ?thesis by simp
  qed
  have eq: "int (bit_length n) - int (bit_length d) - 1 = (int (bit_length n) - 1) - int (bit_length d)" by simp
  have "2 powi (int (bit_length n) - int (bit_length d) - 1) = (2 powi (int (bit_length n) - 1) :: real) / 2 powi int (bit_length d)"
    unfolding eq by (rule power_int_diff) simp
  also have "\<dots> \<le> real n / real d"
    using n d assms(2) by (intro frac_le) simp_all
  finally show ?thesis .
qed

lemma float_exp_bound:
  assumes "0 < n" "0 < d" "2 powi - 1022 \<le> real n / real d"
  shows "2 powi (float_exp n d + 52) \<le> real n / real d"
proof -
  let ?k = "int (bit_length n) - int (bit_length d)"
  obtain a b where ab: "scale2 n d ?k = (a, b)" by fastforce
  note sc = scale2_real [OF assms(2) ab]
  have up: "2 powi ?k \<le> real n / real d" if "b \<le> a"
  proof -
    have "1 \<le> real a / real b" using that sc(2) by simp
    then have "1 \<le> real n / real d / 2 powi ?k" by (simp only: sc(1))
    then have "1 * 2 powi ?k \<le> real n / real d" by (subst (asm) pos_le_divide_eq) simp_all
    then show ?thesis by simp
  qed
  show ?thesis
    using assms(3) up ratio_bits [OF assms(1,2)] by (auto simp: float_exp_def Let_def ab max_def)
qed

lemma scaled_error:
  fixes m v p :: real
  assumes "0 < p" and "\<bar>m - v / p\<bar> \<le> 1 / 2"
  shows "\<bar>m * p - v\<bar> \<le> p / 2"
proof -
  have "m * p - v = (m - v / p) * p" using assms(1) by (simp add: field_simps)
  then have "\<bar>m * p - v\<bar> = \<bar>m - v / p\<bar> * p" using assms(1) by (simp add: abs_mult)
  also have "\<dots> \<le> 1 / 2 * p" using assms by (intro mult_right_mono) simp_all
  finally show ?thesis by simp
qed

lemma round_ratio_error:
  assumes "0 < d" and "n = 0 \<or> 2 powi - 1022 \<le> real n / real d" and "real n / real d < 2 powi 1000"
  shows "\<exists>x. round_ratio n d = Some x \<and> real n / real d * (1 - ulp) \<le> fval x \<and> fval x \<le> real n / real d * (1 + ulp)"
proof (cases "n = 0")
  case True
  then show ?thesis by (simp add: round_ratio_def fval_def)
next
  case False
  let ?e = "float_exp n d"
  have low: "2 powi (?e + 52) \<le> real n / real d" using float_exp_bound False assms(1,2) by simp
  then have "2 powi (?e + 52) < (2 powi 1000 :: real)" using assms(3) by linarith
  then have small: "?e + 52 < 1000" by (metis not_less power_int_increasing one_le_numeral)
  obtain a b where ab: "scale2 n d ?e = (a, b)" by fastforce
  let ?m = "half_even a b"
  have r: "round_ratio n d = Some (?m, ?e)" using False small by (simp add: round_ratio_def round_at_def ab Let_def)
  let ?p = "2 powi ?e :: real"
  have p: "0 < ?p" by simp
  have "\<bar>real ?m - real n / real d / ?p\<bar> \<le> 1 / 2"
    using half_even_error [OF scale2_real(2) [OF assms(1) ab], of a] scale2_real(1) [OF assms(1) ab] by simp
  from scaled_error [OF p this] have err: "\<bar>fval (?m, ?e) - real n / real d\<bar> \<le> ?p / 2" by (simp add: fval_def)
  have "?p * 2 ^ 52 \<le> real n / real d" using low by (simp add: power_int_add)
  then have "?p / 2 \<le> real n / real d * ulp" by (simp add: ulp_def)
  then have "\<bar>fval (?m, ?e) - real n / real d\<bar> \<le> real n / real d * ulp" using err by linarith
  then have "real n / real d * (1 - ulp) \<le> fval (?m, ?e)" "fval (?m, ?e) \<le> real n / real d * (1 + ulp)"
    unfolding right_diff_distrib distrib_left by linarith+
  then show ?thesis using r by blast
qed

text \<open>A float that \<open>k\<close> roundings have led away from \<open>r\<close>.\<close>

definition approx :: "nat \<Rightarrow> real \<Rightarrow> real \<Rightarrow> bool" where
  "approx k r v \<longleftrightarrow> r * (1 - ulp) ^ k \<le> v \<and> v \<le> r * (1 + ulp) ^ k"

lemma ulp_bounds: "0 < ulp" "ulp < 1" "0 < 1 - ulp" "1 - ulp \<le> 1" "1 \<le> 1 + ulp"
  by (simp_all add: ulp_def)

lemma approx_self: "approx 0 r r"
  by (simp add: approx_def)

lemma approx_mono:
  assumes "approx k r v" and "k \<le> k'" and "0 \<le> r"
  shows "approx k' r v"
proof -
  have "(1 - ulp) ^ k' \<le> (1 - ulp) ^ k" "(1 + ulp) ^ k \<le> (1 + ulp) ^ k'"
    using assms(2) ulp_bounds by (auto intro: power_decreasing power_increasing)
  then have "r * (1 - ulp) ^ k' \<le> r * (1 - ulp) ^ k" "r * (1 + ulp) ^ k \<le> r * (1 + ulp) ^ k'"
    using assms(3) by (auto intro: mult_left_mono)
  then show ?thesis using assms(1) unfolding approx_def by linarith
qed

lemma approx_add: "approx k r v \<Longrightarrow> approx k s w \<Longrightarrow> approx k (r + s) (v + w)"
  by (simp add: approx_def distrib_right)

lemma approx_scale: "approx k r v \<Longrightarrow> 0 \<le> c \<Longrightarrow> approx k (c * r) (c * v)"
  by (simp add: approx_def mult.assoc mult_left_mono)

lemma approx_powers: "k \<le> 4 \<Longrightarrow> 1 - 1 / 2 ^ 50 \<le> (1 - ulp) ^ k \<and> (1 + ulp) ^ k \<le> 1 + 1 / 2 ^ 50"
proof -
  assume k: "k \<le> 4"
  have "1 - 1 / 2 ^ 50 \<le> (1 - ulp) ^ 4" "(1 + ulp) ^ 4 \<le> 1 + 1 / 2 ^ 50"
    by (simp_all add: ulp_def power4_eq_xxxx)
  moreover have "(1 - ulp) ^ 4 \<le> (1 - ulp) ^ k" "(1 + ulp) ^ k \<le> (1 + ulp) ^ 4"
    using k ulp_bounds by (auto intro: power_decreasing power_increasing)
  ultimately show ?thesis by linarith
qed

lemma approx_round:
  assumes "0 < d" and "approx k r (real n / real d)" and "k \<le> 4" and "r = 0 \<or> 1 / 2 ^ 100 \<le> r \<and> r < 2 ^ 100"
  shows "\<exists>x. round_ratio n d = Some x \<and> approx (Suc k) r (fval x)"
proof -
  let ?v = "real n / real d"
  note pw = approx_powers [OF assms(3)]
  have r0: "0 \<le> r" using assms(4) by auto
  have lo: "r * (1 - 1 / 2 ^ 50) \<le> ?v" and hi: "?v \<le> r * (1 + 1 / 2 ^ 50)"
    using assms(2) mult_left_mono [OF conjunct1 [OF pw] r0] mult_left_mono [OF conjunct2 [OF pw] r0]
    unfolding approx_def by linarith+
  have "r * (1 + 1 / 2 ^ 50) \<le> r * 2" using r0 by (intro mult_left_mono) simp_all
  moreover have "r \<le> 2 ^ 100" using assms(4) by auto
  ultimately have "?v \<le> 2 ^ 100 * 2" using hi by linarith
  also have "(2 ^ 100 * 2 :: real) < 2 powi 1000" by (simp add: power_int_def)
  finally have "?v < 2 powi 1000" .
  moreover have "n = 0 \<or> 2 powi - 1022 \<le> ?v"
  proof (cases "r = 0")
    case True
    then have "?v \<le> 0" using hi by simp
    then show ?thesis using assms(1) by (simp add: divide_le_0_iff)
  next
    case False
    then have "1 / 2 ^ 100 * (1 - 1 / 2 ^ 50) \<le> r * (1 - 1 / 2 ^ 50 :: real)" using assms(4) by (intro mult_right_mono) auto
    moreover have "2 powi - 1022 \<le> (2 powi - 101 :: real)" by (rule power_int_increasing) simp_all
    moreover have "2 powi - 101 \<le> 1 / 2 ^ 100 * (1 - 1 / 2 ^ 50 :: real)"
      unfolding power_int_minus by (simp add: power_int_def)
    ultimately show ?thesis using lo by linarith
  qed
  ultimately obtain x where x: "round_ratio n d = Some x" "?v * (1 - ulp) \<le> fval x" "fval x \<le> ?v * (1 + ulp)"
    using round_ratio_error [OF assms(1)] by blast
  have "r * (1 - ulp) ^ k * (1 - ulp) \<le> ?v * (1 - ulp)" "?v * (1 + ulp) \<le> r * (1 + ulp) ^ k * (1 + ulp)"
    using assms(2) ulp_bounds unfolding approx_def by (intro mult_right_mono; linarith)+
  then have "approx (Suc k) r (fval x)"
    using x(2,3) unfolding approx_def power_Suc2 mult.assoc [symmetric] by linarith
  then show ?thesis using x(1) by blast
qed

lemma float_ratio_fval: "float_ratio x = (a, b) \<Longrightarrow> 0 < b \<and> real a / real b = fval x"
  by (cases "0 \<le> snd x") (auto simp: float_ratio_def fval_def power_int_def field_simps)

lemma float_ratio_nat: "float_ratio (n, 0) = (n, 1)"
  by (simp add: float_ratio_def)

lemma float_trunc_bounds: "real (float_trunc x) \<le> fval x" "fval x < real (float_trunc x) + 1"
proof -
  obtain m e where x: "x = (m, e)" by (cases x)
  have "real (float_trunc x) \<le> fval x \<and> fval x < real (float_trunc x) + 1"
  proof (cases "0 \<le> e")
    case True
    then show ?thesis by (simp add: x float_trunc_def fval_def power_int_def)
  next
    case False
    let ?d = "2 ^ nat (- e) :: nat"
    have "fval x = real m / real ?d" using False by (simp add: x fval_def power_int_def field_simps)
    moreover have "float_trunc x = m div ?d" using False by (simp add: x float_trunc_def)
    moreover have "\<lfloor>real m / real ?d\<rfloor> = int (m div ?d)" by (rule floor_divide_of_nat_eq)
    then have "real (m div ?d) \<le> real m / real ?d \<and> real m / real ?d < real (m div ?d) + 1"
      by (simp only: floor_eq_iff of_int_of_nat_eq)
    ultimately show ?thesis by simp
  qed
  then show "real (float_trunc x) \<le> fval x" "fval x < real (float_trunc x) + 1" by auto
qed

lemma approx_ratio: "float_ratio x = (a, b) \<Longrightarrow> approx k r (fval x) \<Longrightarrow> approx k r (real a / real b)"
  using float_ratio_fval by auto

definition mid_range :: "real \<Rightarrow> bool" where
  "mid_range r \<longleftrightarrow> r = 0 \<or> 1 / 2 ^ 100 \<le> r \<and> r < 2 ^ 100"

lemma float_of_nat_approx: "n < 2 ^ 64 \<Longrightarrow> \<exists>x. float_of_nat n = Some x \<and> approx 1 (real n) (fval x)"
proof -
  assume n: "n < 2 ^ 64"
  then have "real n < 2 ^ 64" by (metis of_nat_less_iff of_nat_numeral of_nat_power)
  moreover have "n = 0 \<or> 1 \<le> real n" by (cases n) auto
  ultimately have "real n = 0 \<or> 1 / 2 ^ 100 \<le> real n \<and> real n < 2 ^ 100" by auto
  then show ?thesis using approx_round [of 1 0 "real n" n] approx_self [of "real n"] by (simp add: float_of_nat_def)
qed

lemma float_div_approx:
  assumes "approx k r (fval x)" and "0 < c" and "k \<le> 4" and "mid_range (r / real c)"
  shows "\<exists>y. float_div x (c, 0) = Some y \<and> approx (Suc k) (r / real c) (fval y)"
proof -
  obtain a b where ab: "float_ratio x = (a, b)" by fastforce
  have "approx k (1 / real c * r) (1 / real c * fval x)" using assms(1) by (intro approx_scale) simp_all
  then have "approx k (r / real c) (real (a * 1) / real (b * (c * 1)))"
    using float_ratio_fval [OF ab] by (simp flip: divide_divide_eq_left) 
  moreover have "0 < b * c" using float_ratio_fval [OF ab] assms(2) by simp
  ultimately show ?thesis
    using approx_round [of "b * c" k "r / real c" a] assms(3,4) by (simp add: float_div_def ab mid_range_def float_ratio_nat)
qed

lemma float_add_approx:
  assumes "approx k r (fval x)" and "approx k s (fval y)" and "k \<le> 4" and "mid_range (r + s)"
  shows "\<exists>z. float_add x y = Some z \<and> approx (Suc k) (r + s) (fval z)"
proof -
  obtain a b c d where ab: "float_ratio x = (a, b)" "float_ratio y = (c, d)" by fastforce
  note v = float_ratio_fval [OF ab(1)] float_ratio_fval [OF ab(2)]
  have "real (a * d + c * b) / real (b * d) = fval x + fval y"
    using v by (simp add: add_divide_distrib mult.commute)
  then have "approx k (r + s) (real (a * d + c * b) / real (b * d))" using approx_add [OF assms(1,2)] by simp
  moreover have "0 < b * d" using v by simp
  ultimately show ?thesis
    using approx_round [of "b * d" k "r + s" "a * d + c * b"] assms(3,4) by (simp add: float_add_def ab mid_range_def)
qed

lemma float_mul_approx:
  assumes "approx k r (fval x)" and "k \<le> 4" and "mid_range (real c * r)"
  shows "\<exists>z. float_mul (c, 0) x = Some z \<and> approx (Suc k) (real c * r) (fval z)"
proof -
  obtain a b where ab: "float_ratio x = (a, b)" by fastforce
  note v = float_ratio_fval [OF ab]
  have "approx k (real c * r) (real c * fval x)" using assms(1) by (intro approx_scale) simp_all
  then have "approx k (real c * r) (real (c * a) / real b)" using v by (metis of_nat_mult times_divide_eq_right)
  then show ?thesis
    using approx_round [of b k "real c * r" "c * a"] v assms(2,3) by (simp add: float_mul_def ab mid_range_def float_ratio_nat)
qed

lemma Seconds_approx:
  assumes "d < 2 ^ 63"
  shows "\<exists>x. Seconds d = Some x \<and> approx 3 (real d / 1000000000) (fval x)"
proof -
  let ?s = "d div 1000000000" and ?n = "d mod 1000000000"
  have d: "real d = 1000000000 * real ?s + real ?n"
    by (metis div_mult_mod_eq mult.commute of_nat_add of_nat_mult of_nat_numeral)
  have mid_range: "mid_range (real k / 1000000000)" if "k < 2 ^ 63" for k :: nat
  proof -
    have "real k < 2 ^ 63" using that by (metis of_nat_less_iff of_nat_numeral of_nat_power)
    moreover have "k = 0 \<or> 1 \<le> real k" by (cases k) auto
    ultimately show ?thesis by (auto simp: mid_range_def)
  qed
  obtain sec where sec: "float_of_nat ?s = Some sec" "approx 1 (real ?s) (fval sec)"
    using float_of_nat_approx [of ?s] assms by fastforce
  obtain nsec where nsec: "float_of_nat ?n = Some nsec" "approx 1 (real ?n) (fval nsec)"
    using float_of_nat_approx [of ?n] by fastforce
  have n9: "?n < 2 ^ 63" by (rule less_trans [of _ 1000000000]) simp_all
  obtain q where q: "float_div nsec (1000000000, 0) = Some q" "approx 2 (real ?n / 1000000000) (fval q)"
    using float_div_approx [OF nsec(2), of 1000000000] mid_range [OF n9] by (auto simp: numeral_2_eq_2)
  have sec2: "approx 2 (real ?s) (fval sec)" using sec(2) by (rule approx_mono) simp_all
  have "mid_range (real ?s + real ?n / 1000000000)" using mid_range [OF assms] d by (simp add: add_divide_distrib)
  then obtain z where "float_add sec q = Some z" "approx 3 (real ?s + real ?n / 1000000000) (fval z)"
    using float_add_approx [OF sec2 q(2)] by (auto simp: numeral_3_eq_3)
  then show ?thesis using sec(1) nsec(1) q(1) d by (simp add: Seconds_def add_divide_distrib)
qed

text \<open>Three times the seconds, truncated: within a nanosecond-scale error of the exact third.\<close>

lemma triple_seconds:
  assumes "d < 2 ^ 63" and "Option.bind (Seconds d) (float_mul (3, 0)) = Some x"
  shows "real (float_trunc x) \<le> 3 * real d / 1000000000 + 1 / 2" and "3 * real d / 1000000000 - 3 / 2 < real (float_trunc x)"
proof -
  let ?r = "real 3 * (real d / 1000000000)"
  have d: "real d < 2 ^ 63" using assms(1) by (metis of_nat_less_iff of_nat_numeral of_nat_power)
  have "mid_range ?r" using d by (cases d) (auto simp: mid_range_def)
  then have a: "approx 4 ?r (fval x)"
    using Seconds_approx [OF assms(1)] assms(2) float_mul_approx [of 3 "real d / 1000000000" _ 3] by fastforce
  have r: "0 \<le> ?r" "?r \<le> 2 ^ 40" using d by auto
  have "?r * (1 - 1 / 2 ^ 50) \<le> ?r * (1 - ulp) ^ 4" "?r * (1 + ulp) ^ 4 \<le> ?r * (1 + 1 / 2 ^ 50)"
    using approx_powers [of 4] r(1) by (intro mult_left_mono; simp)+
  then have "?r * (1 - 1 / 2 ^ 50) \<le> fval x" "fval x \<le> ?r * (1 + 1 / 2 ^ 50)" using a unfolding approx_def by linarith+
  then have "?r - 1 / 2 \<le> fval x" "fval x \<le> ?r + 1 / 2" using r by (auto simp: algebra_simps)
  then show "real (float_trunc x) \<le> 3 * real d / 1000000000 + 1 / 2" "3 * real d / 1000000000 - 3 / 2 < real (float_trunc x)"
    using float_trunc_bounds [of x] by auto
qed

lemma triple_seconds_total:
  assumes "d < 2 ^ 63"
  shows "\<exists>x. Option.bind (Seconds d) (float_mul (3, 0)) = Some x"
proof -
  have d: "real d < 2 ^ 63" using assms by (metis of_nat_less_iff of_nat_numeral of_nat_power)
  have "mid_range (real 3 * (real d / 1000000000))" using d by (cases d) (auto simp: mid_range_def)
  then show ?thesis using Seconds_approx [OF assms] float_mul_approx [of 3 "real d / 1000000000" _ 3] by fastforce
qed

end
