(* ===== verification/Healthd_Main.thy ===== *)
theory Healthd_Main
  imports Healthd Go_Duration Go_Cmd
begin

text \<open>
  The process side of \<open>control-plane/cmd/healthd/main.go\<close>: the configuration read from the
  environment, with its durations and the default expiry of a status, and \<open>run\<close>, which opens
  Redis and polls every profile in a goroutine of its own.
\<close>

subsection \<open>Definitions\<close>

subsubsection \<open>loadConfig\<close>

record config =
  cg_redisAddr :: string
  cg_profiles :: "string list"
  cg_gluetunBase :: "string \<Rightarrow> string"
  cg_wgIf :: "string \<Rightarrow> string"
  cg_interval :: Duration
  cg_freshness :: Duration
  cg_ttlSeconds :: int
  cg_hostIP :: string
  cg_maxAge :: Duration
  cg_tunnelProxy :: "string \<Rightarrow> string"
  cg_probeTarget :: string
  cg_probeTimeout :: Duration

text \<open>\<open>os\<close> is the process environment, an unset variable being empty.\<close>

definition env_default :: "(string \<Rightarrow> string) \<Rightarrow> string \<Rightarrow> string \<Rightarrow> string" where
  "env_default os k def = (if os k \<noteq> [] then os k else def)"

definition parseDuration :: "string \<Rightarrow> Duration \<Rightarrow> Duration" where
  "parseDuration s def = (case ParseDuration s of Some d \<Rightarrow> if 0 < d then d else def | None \<Rightarrow> def)"

text \<open>\<open>int(3 * interval.Seconds())\<close>, and at least 1.\<close>

definition default_ttl :: "Duration \<Rightarrow> int" where
  "default_ttl interval =
     (let v = (case Option.bind (Seconds (nat interval)) (float_mul (3, 0)) of Some x \<Rightarrow> float_int x | None \<Rightarrow> - (2 ^ 63))
      in if v < 1 then 1 else v)"

definition ttl_seconds :: "(string \<Rightarrow> string) \<Rightarrow> Duration \<Rightarrow> int" where
  "ttl_seconds os interval =
     (case Atoi (os ''HEALTHD_TTL_SECONDS'') of
        Inr v \<Rightarrow> if 0 < v then v else default_ttl interval
      | Inl _ \<Rightarrow> default_ttl interval)"

definition loadConfig :: "(string \<Rightarrow> string) \<Rightarrow> config" where
  "loadConfig os =
     (let interval = parseDuration (env_default os ''HEALTHD_POLL_INTERVAL'' ''5s'') (5 * Second)
      in \<lparr>cg_redisAddr = env_default os ''REDIS_ADDR'' ''127.0.0.1:6379'',
          cg_profiles = splitCSV (env_default os ''HEALTHD_PROFILES'' ''demo''),
          cg_gluetunBase = gluetunBase os,
          cg_wgIf = wgIf os,
          cg_interval = interval,
          cg_freshness = parseDuration (env_default os ''HEALTHD_FRESHNESS'' ''180s'') (180 * Second),
          cg_ttlSeconds = ttl_seconds os interval,
          cg_hostIP = os ''HEALTHD_HOST_IP'',
          cg_maxAge = parseDuration (env_default os ''HEALTHD_REDIS_MAXAGE'' ''60s'') (60 * Second),
          cg_tunnelProxy = tunnelProxy os,
          cg_probeTarget = env_default os ''HEALTHD_LIVENESS_TARGET'' DefaultLivenessTarget,
          cg_probeTimeout = parseDuration (env_default os ''HEALTHD_LIVENESS_TIMEOUT'' ''4s'') (4 * Second)\<rparr>)"

subsubsection \<open>run\<close>

definition sampler_for :: "(string \<Rightarrow> string option) \<Rightarrow> config \<Rightarrow> string \<Rightarrow> liveSampler" where
  "sampler_for url_host c profile =
     \<lparr>ls_ctrl = NewControlClient (cg_gluetunBase c profile), ls_wg = \<lparr>Bin = []\<rparr>,
      ls_ifName = cg_wgIf c profile,
      ls_live = buildLivenessProber url_host (cg_tunnelProxy c profile) (cg_probeTarget c) (cg_probeTimeout c)\<rparr>"

definition poll_config :: "config \<Rightarrow> run_config" where
  "poll_config c = \<lparr>rc_ttlSeconds = cg_ttlSeconds c, rc_hostIP = cg_hostIP c\<rparr>"

text \<open>
  The goroutines, one per listed profile, share the Redis client and nothing else. A run is a
  sequence of ticks in any order, each naming its goroutine and what the tick meets; a tick
  sends commands to the server and reads nothing from it. The result is what each tick wrote,
  the variables of every goroutine and the server.
\<close>

fun interleave ::
  "'r redis \<Rightarrow> run_config \<Rightarrow> DataPlaneEvaluator \<Rightarrow> (string \<times> liveSampler) list \<Rightarrow> (nat \<times> poll_env) list
    \<Rightarrow> (nat \<Rightarrow> prof_state) \<Rightarrow> 'r \<Rightarrow> (nat \<times> HealthSnapshot \<times> (Event \<times> go_error option) option) list \<times> (nat \<Rightarrow> prof_state) \<times> 'r" where
  "interleave srv c ev jobs [] sts r = ([], sts, r)"
| "interleave srv c ev jobs ((i, env) # sched) sts r =
     (if i < length jobs then
        let (cur, e, st', r') = tick srv c (fst (jobs ! i)) (snd (jobs ! i)) ev env (sts i) r;
            (out, sts', r'') = interleave srv c ev jobs sched (sts(i := st')) r'
        in ((i, cur, e) # out, sts', r'')
      else interleave srv c ev jobs sched sts r)"

definition healthd_run ::
  "'r redis \<Rightarrow> (string \<Rightarrow> string option) \<Rightarrow> (string \<Rightarrow> go_error option) \<Rightarrow> config \<Rightarrow> (nat \<times> poll_env) list \<Rightarrow> 'r
    \<Rightarrow> go_error option \<times> (nat \<times> HealthSnapshot \<times> (Event \<times> go_error option) option) list \<times> 'r" where
  "healthd_run srv url_host ping c sched r =
     (case redis_Open (ping (cg_redisAddr c)) (cg_maxAge c) of
        Inl e \<Rightarrow> (Some (Wrap (''open redis '' @ cg_redisAddr c @ '': '') e), [], r)
      | Inr rc \<Rightarrow>
          let jobs = map (\<lambda>p. (p, sampler_for url_host c p)) (cg_profiles c);
              (out, sts, r') = interleave srv (poll_config c) \<lparr>Freshness = cg_freshness c\<rparr> jobs sched (\<lambda>_. prof_init) r
          in (None, out, r'))"

subsubsection \<open>main\<close>

definition healthd_version :: string where "healthd_version = ''0.1.0-phase3''"

text \<open>The command: the ticks of its run, the server after it, and how it ended.\<close>

definition healthd_main ::
  "(nat \<Rightarrow> bool) \<Rightarrow> string \<Rightarrow> 'r redis \<Rightarrow> (string \<Rightarrow> string option) \<Rightarrow> (string \<Rightarrow> go_error option) \<Rightarrow> (string \<Rightarrow> string)
    \<Rightarrow> string list \<Rightarrow> (nat \<times> poll_env) list \<Rightarrow> 'r \<Rightarrow> process_end \<times> (nat \<times> HealthSnapshot \<times> (Event \<times> go_error option) option) list \<times> 'r" where
  "healthd_main wide usage srv url_host ping os args sched r =
     (case Parse wide [(''version'', FBool False)] args of
        Inl e \<Rightarrow> (exit_flags usage e, [], r)
      | Inr (s, _) \<Rightarrow>
          if flag_bool s ''version'' then (exit_ok (''healthd '' @ healthd_version @ [LF]), [], r)
          else (case healthd_run srv url_host ping (loadConfig os) sched r of
              (None, out, r') \<Rightarrow> (exit_ok [], out, r')
            | (Some e, out, r') \<Rightarrow> (exit_error ''healthd'' e, out, r')))"

subsection \<open>Durations of the configuration\<close>

lemma parseDuration_pos: "0 < def \<Longrightarrow> 0 < parseDuration s def"
  by (auto simp: parseDuration_def split: option.split)

lemma parseDuration_max: "def \<le> maxDuration \<Longrightarrow> parseDuration s def \<le> maxDuration"
  using ParseDuration_range by (auto simp: parseDuration_def split: option.split)

lemma parseDuration_terms:
  assumes "ts \<noteq> []" and "list_all (unit_text \<circ> snd) ts" and "0 < (\<Sum>t\<leftarrow>ts. term_ns t)" and "(\<Sum>t\<leftarrow>ts. term_ns t) < 2 ^ 63"
  shows "parseDuration (print_terms ts) def = int (\<Sum>t\<leftarrow>ts. term_ns t)"
  unfolding parseDuration_def using ParseDuration_terms [OF assms(1,2,4)] assms(3) by simp

lemma parse_180s: "ParseDuration ''180s'' = Some (180 * Second)"
proof -
  have "print_terms [(180, ''s'')] = ''180s''" by code_simp
  then show ?thesis
    using ParseDuration_terms [of "[(180, ''s'')]"] by (simp add: term_ns_def unitMap_def unit_text_def Second_def)
qed

lemma float_int_nonneg: "float_trunc x < 2 ^ 63 \<Longrightarrow> float_int x = int (float_trunc x)"
  by (simp add: float_int_def Let_def)

lemma default_ttl_bounds:
  assumes "0 < d" and "d \<le> maxDuration"
  shows "1 \<le> default_ttl d \<and> d < default_ttl d * Second \<and> default_ttl d * Second < 3 * d + Second
    \<and> 3 * d - 2 * Second < default_ttl d * Second"
proof -
  have n: "nat d < 2 ^ 63" and rd: "real (nat d) = real_of_int d" using assms by auto
  obtain x where x: "Option.bind (Seconds (nat d)) (float_mul (3, 0)) = Some x"
    using triple_seconds_total [OF n] by blast
  note b = triple_seconds [OF n x]
  have "real_of_int d < real_of_int (2 ^ 63)" using assms(2) by (subst of_int_less_iff) simp
  then have "real (float_trunc x) < 2 ^ 63" using b(1) rd by simp
  then have "real (float_trunc x) < real (2 ^ 63)" by simp
  then have small: "float_trunc x < 2 ^ 63" by (simp only: of_nat_less_iff)
  have ttl: "default_ttl d = max 1 (int (float_trunc x))"
    using float_int_nonneg [OF small] by (simp add: default_ttl_def x max_def)
  have up: "2 * real (float_trunc x) * 1000000000 \<le> 6 * real_of_int d + 1000000000" using b(1) rd by simp
  have lo: "6 * real_of_int d - 3000000000 < 2 * real (float_trunc x) * 1000000000" using b(2) rd by simp
  have "2 * int (float_trunc x) * 1000000000 \<le> 6 * d + 1000000000"
    using up by (metis (mono_tags) of_int_add of_int_le_iff of_int_mult of_int_numeral of_int_of_nat_eq)
  moreover have "6 * d - 3000000000 < 2 * int (float_trunc x) * 1000000000"
    using lo by (metis (mono_tags) of_int_diff of_int_less_iff of_int_mult of_int_numeral of_int_of_nat_eq)
  ultimately show ?thesis using assms(1) by (simp add: ttl Second_def max_def)
qed

text \<open>A 64-bit count of nanoseconds within its range, and one wrap above it.\<close>

lemma wrap_int64_id: "- (2 ^ 63) \<le> x \<Longrightarrow> x < 2 ^ 63 \<Longrightarrow> wrap_int64 x = x"
  by (simp add: wrap_int64_def)

lemma wrap_int64_neg: "2 ^ 63 \<le> x \<Longrightarrow> x < 2 ^ 64 \<Longrightarrow> wrap_int64 x < 0"
proof -
  assume x: "2 ^ 63 \<le> x" "x < 2 ^ 64"
  then have "(x + 2 ^ 63) mod 2 ^ 64 = x + 2 ^ 63 - 2 ^ 64" by (subst mod_pos_geq) simp_all
  then show "wrap_int64 x < 0" using x by (simp add: wrap_int64_def)
qed

subsection \<open>Goroutines\<close>

text \<open>The part of a schedule, and of what was written, that belongs to goroutine \<open>i\<close>.\<close>

definition mine :: "nat \<Rightarrow> (nat \<times> 'a) list \<Rightarrow> 'a list" where
  "mine i xs = map snd (filter (\<lambda>x. fst x = i) xs)"

lemma mine_simps [simp]: "mine i [] = []" "mine i ((j, x) # xs) = (if j = i then x # mine i xs else mine i xs)"
  by (simp_all add: mine_def)

lemma tick_server_free:
  assumes "tick srv c p s ev env st r = (cur, e, st', r')" and "tick srv c p s ev env st q = (cur2, e2, st2, q')"
  shows "cur2 = cur \<and> map_option fst e2 = map_option fst e \<and> st2 = st'"
  using assms by (auto simp: tick_def Let_def split: prod.splits if_splits)

lemma interleave_jobs:
  "interleave srv c ev jobs sched sts r = (out, sts', r') \<Longrightarrow> fst ` set out \<subseteq> {..<length jobs}"
  by (induction srv c ev jobs sched sts r arbitrary: out rule: interleave.induct) (fastforce split: if_splits prod.splits)+

lemma interleave_mine:
  assumes "i < length jobs" and "interleave srv c ev jobs sched sts r = (out, sts', r')"
    and "runProfile srv c (fst (jobs ! i)) (snd (jobs ! i)) ev (mine i sched) (sts i) q = (curs, evs, st', q')"
  shows "map fst (mine i out) = curs
    \<and> map fst (concat (map (\<lambda>x. case snd x of None \<Rightarrow> [] | Some e \<Rightarrow> [e]) (mine i out))) = map fst evs \<and> sts' i = st'"
  using assms(2,3)
proof (induction sched arbitrary: sts r q out curs evs q')
  case Nil
  then show ?case by auto
next
  case (Cons x sched)
  obtain j env where x: "x = (j, env)" by (cases x)
  show ?case
  proof (cases "j < length jobs")
    case False
    then show ?thesis using Cons assms(1) by (auto simp: x)
  next
    case j: True
    obtain cur e st1 r1 where t: "tick srv c (fst (jobs ! j)) (snd (jobs ! j)) ev env (sts j) r = (cur, e, st1, r1)"
      by (metis prod_cases4)
    obtain out1 where o: "interleave srv c ev jobs sched (sts(j := st1)) r1 = (out1, sts', r')" "out = (j, cur, e) # out1"
      using Cons.prems(1) j t by (auto simp: x split: prod.splits)
    show ?thesis
    proof (cases "j = i")
      case False
      then show ?thesis using Cons.IH [OF o(1)] Cons.prems(2) o(2) by (simp add: x)
    next
      case True
      obtain cur2 e2 st2 q1 where t2: "tick srv c (fst (jobs ! i)) (snd (jobs ! i)) ev env (sts i) q = (cur2, e2, st2, q1)"
        by (metis prod_cases4)
      have same: "cur2 = cur" "map_option fst e2 = map_option fst e" "st2 = st1" using tick_server_free [OF t t2 [folded True]] by (simp_all add: True)
      obtain curs1 evs1 where rp: "runProfile srv c (fst (jobs ! i)) (snd (jobs ! i)) ev (mine i sched) st1 q1 = (curs1, evs1, st', q')"
        and out: "curs = cur # curs1" "evs = (case e2 of None \<Rightarrow> [] | Some e \<Rightarrow> [e]) @ evs1"
        using Cons.prems(2) t2 same by (auto simp: x True split: prod.splits)
      show ?thesis using Cons.IH [OF o(1), of q1 curs1 evs1 q'] rp out o(2) True same(2) by (auto split: option.splits)
    qed
  qed
qed

subsection \<open>Properties\<close>

text \<open>
  C18: with no positive \<open>HEALTHD_TTL_SECONDS\<close>, whatever the other settings say, and with a poll
  interval of up to 854015 hours, the expiry a status key is given is longer than one poll
  interval, so a status does not lapse between two polls on time, and it is less than a second
  longer than three intervals, so a publisher that stops is noticed; the float arithmetic of
  \<open>int(3 * interval.Seconds())\<close> cannot break either bound. For intervals from 854016 to 1708031
  hours the nanoseconds of that default wrap around to a negative number, and the key is
  given no expiry.
\<close>

theorem loadConfig_ttl_bounds:
  assumes "\<forall>v. Atoi (os ''HEALTHD_TTL_SECONDS'') = Inr v \<longrightarrow> v \<le> 0" and "d = cg_interval (loadConfig os)"
    and "expiry = status_ttl (poll_config (loadConfig os))"
  shows "0 < d \<and> (d \<le> 854015 * 3600 * Second \<longrightarrow> d < expiry \<and> expiry < 3 * d + Second)
    \<and> (854016 * 3600 * Second \<le> d \<and> d \<le> 1708031 * 3600 * Second \<longrightarrow> expiry < 0)"
proof -
  let ?ttl = "cg_ttlSeconds (loadConfig os)"
  have d: "0 < d" "d \<le> maxDuration"
    using parseDuration_pos parseDuration_max by (simp_all add: assms(2) loadConfig_def Let_def Second_def)
  have "?ttl = default_ttl d"
    using assms(1,2) by (auto simp: loadConfig_def Let_def ttl_seconds_def split: sum.split)
  then have b: "1 \<le> ?ttl" "d < ?ttl * Second" "?ttl * Second < 3 * d + Second" "3 * d - 2 * Second < ?ttl * Second"
    using default_ttl_bounds [OF d] by simp_all
  have e: "expiry = wrap_int64 (?ttl * Second)" using b(1) by (simp add: assms(3) status_ttl_def poll_config_def)
  have "d \<le> 854015 * 3600 * Second \<Longrightarrow> expiry = ?ttl * Second"
    using b by (simp add: e wrap_int64_id Second_def)
  moreover have "854016 * 3600 * Second \<le> d \<Longrightarrow> d \<le> 1708031 * 3600 * Second \<Longrightarrow> expiry < 0"
    using b by (simp add: e wrap_int64_neg Second_def)
  ultimately show ?thesis using b d by simp
qed

theorem loadConfig_ttl_bounds_witness:
  "cg_interval (loadConfig (\<lambda>_. [])) < status_ttl (poll_config (loadConfig (\<lambda>_. [])))
    \<and> status_ttl (poll_config (loadConfig (\<lambda>_. []))) < 3 * cg_interval (loadConfig (\<lambda>_. [])) + Second"
proof -
  have "ParseDuration ''5s'' = Some (5 * Second)"
  proof -
    have "print_terms [(5, ''s'')] = ''5s''" by code_simp
    then show ?thesis
      using ParseDuration_terms [of "[(5, ''s'')]"] by (simp add: term_ns_def unitMap_def unit_text_def Second_def)
  qed
  then have "cg_interval (loadConfig (\<lambda>_. [])) = 5 * Second"
    by (simp add: loadConfig_def Let_def env_default_def parseDuration_def Second_def)
  then show ?thesis
    using loadConfig_ttl_bounds [OF _ refl refl, of "\<lambda>_. []"] by (simp add: Atoi_def ParseInt_def Second_def)
qed

text \<open>
  Durations are configured as written: a poll interval given as whole numbers with units
  (such as \<open>1h30m\<close>) is read as their sum in nanoseconds when it fits, and an unreadable or
  non-positive setting falls back to its default.
\<close>

theorem loadConfig_durations:
  assumes "ts \<noteq> []" and "list_all (unit_text \<circ> snd) ts"
    and "0 < (\<Sum>t\<leftarrow>ts. term_ns t)" and "(\<Sum>t\<leftarrow>ts. term_ns t) < 2 ^ 63"
    and "os ''HEALTHD_POLL_INTERVAL'' = print_terms ts"
    and "case ParseDuration (os ''HEALTHD_FRESHNESS'') of Some d \<Rightarrow> d \<le> 0 | None \<Rightarrow> True"
  shows "cg_interval (loadConfig os) = int (\<Sum>t\<leftarrow>ts. term_ns t) \<and> cg_freshness (loadConfig os) = 180 * Second"
proof -
  have "print_terms ts \<noteq> []" using print_terms_hd [OF assms(1)] by blast
  moreover have "parseDuration ''180s'' (180 * Second) = 180 * Second" by (simp add: parseDuration_def parse_180s)
  ultimately show ?thesis
    using parseDuration_terms [OF assms(1-4)] assms(5,6)
    by (simp add: loadConfig_def Let_def env_default_def parseDuration_def split: option.splits)
qed

definition ex_os :: "string \<Rightarrow> string" where
  "ex_os k = (if k = ''HEALTHD_POLL_INTERVAL'' then ''1m30s'' else if k = ''HEALTHD_PROFILES'' then ''eu,us'' else [])"

theorem loadConfig_durations_witness:
  "cg_interval (loadConfig ex_os) = 90000000000 \<and> cg_freshness (loadConfig ex_os) = 180 * Second"
proof -
  have "print_terms [(1, ''m''), (30, ''s'')] = ''1m30s''" by code_simp
  then show ?thesis
    using loadConfig_durations [of "[(1, ''m''), (30, ''s'')]" ex_os]
    by (simp add: unit_text_def unitMap_def term_ns_def ex_os_def ParseDuration_def)
qed

text \<open>
  C17: goroutines do not interfere. When Redis answers at start-up the process, started without
  arguments, polls its listed
  profiles and no others (none, if none is listed), and exits with 0 when it is told to stop;
  the snapshots it takes of its \<open>i\<close>-th profile and the events it hands to \<open>PublishEvent\<close> for it are
  then, under every interleaving and whatever the server does with the commands of the others,
  those of a poll loop that has a server to itself. When Redis does not answer, nothing is
  polled or written and it exits with 1.
\<close>

theorem healthd_goroutines_independent:
  assumes "c = loadConfig os"
  shows "case healthd_main wide usage srv url_host ping os [] sched r of (p, out, r') \<Rightarrow>
    if ping (cg_redisAddr c) \<noteq> None then pr_exit p = 1 \<and> out = [] \<and> r' = r
    else pr_exit p = 0 \<and> fst ` set out \<subseteq> {..<length (cg_profiles c)}
      \<and> (\<forall>i < length (cg_profiles c). case runProfile srv (poll_config c) (cg_profiles c ! i) (sampler_for url_host c (cg_profiles c ! i))
          \<lparr>Freshness = cg_freshness c\<rparr> (mine i sched) prof_init q of (curs, evs, _, _) \<Rightarrow>
            map fst (mine i out) = curs
          \<and> map fst (concat (map (\<lambda>x. case snd x of None \<Rightarrow> [] | Some e \<Rightarrow> [e]) (mine i out))) = map fst evs)"
proof -
  let ?jobs = "map (\<lambda>p. (p, sampler_for url_host c p)) (cg_profiles c)" and ?ev = "\<lparr>Freshness = cg_freshness c\<rparr>"
  obtain out sts r' where o: "interleave srv (poll_config c) ?ev ?jobs sched (\<lambda>_. prof_init) r = (out, sts, r')"
    by (metis prod_cases3)
  have main: "healthd_main wide usage srv url_host ping os [] sched r =
      (case ping (cg_redisAddr c) of None \<Rightarrow> (exit_ok [], out, r')
       | Some e \<Rightarrow> (exit_error ''healthd'' (Wrap (''open redis '' @ cg_redisAddr c @ '': '') (Wrap ''redis: ping: '' e)), [], r))"
    by (simp add: healthd_main_def flag_bool_def healthd_run_def redis_Open_def o flip: assms split: option.split)
  have "map fst (mine i out) = curs \<and> map fst (concat (map (\<lambda>x. case snd x of None \<Rightarrow> [] | Some e \<Rightarrow> [e]) (mine i out))) = map fst evs"
    if "i < length (cg_profiles c)" and "runProfile srv (poll_config c) (cg_profiles c ! i) (sampler_for url_host c (cg_profiles c ! i))
      ?ev (mine i sched) prof_init q = (curs, evs, st, q')" for i curs evs st q'
    using interleave_mine [OF _ o, of i q curs evs st q'] that by simp
  then show ?thesis using interleave_jobs [OF o] by (auto simp: main split: option.split prod.split)
qed

theorem healthd_goroutines_independent_witness:
  "map fst (mine 1 (fst (snd (healthd_main (\<lambda>_. True) [] mem_redis Some (\<lambda>_. None) ex_os [] [(1, ex_env), (0, ex_env)] mem_empty))))
    = fst (runProfile mem_redis (poll_config (loadConfig ex_os)) ''us'' (sampler_for Some (loadConfig ex_os) ''us'')
        \<lparr>Freshness = 180 * Second\<rparr> [ex_env] prof_init mem_empty)"
proof -
  have p: "cg_profiles (loadConfig ex_os) = [''eu'', ''us'']"
    by (simp add: loadConfig_def Let_def env_default_def ex_os_def splitCSV_def visible_def)
  have f: "cg_freshness (loadConfig ex_os) = 180 * Second"
    by (simp add: loadConfig_def Let_def env_default_def ex_os_def parseDuration_def parse_180s Second_def)
  show ?thesis
    using healthd_goroutines_independent [where c = "loadConfig ex_os" and os = ex_os and wide = "\<lambda>_. True" and usage = "[]"
        and srv = mem_redis and url_host = Some and ping = "\<lambda>_. None" and sched = "[(1, ex_env), (0, ex_env)]" and r = mem_empty and q = mem_empty]
    by (auto simp: p f split: prod.splits)
qed

text \<open>
  A setting of more than 292 years wraps around: the expiry handed to the client is negative,
  which Redis is never told, so the status key does not expire.
\<close>

lemma huge_ttl_wraps:
  assumes "os ''HEALTHD_TTL_SECONDS'' = ''10000000000''"
  shows "wrap_int64 (cg_ttlSeconds (loadConfig os) * Second) < 0"
proof -
  have "Atoi ''10000000000'' = Inr 10000000000"
    by (simp add: Atoi_def ParseInt_def is_digit_def dec_val_def digit_val_def)
  then show ?thesis using assms by (simp add: loadConfig_def Let_def ttl_seconds_def wrap_int64_def Second_def)
qed

end
