(* ===== verification/Event_Stream.thy ===== *)
theory Event_Stream
  imports Healthd_Main Api_Server "HOL-Library.Sublist"
begin

text \<open>
  The way of a state change: from a poll of \<open>cmd/healthd\<close> through the channel of the Redis
  server and \<open>SubscribeEvents\<close> to the frames of the control API's \<open>GET /events\<close>.
\<close>

subsection \<open>The channel\<close>

text \<open>
  PUBLISH and SUBSCRIBE as documented: \<open>chan\<close> is what was published so far, a message that was
  acknowledged is in it, one that failed may be, and SET publishes nothing.
\<close>

locale redis_pubsub = redis_server srv view
  for srv :: "'r redis" and view :: "'r \<Rightarrow> string \<Rightarrow> entry option" +
  fixes chan :: "'r \<Rightarrow> (string \<times> string) list"
  assumes publish_ok: "rd_Publish srv r now ch m = (None, r') \<Longrightarrow> chan r' = chan r @ [(ch, m)]"
    and publish_failed: "rd_Publish srv r now ch m = (Some e, r') \<Longrightarrow> chan r' = chan r \<or> chan r' = chan r @ [(ch, m)]"
    and set_log: "rd_Set srv r now k v ttl = (x, r') \<Longrightarrow> chan r' = chan r"
begin

lemma SetStatus_log: "SetStatus srv r now snap ttl = (x, r') \<Longrightarrow> chan r' = chan r"
  using set_log by (fastforce simp: SetStatus_def Let_def split: option.splits prod.splits)

lemma PublishEvent_log:
  assumes "PublishEvent srv r now e = (x, r')"
  shows "chan r' = chan r \<and> x \<noteq> None \<or> chan r' = chan r @ [(eventsChannel, marshal_event e)]"
proof (cases "rd_Publish srv r now eventsChannel (marshal_event e)")
  case (Pair y r1)
  then show ?thesis
    using assms publish_ok [of r now eventsChannel "marshal_event e" r1] publish_failed [of r now eventsChannel "marshal_event e" _ r1]
    by (cases y) (auto simp: PublishEvent_def)
qed

end

interpretation mem_pubsub: redis_pubsub mem_redis ms_data ms_published
  by unfold_locales (auto simp: mem_publish_def mem_set_def split: if_splits)

text \<open>The payloads on the event channel between two moments of the server.\<close>

definition published :: "('r \<Rightarrow> (string \<times> string) list) \<Rightarrow> 'r \<Rightarrow> 'r \<Rightarrow> string list" where
  "published chan r r' = map snd (filter (\<lambda>x. fst x = eventsChannel) (drop (length (chan r)) (chan r')))"

definition publishes :: "'r redis \<Rightarrow> bool" where
  "publishes srv \<longleftrightarrow> (\<forall>r now m. fst (rd_Publish srv r now eventsChannel m) = None)"

text \<open>The events handed to \<open>PublishEvent\<close>, by one tick and in a run.\<close>

definition handed :: "(Event \<times> go_error option) option \<Rightarrow> Event list" where
  "handed x = (case x of None \<Rightarrow> [] | Some e \<Rightarrow> [fst e])"

definition events_of :: "(nat \<times> HealthSnapshot \<times> (Event \<times> go_error option) option) list \<Rightarrow> Event list" where
  "events_of out = concat (map (\<lambda>x. handed (snd (snd x))) out)"

lemma events_of_simps [simp]:
  "events_of [] = []" "events_of ((i, cur, e) # out) = handed e @ events_of out"
  by (simp_all add: events_of_def)

subsection \<open>What a run publishes\<close>

lemma tick_log:
  assumes "redis_pubsub srv view chan" and "tick srv c p s ev env st r = (cur, e, st', r')"
  shows "\<exists>es. chan r' = chan r @ map (\<lambda>e. (eventsChannel, marshal_event e)) es
    \<and> subseq es (handed e) \<and> (publishes srv \<longrightarrow> es = handed e)"
proof -
  let ?cur = "pollOnce env p s ev (ps_prev st) (rc_hostIP c)" and ?e = "\<lparr>ev_ProfileID = p, ev_State = hs_State cur\<rparr>"
  have cur: "cur = ?cur" by (rule tick_proj(1) [OF assms(2)])
  obtain x r1 where set: "SetStatus srv r (pe_set_at env) ?cur (rc_ttlSeconds c) = (x, r1)" by fastforce
  note l1 = redis_pubsub.SetStatus_log [OF assms(1) set]
  show ?thesis
  proof (cases "hs_State ?cur = ps_lastReported st")
    case True
    then have "r' = r1" "handed e = []" using assms(2) set by (simp_all add: tick_def Let_def handed_def)
    then show ?thesis using l1 by simp
  next
    case False
    obtain y r2 where p: "PublishEvent srv r1 (pe_publish_at env) ?e = (y, r2)" by fastforce
    then have r': "r' = r2" "handed e = [?e]" using False assms(2) set cur by (auto simp: tick_def Let_def handed_def)
    have ok: "publishes srv \<Longrightarrow> y = None"
      using p by (auto simp: publishes_def PublishEvent_def split: prod.splits option.splits) (metis fst_conv option.distinct(1))
    from redis_pubsub.PublishEvent_log [OF assms(1) p] show ?thesis
    proof
      assume "chan r2 = chan r1 \<and> y \<noteq> None"
      then show ?thesis using r' l1 ok by (intro exI [of _ "[]"]) auto
    next
      assume "chan r2 = chan r1 @ [(eventsChannel, marshal_event ?e)]"
      then show ?thesis using r' l1 by (intro exI [of _ "[?e]"]) simp
    qed
  qed
qed

lemma interleave_log:
  assumes "redis_pubsub srv view chan"
  shows "interleave srv c ev jobs sched sts r = (out, sts', r') \<Longrightarrow>
    \<exists>es. chan r' = chan r @ map (\<lambda>e. (eventsChannel, marshal_event e)) es
      \<and> subseq es (events_of out) \<and> (publishes srv \<longrightarrow> es = events_of out)"
proof (induction sched arbitrary: sts r out)
  case (Cons x sched)
  obtain j env where x: "x = (j, env)" by (cases x)
  show ?case
  proof (cases "j < length jobs")
    case True
    obtain cur e st1 r1 where t: "tick srv c (fst (jobs ! j)) (snd (jobs ! j)) ev env (sts j) r = (cur, e, st1, r1)"
      by (metis prod_cases4)
    obtain out1 where o: "interleave srv c ev jobs sched (sts(j := st1)) r1 = (out1, sts', r')" "out = (j, cur, e) # out1"
      using Cons.prems True t by (auto simp: x split: prod.splits)
    obtain es1 where 1: "chan r1 = chan r @ map (\<lambda>e. (eventsChannel, marshal_event e)) es1"
      "subseq es1 (handed e)" "publishes srv \<longrightarrow> es1 = handed e"
      using tick_log [OF assms t] by blast
    obtain es2 where 2: "chan r' = chan r1 @ map (\<lambda>e. (eventsChannel, marshal_event e)) es2"
      "subseq es2 (events_of out1)" "publishes srv \<longrightarrow> es2 = events_of out1"
      using Cons.IH [OF o(1)] by blast
    show ?thesis
      using 1 2 list_emb_append_mono [OF 1(2) 2(2)] by (intro exI [of _ "es1 @ es2"]) (auto simp: o(2))
  next
    case False
    then show ?thesis using Cons by (simp add: x)
  qed
qed simp

lemma interleave_entries:
  "interleave srv c ev jobs sched sts r = (out, sts', r') \<Longrightarrow> (j, cur, e) \<in> set out \<Longrightarrow>
    j < length jobs \<and> (\<forall>x \<in> set (handed e). ev_ProfileID x = fst (jobs ! j) \<and> ev_State x \<in> {StateUp, StateDown})"
proof (induction sched arbitrary: sts r out)
  case (Cons x sched)
  obtain k env where x: "x = (k, env)" by (cases x)
  show ?case
  proof (cases "k < length jobs")
    case True
    obtain cur' e' st1 r1 where t: "tick srv c (fst (jobs ! k)) (snd (jobs ! k)) ev env (sts k) r = (cur', e', st1, r1)"
      by (metis prod_cases4)
    obtain out1 where o: "interleave srv c ev jobs sched (sts(k := st1)) r1 = (out1, sts', r')" "out = (k, cur', e') # out1"
      using Cons.prems True t by (auto simp: x split: prod.splits)
    have "hs_State cur' \<in> {StateUp, StateDown}" using pollOnce_two_valued tick_proj(1) [OF t] by blast
    then show ?thesis
      using Cons.IH [OF o(1)] Cons.prems(2) o(2) True tick_proj(2) [OF t] by (auto simp: handed_def split: if_splits option.splits)
  next
    case False
    then have "interleave srv c ev jobs sched sts r = (out, sts', r')" using Cons.prems(1) by (simp add: x)
    then show ?thesis using Cons.IH Cons.prems(2) by blast
  qed
qed simp

text \<open>The events of one profile, picked out of all of them.\<close>

lemma events_of_profile:
  assumes "distinct names" and "i < length names"
    and "\<And>j cur e. (j, cur, e) \<in> set out \<Longrightarrow> j < length names \<and> (\<forall>x \<in> set (handed e). ev_ProfileID x = names ! j)"
  shows "filter (\<lambda>e. ev_ProfileID e = names ! i) (events_of out)
    = map fst (concat (map (\<lambda>x. case snd x of None \<Rightarrow> [] | Some e \<Rightarrow> [e]) (mine i out)))"
  using assms(3)
proof (induction out)
  case (Cons a out)
  obtain j cur e where a: "a = (j, cur, e)" by (metis prod_cases3)
  have j: "j < length names" "\<And>x. x \<in> set (handed e) \<Longrightarrow> ev_ProfileID x = names ! j" using Cons.prems [of j cur e] a by auto
  have "names ! j = names ! i \<longleftrightarrow> j = i" using assms(1,2) j(1) by (simp add: nth_eq_iff_index_eq)
  moreover have "filter (\<lambda>e. ev_ProfileID e = names ! i) (events_of out)
      = map fst (concat (map (\<lambda>x. case snd x of None \<Rightarrow> [] | Some e \<Rightarrow> [e]) (mine i out)))"
    by (rule Cons.IH) (use Cons.prems in auto)
  ultimately show ?case using j(2) by (cases e) (simp_all add: a handed_def)
qed simp

subsection \<open>What a subscriber sees\<close>

lemma subseq_mapD: "subseq xs (map f ys) \<Longrightarrow> \<exists>zs. subseq zs ys \<and> xs = map f zs"
proof (induction ys arbitrary: xs)
  case (Cons y ys)
  show ?case
  proof (cases xs)
    case (Cons x xs')
    show ?thesis
    proof (cases "x = f y")
      case True
      then have "subseq xs' (map f ys)" using Cons.prems \<open>xs = x # xs'\<close> by simp
      then obtain zs where "subseq zs ys" "xs' = map f zs" using Cons.IH by blast
      then show ?thesis using True \<open>xs = x # xs'\<close> by (intro exI [of _ "y # zs"]) simp
    next
      case False
      then have "subseq xs (map f ys)" using Cons.prems \<open>xs = x # xs'\<close> by simp
      then show ?thesis using Cons.IH by (meson subseq_Cons' subseq_order.order_trans list_emb_Cons)
    qed
  qed (intro exI [of _ "[]"], simp)
qed (auto elim: list_emb.cases)

lemma events_loop_frames:
  "events_loop (map (\<lambda>e. Arrived e True) es) = map (\<lambda>e. ''data: '' @ marshal_event e @ [LF, LF]) es"
  by (induction es) simp_all

text \<open>
  Redis delivers to a subscriber at most once and in order: what it got is a subsequence of
  what was published.
\<close>

lemma subscriber_events:
  assumes "redis_pubsub srv view chan" and "interleave srv c ev jobs sched sts r = (out, sts', r')"
    and "\<forall>job \<in> set jobs. valid_utf8 (fst job)" and "subseq delivered (published chan r r')"
  shows "subseq (SubscribeEvents delivered) (events_of out)"
    and "publishes srv \<Longrightarrow> delivered = published chan r r' \<Longrightarrow> SubscribeEvents delivered = events_of out"
proof -
  obtain es where es: "chan r' = chan r @ map (\<lambda>e. (eventsChannel, marshal_event e)) es" "subseq es (events_of out)"
    "publishes srv \<longrightarrow> es = events_of out"
    using interleave_log [OF assms(1,2)] by blast
  have pub: "published chan r r' = map marshal_event es" by (simp add: published_def es(1) comp_def filter_map)
  have utf: "valid_utf8 (ev_ProfileID e) \<and> valid_utf8 (ev_State e)" if e: "e \<in> set (events_of out)" for e
  proof -
    from e obtain j cur x where "(j, cur, x) \<in> set out" and x: "e \<in> set (handed x)" by (auto simp: events_of_def)
    from interleave_entries [OF assms(2) this(1)] show ?thesis
      using assms(3) x by (auto simp: StateUp_def StateDown_def visible_utf8 visible_def)
  qed
  obtain ds where ds: "subseq ds es" "delivered = map marshal_event ds" using subseq_mapD assms(4) unfolding pub by blast
  have sub: "subseq ds (events_of out)" using ds(1) es(2) by (rule subseq_order.order_trans)
  have "e \<in> set (events_of out)" if "e \<in> set ds" for e using list_emb_set [OF sub that] by blast
  then have "SubscribeEvents delivered = ds" using SubscribeEvents_delivers [of ds] utf ds(2) by blast
  then show "subseq (SubscribeEvents delivered) (events_of out)" using sub by simp
  show "SubscribeEvents delivered = events_of out" if "publishes srv" "delivered = published chan r r'"
    using that es(3) utf SubscribeEvents_delivers [of "events_of out"] by (simp add: pub)
qed

subsection \<open>Properties\<close>

text \<open>
  C22: the live stream tells the truth. A client that reads \<open>GET /events\<close> while \<open>healthd\<close> runs
  gets frames whose events of a profile are, in order, among the changes of that profile's
  polled state, whatever the interleaving of the profiles and whichever publications or
  deliveries are lost; and when none is lost, they are exactly those changes, each once.
\<close>

theorem event_stream_shows_changes:
  assumes "redis_pubsub srv view chan" and "c = loadConfig os" and "ping (cg_redisAddr c) = None"
    and "distinct (cg_profiles c)" and "\<forall>p \<in> set (cg_profiles c). valid_utf8 p" and "i < length (cg_profiles c)"
    and "healthd_main wide usage srv url_host ping os [] sched r = (fin, out, r')"
    and "subseq delivered (published chan r r')"
  shows "\<exists>es. snd (events True None (map (\<lambda>e. Arrived e True) (SubscribeEvents delivered)))
      = map (\<lambda>e. ''data: '' @ marshal_event e @ [LF, LF]) es
    \<and> (let changes = map (\<lambda>x. \<lparr>ev_ProfileID = cg_profiles c ! i, ev_State = x\<rparr>)
            (tl (remdups_adj (StateUnknown # map (\<lambda>x. hs_State (fst x)) (mine i out))));
          mine = filter (\<lambda>e. ev_ProfileID e = cg_profiles c ! i) es
       in subseq mine changes
        \<and> (publishes srv \<and> delivered = published chan r r' \<longrightarrow> mine = changes))"
proof -
  let ?ev = "\<lparr>Freshness = cg_freshness c\<rparr>"
  let ?jobs = "map (\<lambda>p. (p, sampler_for url_host c p)) (cg_profiles c)"
  obtain sts where il: "interleave srv (poll_config c) ?ev ?jobs sched (\<lambda>_. prof_init) r = (out, sts, r')"
    using assms(2,3,7) by (auto simp: healthd_main_def flag_bool_def healthd_run_def redis_Open_def Let_def split: prod.splits)
  obtain curs evs st q where rp: "runProfile srv (poll_config c) (cg_profiles c ! i) (sampler_for url_host c (cg_profiles c ! i))
      ?ev (mine i sched) prof_init r = (curs, evs, st, q)" by (metis prod_cases4)
  have i: "i < length ?jobs" using assms(6) by simp
  have job: "?jobs ! i = (cg_profiles c ! i, sampler_for url_host c (cg_profiles c ! i))" using assms(6) by simp
  have m: "map fst (mine i out) = curs" "map fst (concat (map (\<lambda>x. case snd x of None \<Rightarrow> [] | Some e \<Rightarrow> [e]) (mine i out))) = map fst evs"
    using interleave_mine [OF i il, of r curs evs st q] rp job by simp_all
  have "filter (\<lambda>e. ev_ProfileID e = cg_profiles c ! i) (events_of out) = map fst evs"
    using events_of_profile [OF assms(4,6), of out] interleave_entries [OF il] m(2) by fastforce
  also have "map fst evs = map (\<lambda>x. \<lparr>ev_ProfileID = cg_profiles c ! i, ev_State = x\<rparr>) (tl (remdups_adj (StateUnknown # map hs_State curs)))"
    using runProfile_events [OF rp] by (simp add: prof_init_def)
  finally have ch: "filter (\<lambda>e. ev_ProfileID e = cg_profiles c ! i) (events_of out)
      = map (\<lambda>x. \<lparr>ev_ProfileID = cg_profiles c ! i, ev_State = x\<rparr>)
          (tl (remdups_adj (StateUnknown # map (\<lambda>x. hs_State (fst x)) (mine i out))))"
    by (simp add: m(1) [symmetric] comp_def)
  have u: "\<forall>job \<in> set ?jobs. valid_utf8 (fst job)" using assms(5) by simp
  note sub = subscriber_events [OF assms(1) il u assms(8)]
  have "snd (events True None (map (\<lambda>e. Arrived e True) (SubscribeEvents delivered)))
      = map (\<lambda>e. ''data: '' @ marshal_event e @ [LF, LF]) (SubscribeEvents delivered)"
    by (simp add: events_def events_loop_frames)
  then show ?thesis
    using subseq_filter [OF sub(1), of "\<lambda>e. ev_ProfileID e = cg_profiles c ! i"] sub(2) ch
    by (intro exI [of _ "SubscribeEvents delivered"]) (simp add: Let_def)
qed

text \<open>A server that is never down.\<close>

definition up_redis :: "mem_state redis" where
  "up_redis = \<lparr>rd_Get = (\<lambda>m. mem_get (m\<lparr>ms_down := False\<rparr>)), rd_Set = (\<lambda>m. mem_set (m\<lparr>ms_down := False\<rparr>)),
     rd_Publish = (\<lambda>m. mem_publish (m\<lparr>ms_down := False\<rparr>))\<rparr>"

interpretation up_pubsub: redis_pubsub up_redis ms_data ms_published
  by unfold_locales (auto simp: up_redis_def mem_get_def mem_publish_def mem_set_def split: if_splits option.splits)

theorem event_stream_shows_changes_witness:
  "\<exists>fin cur e r' es. healthd_main (\<lambda>_. True) [] up_redis Some (\<lambda>_. None) ex_os [] [(0, ex_env)] mem_empty = (fin, [(0, cur, e)], r')
    \<and> snd (events True None (map (\<lambda>e. Arrived e True) (SubscribeEvents (published ms_published mem_empty r'))))
      = map (\<lambda>e. ''data: '' @ marshal_event e @ [LF, LF]) es
    \<and> filter (\<lambda>e. ev_ProfileID e = ''eu'') es = [\<lparr>ev_ProfileID = ''eu'', ev_State = hs_State cur\<rparr>]"
proof -
  have p: "cg_profiles (loadConfig ex_os) = [''eu'', ''us'']"
    by (simp add: loadConfig_def Let_def env_default_def ex_os_def splitCSV_def visible_def)
  let ?c = "loadConfig ex_os"
  obtain cur e st r' where t: "tick up_redis (poll_config ?c) ''eu'' (sampler_for Some ?c ''eu'') \<lparr>Freshness = cg_freshness ?c\<rparr> ex_env prof_init mem_empty
      = (cur, e, st, r')" by (metis prod_cases4)
  then have main: "healthd_main (\<lambda>_. True) [] up_redis Some (\<lambda>_. None) ex_os [] [(0, ex_env)] mem_empty = (exit_ok [], [(0, cur, e)], r')"
    by (simp add: healthd_main_def flag_bool_def healthd_run_def redis_Open_def p)
  have pub: "publishes up_redis" by (simp add: publishes_def up_redis_def mem_publish_def)
  have "hs_State cur \<in> {StateUp, StateDown}" using tick_proj(1) [OF t] pollOnce_two_valued by blast
  then have ch: "tl (remdups_adj [StateUnknown, hs_State cur]) = [hs_State cur]"
    by (auto simp: StateUp_def StateDown_def StateUnknown_def)
  have u: "\<forall>p \<in> set (cg_profiles ?c). valid_utf8 p" by (simp add: p visible_utf8 visible_def)
  show ?thesis
    using event_stream_shows_changes [OF up_pubsub.redis_pubsub_axioms refl _ _ u _ main, of 0 "published ms_published mem_empty r'"] main pub ch
    by (auto simp: p Let_def)
qed

end
