(* ===== verification/Squid_Gate.thy ===== *)
theory Squid_Gate
  imports Routing Acl_Helper
begin

text \<open>
  The rendered include in its place: the access rules of the deployed configuration
  (\<open>config/squid/squid.dynamic.conf\<close>) with the compiler's file where its \<open>include\<close> line stands. How
  Squid evaluates such rules is a parameter with the documented laws of \<open>http_access\<close>, the
  locale \<open>squid_access\<close>; the helper's reply decides the access-list \<open>tun_up\<close>.
\<close>

subsection \<open>Definitions\<close>

text \<open>
  The lines of the deployed file with the keyword \<open>http_access\<close>; it has none with the keywords
  \<open>never_direct\<close>, \<open>always_direct\<close>, \<open>cache_peer\<close> and \<open>cache_peer_access\<close>.
\<close>

definition squid_base :: "string list" where
  "squid_base =
     [''http_access deny !Safe_ports'', ''http_access deny CONNECT !SSL_ports'',
      ''http_access allow localhost manager'', ''http_access deny manager'', ''http_access allow localhost'']"

definition squid_config :: "string \<Rightarrow> string list" where
  "squid_config inc = squid_base @ directives inc @ [''http_access deny all'']"

text \<open>A line as words, and the lines of a keyword.\<close>

abbreviation words :: "string \<Rightarrow> string list" where
  "words l \<equiv> Split l (CHR '' '')"

definition lines_of :: "string \<Rightarrow> string list \<Rightarrow> string list" where
  "lines_of k ds = filter (\<lambda>l. hd (words l) = k) ds"

subsection \<open>What is relied on of Squid\<close>

text \<open>
  \<open>admits m ds\<close>: whether a request is let in by the rules \<open>ds\<close>, \<open>m\<close> telling which access-lists it
  matches. As documented of \<open>http_access\<close>: the rules are tried in order, one applies if all its
  access-lists match, an exclamation mark negating, and the first that applies decides; lines
  of other keywords play no part. (What happens when no rule applies is left open.)
\<close>

definition acl_matches :: "(string \<Rightarrow> bool) \<Rightarrow> string \<Rightarrow> bool" where
  "acl_matches m a = (case a of c # n \<Rightarrow> if c = CHR ''!'' then \<not> m n else m a | [] \<Rightarrow> False)"

locale squid_access =
  fixes admits :: "(string \<Rightarrow> bool) \<Rightarrow> string list \<Rightarrow> bool"
  assumes applies: "words l = ''http_access'' # action # acls \<Longrightarrow> action \<in> {''allow'', ''deny''} \<Longrightarrow> acls \<noteq> []
      \<Longrightarrow> list_all (acl_matches m) acls \<Longrightarrow> admits m (l # ls) \<longleftrightarrow> action = ''allow''"
    and passes: "words l = ''http_access'' # action # acls \<Longrightarrow> action \<in> {''allow'', ''deny''} \<Longrightarrow> acls \<noteq> []
      \<Longrightarrow> \<not> list_all (acl_matches m) acls \<Longrightarrow> lines_of ''http_access'' ls \<noteq> [] \<Longrightarrow> admits m (l # ls) \<longleftrightarrow> admits m ls"
    and other_keyword: "hd (words l) \<noteq> ''http_access'' \<Longrightarrow> admits m (l # ls) \<longleftrightarrow> admits m ls"
begin

lemma skip: "lines_of ''http_access'' xs = [] \<Longrightarrow> admits m (xs @ ys) \<longleftrightarrow> admits m ys"
  using other_keyword by (induction xs) (auto simp: lines_of_def split: if_splits)

lemma rule_line:
  assumes "hd (words l) = ''http_access''" and "2 < length (words l)" and "words l ! 1 \<in> {''allow'', ''deny''}"
    and "lines_of ''http_access'' ls \<noteq> []"
  shows "admits m (l # ls) \<longleftrightarrow> (if list_all (acl_matches m) (drop 2 (words l)) then words l ! 1 = ''allow'' else admits m ls)"
proof -
  obtain action acls where w: "words l = ''http_access'' # action # acls" "acls \<noteq> []"
    using assms(1,2) by (cases "words l" rule: remdups_adj.cases) auto
  then show ?thesis using applies [OF w(1) _ w(2)] passes [OF w(1) _ w(2) _ assms(4)] assms(3) by simp
qed

text \<open>The rules before the include, for a request the base alone does not decide, and those after it.\<close>

lemma base:
  assumes "lines_of ''http_access'' ls \<noteq> []"
  shows "admits m (squid_base @ ls) \<longleftrightarrow> m ''Safe_ports'' \<and> (m ''CONNECT'' \<longrightarrow> m ''SSL_ports'')
    \<and> (if m ''manager'' then m ''localhost'' else m ''localhost'' \<or> admits m ls)"
  using assms unfolding squid_base_def
  by (simp add: rule_line lines_of_def acl_matches_def)

lemma gate:
  assumes "m ''all''"
  shows "admits m [''never_direct allow all'', ''http_access deny !tun_up'', ''http_access allow localnet'',
      ''deny_info 503:ERR_TUNNEL_DOWN tun_up'', ''http_access deny all''] \<longleftrightarrow> m ''tun_up'' \<and> m ''localnet''"
proof -
  have "\<not> admits m [''http_access deny all'']"
    using applies [of "''http_access deny all''" "''deny''" "[''all'']" m] assms by (simp add: acl_matches_def)
  then show ?thesis by (simp add: rule_line other_keyword lines_of_def acl_matches_def)
qed

end

text \<open>An evaluator of such rules, which refuses when no rule applies.\<close>

fun first_match :: "(string \<Rightarrow> bool) \<Rightarrow> string list \<Rightarrow> bool" where
  "first_match m [] = False"
| "first_match m (l # ls) =
     (case words l of
        k # action # acls \<Rightarrow>
          if k = ''http_access'' \<and> list_all (acl_matches m) acls then action = ''allow'' else first_match m ls
      | _ \<Rightarrow> first_match m ls)"

interpretation first_match: squid_access first_match
  by unfold_locales (auto split: list.splits)

text \<open>The first word of a helper's reply says whether the access-list matches.\<close>

definition helper_ok :: "string \<Rightarrow> bool" where
  "helper_ok reply = (case Fields reply of w # _ \<Rightarrow> w = ''OK'' | [] \<Rightarrow> False)"

subsection \<open>The helper's reply\<close>

lemma helper_ok_reply: "helper_ok (FormatReply [] ok tag) \<longleftrightarrow> ok"
proof -
  have sp: "ascii_space LF" by (simp add: ascii_space_def)
  have v: "visible_string ''OK''" "visible_string ''ERR''" by (simp_all add: visible_def)
  note w = Fields_word_Cons [OF v(1) _ ascii_space_blank] Fields_word_Cons [OF v(1) _ sp] Fields_word_Cons [OF v(2) _ sp]
  show ?thesis using w by (simp add: helper_ok_def FormatReply_def)
qed

lemma helper_ok_decides:
  assumes "visible_string raw" and "raw \<noteq> []" and "encodes raw host" and "visible_string host"
  shows "helper_ok (reply_for turn T (raw @ [LF])) \<longleftrightarrow> fst (Decide (tn_bus turn T) host)"
proof -
  have "ParseLine (raw @ [LF]) = \<lparr>rq_Channel = [], rq_Host = host\<rparr>"
    using ParseLine_serial [OF assms(1,2)] PathUnescape_encodes [OF assms(3)] assms(4) by simp
  moreover have "fst (decideWithTimeout (tn_bus turn) host T) = fst (Decide (tn_bus turn T) host)"
    by (simp add: decideWithTimeout_def Decide_def)
  ultimately show ?thesis
    by (simp add: reply_for_def case_prod_beta helper_ok_reply)
qed

subsection \<open>Reading the configuration\<close>

lemma Split_word: "CHR '' '' \<notin> set w \<Longrightarrow> words (w @ CHR '' '' # r) = w # words r"
  by (simp add: Split_append)

lemma token_no_blank: "list_all token_char s \<Longrightarrow> CHR '' '' \<notin> set s"
  using token_char_visible by (fastforce simp: list_all_iff visible_def)

lemma tunnel_name_no_blank: "CHR '' '' \<notin> set (tn_Name (tunnel_of p))"
  using token_no_blank [OF sanitizeToken_token(1)] by simp

lemma lines_of_append: "lines_of k (xs @ ys) = lines_of k xs @ lines_of k ys"
  by (simp add: lines_of_def)

text \<open>The keywords of a tunnel's lines, and the words of the first.\<close>

lemma peer_keywords:
  "lines_of k (peer_directives t) = (if k = ''cache_peer'' then [hd (peer_directives t)]
     else if k = ''cache_peer_access'' then tl (peer_directives t) else [])"
proof -
  have "hd (words (''cache_peer '' @ r)) = ''cache_peer''" "hd (words (''cache_peer_access '' @ r)) = ''cache_peer_access''" for r
    using Split_word [of "''cache_peer''" r] Split_word [of "''cache_peer_access''" r] by simp_all
  then show ?thesis by (auto simp: lines_of_def peer_directives_def)
qed

lemma peers_keywords:
  "k \<notin> {''cache_peer'', ''cache_peer_access''} \<Longrightarrow> lines_of k (concat (map peer_directives ts)) = []"
  "lines_of ''cache_peer'' (concat (map peer_directives ts)) = map (\<lambda>t. hd (peer_directives t)) ts"
  by (induction ts) (simp_all add: lines_of_append peer_keywords, simp_all add: lines_of_def)

lemma digits_no_blank: "CHR '' '' \<notin> set (show_int n)"
proof -
  have "CHR '' '' \<notin> set (show_nat k)" for k using show_nat_digits [of k] by (auto simp: list_all_iff is_digit_def)
  then show ?thesis by (simp add: show_int_def)
qed

lemma peer_words:
  assumes "CHR '' '' \<notin> set (tn_PeerHost t)" and "CHR '' '' \<notin> set (tn_Name t)"
  shows "words (hd (peer_directives t)) = [''cache_peer'', tn_PeerHost t, ''parent'', show_int (tn_PeerPort t), ''0'', ''no-query'', ''name='' @ tn_Name t]"
proof -
  have l: "hd (peer_directives t) = Join [''cache_peer'', tn_PeerHost t, ''parent'', show_int (tn_PeerPort t), ''0'', ''no-query'', ''name='' @ tn_Name t] '' ''"
    by (simp add: peer_directives_def)
  show ?thesis unfolding l by (rule Split_Join) (use assms digits_no_blank in auto)
qed

text \<open>The tunnels, in the order of the names of their profiles.\<close>

lemma sort_key_map: "sort_key f (map g xs) = map g (sort_key (\<lambda>x. f (g x)) xs)"
proof (induction xs)
  case (Cons x xs)
  have "insort_key f (g y) (map g zs) = map g (insort_key (\<lambda>x. f (g x)) y zs)" for y zs by (induction zs) simp_all
  then show ?case using Cons by simp
qed simp

lemma ResolveTunnels_by_name: "ResolveTunnels ps = map tunnel_of (sort_key vp_Name (filter vp_Enabled ps))"
  by (simp add: ResolveTunnels_def sort_key_map)

lemma config_lines:
  assumes "LF \<notin> set helper" and "helper \<noteq> []" and "list_all tunnel_ok ts"
  shows "squid_config (RenderSquidInclude helper ts) = squid_base
    @ ([''external_acl_type vpn_route ttl=0 negative_ttl=0 %>ha{Host} '' @ helper, ''acl tun_up external vpn_route'']
    @ concat (map peer_directives ts))
    @ [''never_direct allow all'', ''http_access deny !tun_up'', ''http_access allow localnet'',
       ''deny_info 503:ERR_TUNNEL_DOWN tun_up'', ''http_access deny all'']"
  by (simp add: squid_config_def directives_RenderSquidInclude [OF assms(1,3,2)])

lemma include_keywords:
  assumes "k \<notin> {''external_acl_type'', ''acl''}"
  shows "lines_of k ([''external_acl_type vpn_route ttl=0 negative_ttl=0 %>ha{Host} '' @ helper, ''acl tun_up external vpn_route'']
    @ concat (map peer_directives ts)) = lines_of k (concat (map peer_directives ts))"
  using assms Split_word [of "''external_acl_type''"] by (auto simp: lines_of_def)

text \<open>
  The file as lines, whatever newlines its values hold: a value with a newline is several
  lines, and what stands between two newlines of it is a line of its own.
\<close>

lemma Split_pieces: "Split (x @ c # y) c = Split x c @ Split y c"
  by (induction x) (auto split: list.split)

lemma directives_unlines: "directives (unlines ls) = concat (map directives ls)"
proof (induction ls)
  case (Cons l ls)
  have "unlines (l # ls) = l @ LF # unlines ls" by (simp add: unlines_def)
  then show ?case using Cons by (simp add: directives_def Split_pieces)
qed (simp add: unlines_def directives_def directive_def)

lemma directives_pieces:
  "LF \<notin> set a \<Longrightarrow> LF \<notin> set b \<Longrightarrow> directive a \<Longrightarrow> directive b \<Longrightarrow> directives (a @ LF # b @ LF # r) = [a, b] @ directives r"
  by (simp add: directives_def Split_append)

lemma directives_lines: "list_all (\<lambda>l. LF \<notin> set l) ls \<Longrightarrow> concat (map directives ls) = filter directive ls"
  by (induction ls) (simp_all add: directives_def Split_single)

subsection \<open>Properties\<close>

text \<open>
  C20: what the deployed configuration with the rendered include tells Squid. For every
  evaluation of access rules as Squid documents them, with the helper answering the line Squid
  writes for the request's host: a request from the proxy's own machine is let in by the port
  and manager rules of the base file alone; one from another client is let in exactly when it
  passes those, comes from the local network and the helper allows its host. The only line on
  going to an origin directly says never, to all. And the peers declared are those of the
  enabled profiles, in the order of their names, one well-formed line each. (The helper's
  path is not empty and holds no newline, no peer host holds a blank or a newline; \<open>raw\<close> is the host as Squid escapes it.)
\<close>

theorem squid_gate:
  assumes "squid_access admits" and "LF \<notin> set helper" and "helper \<noteq> []"
    and "\<forall>p \<in> set ps. vp_Enabled p \<longrightarrow> LF \<notin> set (fst (peerEndpoint p)) \<and> CHR '' '' \<notin> set (fst (peerEndpoint p))"
    and "visible_string raw" and "raw \<noteq> []" and "encodes raw host" and "visible_string host"
    and "m ''all''" and "m ''tun_up'' = helper_ok (reply_for turn T (raw @ [LF]))"
    and "conf = squid_config (RenderSquidInclude helper (ResolveTunnels ps))"
  shows "(admits m conf \<longleftrightarrow> m ''Safe_ports'' \<and> (m ''CONNECT'' \<longrightarrow> m ''SSL_ports'')
      \<and> (if m ''manager'' then m ''localhost'' else m ''localhost'' \<or> fst (Decide (tn_bus turn T) host) \<and> m ''localnet''))
    \<and> lines_of ''never_direct'' conf = [''never_direct allow all''] \<and> lines_of ''always_direct'' conf = []
    \<and> map words (lines_of ''cache_peer'' conf) = map (\<lambda>p. [''cache_peer'', fst (peerEndpoint p), ''parent'', show_int (snd (peerEndpoint p)),
        ''0'', ''no-query'', ''name=tun_'' @ sanitizeToken (vp_Name p)]) (sort_key vp_Name (filter vp_Enabled ps))"
proof -
  let ?ts = "ResolveTunnels ps"
  let ?top = "[''external_acl_type vpn_route ttl=0 negative_ttl=0 %>ha{Host} '' @ helper, ''acl tun_up external vpn_route'']"
  have host: "LF \<notin> set (tn_PeerHost t) \<and> CHR '' '' \<notin> set (tn_PeerHost t)" if "t \<in> set ?ts" for t
    using that assms(4) by (auto simp: ResolveTunnels_set)
  have name: "CHR '' '' \<notin> set (tn_Name t)" if "t \<in> set ?ts" for t
    using that tunnel_name_no_blank by (auto simp: ResolveTunnels_set)
  have "list_all tunnel_ok ?ts" using assms(4) by (auto simp: list_all_iff ResolveTunnels_set tunnel_ok_resolved)
  note conf = config_lines [OF assms(2,3) this, folded assms(11)]
  have kw: "lines_of k (?top @ concat (map peer_directives ?ts)) = lines_of k (concat (map peer_directives ?ts))"
    if "k \<in> {''http_access'', ''never_direct'', ''always_direct'', ''cache_peer''}" for k
    using that by (intro include_keywords) auto
  have none: "lines_of k (?top @ concat (map peer_directives ?ts)) = []" if "k \<in> {''http_access'', ''never_direct'', ''always_direct''}" for k
  proof -
    have "k \<notin> {''cache_peer'', ''cache_peer_access''}" using that by auto
    note peers = peers_keywords(1) [OF this, of ?ts]
    have "k \<in> {''http_access'', ''never_direct'', ''always_direct'', ''cache_peer''}" using that by blast
    then show ?thesis using peers by (rule trans [OF kw])
  qed
  have "m ''tun_up'' = fst (Decide (tn_bus turn T) host)"
    using helper_ok_decides [OF assms(5-8)] assms(10) by simp
  moreover have "lines_of ''http_access'' (?top @ concat (map peer_directives ?ts)) = []" by (rule none) simp
  note skip = squid_access.skip [OF assms(1) this, of m]
  have "admits m conf \<longleftrightarrow> m ''Safe_ports'' \<and> (m ''CONNECT'' \<longrightarrow> m ''SSL_ports'')
      \<and> (if m ''manager'' then m ''localhost'' else m ''localhost'' \<or> m ''tun_up'' \<and> m ''localnet'')"
    unfolding conf
    by (subst squid_access.base [OF assms(1)]) (simp add: lines_of_def, simp only: skip squid_access.gate [OF assms(1), of m, OF assms(9)])
  moreover have "lines_of ''never_direct'' conf = [''never_direct allow all'']" "lines_of ''always_direct'' conf = []"
    unfolding conf lines_of_append [of _ squid_base] lines_of_append [of _ "?top @ concat (map peer_directives ?ts)"]
    by (simp_all only: none insert_iff simp_thms, simp_all add: lines_of_def squid_base_def)
  moreover have "lines_of ''cache_peer'' conf = map (\<lambda>t. hd (peer_directives t)) ?ts"
    unfolding conf lines_of_append [of _ squid_base] lines_of_append [of _ "?top @ concat (map peer_directives ?ts)"]
    by (simp only: kw insert_iff simp_thms peers_keywords(2)) (simp add: lines_of_def squid_base_def)
  then have "map words (lines_of ''cache_peer'' conf) = map (\<lambda>t. [''cache_peer'', tn_PeerHost t, ''parent'', show_int (tn_PeerPort t),
      ''0'', ''no-query'', ''name='' @ tn_Name t]) ?ts"
    using peer_words [OF conjunct2 [OF host] name] by (simp add: comp_def cong: map_cong)
  ultimately show ?thesis by (simp add: ResolveTunnels_by_name)
qed

definition us_profile :: VPNProfile where
  "us_profile = eu_profile\<lparr>vp_ID := ''id-us'', vp_Name := ''us''\<rparr>"

definition wiki_turn :: turn where
  "wiki_turn = idle_turn\<lparr>tn_bus := (\<lambda>_. \<lparr>bus_GetRoute = (\<lambda>h. Inr \<lparr>rt_Target = h, rt_Tunnel = ''eu'', rt_Tier = 0, rt_BreakerState = ''closed''\<rparr>),
     bus_GetStatus = (\<lambda>p. ((down_snapshot p 0)\<lparr>hs_State := if p = ''eu'' then StateUp else StateDown\<rparr>, None))\<rparr>)\<rparr>"

text \<open>The helper names \<open>eu\<close>; the peers of both tunnels are declared.\<close>

theorem squid_gate_witness:
  "first_match (\<lambda>a. a \<in> {''all'', ''tun_up'', ''Safe_ports'', ''localnet''})
      (squid_config (RenderSquidInclude ''/bin/helper'' (ResolveTunnels [us_profile, eu_profile])))
    \<and> map last (map words (lines_of ''cache_peer'' (squid_config (RenderSquidInclude ''/bin/helper'' (ResolveTunnels [us_profile, eu_profile])))))
      = [''name=tun_eu'', ''name=tun_us'']"
proof -
  let ?m = "\<lambda>a. a \<in> {''all'', ''tun_up'', ''Safe_ports'', ''localnet''}"
  have v: "visible_string ''wiki.helix''" by (simp add: visible_def)
  have e: "encodes ''wiki.helix'' ''wiki.helix''" by (intro enc_lit enc_nil) simp_all
  have d: "Decide (tn_bus wiki_turn 5) ''wiki.helix'' = (True, ''eu'')" by (simp add: wiki_turn_def Decide_def)
  have t: "sanitizeToken ''eu'' = ''eu''" "sanitizeToken ''us'' = ''us''" by code_simp+
  have p: "\<forall>p \<in> set [us_profile, eu_profile]. vp_Enabled p \<longrightarrow> LF \<notin> set (fst (peerEndpoint p)) \<and> CHR '' '' \<notin> set (fst (peerEndpoint p))"
    by (simp add: us_profile_def eu_profile_def peerEndpoint_default t)
  have m: "?m ''tun_up'' = helper_ok (reply_for wiki_turn 5 (''wiki.helix'' @ [LF]))"
    using helper_ok_decides [OF v _ e v] d by simp
  have "sort_key vp_Name (filter vp_Enabled [us_profile, eu_profile]) = [eu_profile, us_profile]"
    by (simp add: us_profile_def eu_profile_def)
  moreover have "vp_Name eu_profile = ''eu''" "vp_Name us_profile = ''us''" by (simp_all add: us_profile_def eu_profile_def)
  ultimately show ?thesis
    using squid_gate [where m = ?m, OF first_match.squid_access_axioms _ _ p v _ e v _ m refl, of "''/bin/helper''"] d t by simp
qed

text \<open>
  C21: nothing checks a configured \<open>peer_host\<close> for newlines, and one that holds some adds lines of
  its own to the include: for an enabled profile whose configuration gives a port and, as its
  peer host, a host followed by the rest of a well-formed declaration, a newline, any directive, a newline and a number sign, that
  directive stands in the file as a line, right after a \<open>cache_peer\<close> line for the host and before
  the line that asks the helper, whatever other profiles there are.
\<close>

theorem peer_host_escapes:
  assumes "p \<in> set ps" and "vp_Enabled p" and "LF \<notin> set x" and "LF \<notin> set d" and "directive d"
    and "h = x @ '' parent 3128 0'' @ [LF] @ d @ [LF] @ ''#''" and "valid_utf8 h"
    and "vp_Config p = print_json (JObj [(''peer_host'', JStr h), (''peer_port'', JNum (show_nat n))])"
    and "0 < n" and "n < 65536"
  shows "\<exists>pre post. directives (RenderSquidInclude helper (ResolveTunnels ps))
      = pre @ [''cache_peer '' @ x @ '' parent 3128 0'', d] @ post \<and> ''http_access deny !tun_up'' \<in> set post"
proof -
  let ?t = "tunnel_of p"
  have "peerEndpoint p = (h, int n)"
    using peerEndpoint_reads_config [OF assms(7) _ assms(9) _, of p False] assms(6,8,10) by simp
  then have host: "fst (peerEndpoint p) = (x @ '' parent 3128 0'') @ LF # d @ LF # ''#''" using assms(6) by simp
  have "?t \<in> set (ResolveTunnels ps)" using assms(1,2) by (simp add: ResolveTunnels_set)
  then obtain ts us where ts: "ResolveTunnels ps = ts @ ?t # us" by (meson split_list)
  define c where "c = (''cache_peer '' @ x @ '' parent 3128 0'') @ LF # d @ LF # (''# parent '' @ show_int (tn_PeerPort ?t)
      @ '' 0 no-query name='' @ tn_Name ?t)"
  obtain a b where lines: "squid_tunnel_lines ?t = a @ [c] @ b"
    by (rule that [of "take 2 (squid_tunnel_lines ?t)" "drop 3 (squid_tunnel_lines ?t)"]) (simp add: squid_tunnel_lines_def host c_def)
  have "\<exists>rest. directives c = [''cache_peer '' @ x @ '' parent 3128 0'', d] @ rest"
    unfolding c_def by (rule exI, rule directives_pieces) (use assms(3-5) in \<open>simp_all add: directive_def\<close>)
  then obtain rest where c: "directives c = [''cache_peer '' @ x @ '' parent 3128 0'', d] @ rest" by blast
  let ?h = "if helper = [] then ''/usr/lib/helix-proxy/acl-helper'' else helper"
  let ?top = "squid_head @ [''external_acl_type vpn_route ttl=0 negative_ttl=0 %>ha{Host} '' @ ?h, ''acl tun_up external vpn_route'']"
  have "RenderSquidInclude helper (ResolveTunnels ps) = unlines ((?top @ concat (map squid_tunnel_lines ts) @ a) @ [c]
      @ (b @ concat (map squid_tunnel_lines us)) @ squid_tail)"
    by (simp add: RenderSquidInclude_def ts lines)
  then have "directives (RenderSquidInclude helper (ResolveTunnels ps)) = concat (map directives (?top @ concat (map squid_tunnel_lines ts) @ a))
      @ directives c @ concat (map directives (b @ concat (map squid_tunnel_lines us))) @ filter directive squid_tail"
    by (simp only: directives_unlines map_append concat_append list.map concat.simps append_Nil2 directives_lines [OF squid_tail_lines(1)])
  moreover have "''http_access deny !tun_up'' \<in> set (rest @ concat (map directives (b @ concat (map squid_tunnel_lines us))) @ filter directive squid_tail)"
    by (simp add: squid_tail_lines(2))
  ultimately show ?thesis unfolding c append_assoc by blast
qed

theorem peer_host_escapes_witness:
  "\<exists>pre post. directives (RenderSquidInclude ''/bin/helper'' (ResolveTunnels [us_profile,
     eu_profile\<lparr>vp_Config := print_json (JObj [(''peer_host'', JStr (''gw'' @ '' parent 3128 0'' @ [LF] @ ''http_access allow all''
        @ [LF] @ ''#'')), (''peer_port'', JNum (show_nat 3128))])\<rparr>]))
      = pre @ [''cache_peer '' @ ''gw'' @ '' parent 3128 0'', ''http_access allow all''] @ post \<and> ''http_access deny !tun_up'' \<in> set post"
  by (rule peer_host_escapes [OF _ _ _ _ _ refl, where n = 3128 and p = "eu_profile\<lparr>vp_Config := print_json (JObj [(''peer_host'',
        JStr (''gw'' @ '' parent 3128 0'' @ [LF] @ ''http_access allow all'' @ [LF] @ ''#'')), (''peer_port'', JNum (show_nat 3128))])\<rparr>"])
    (simp_all add: eu_profile_def valid_utf8_ascii directive_def)

end
