(* ===== verification/Research_Proxy.thy ===== *)
theory Research_Proxy
  imports Acl_Helper
begin

text \<open>
  The prototype of \<open>docs/research/mvp/proxy-vpn-extension\<close> (\<open>internal/vpn/manager.go\<close>,
  \<open>internal/proxy/handler.go\<close>), from which the control plane grew: a manager that announces
  tunnels on the same Redis keys, and an HTTP handler that proxies behind them. Its package
  \<open>internal/db\<close> is not in the repository: its two queries are arguments. What is shown is the
  handler's gate, and that the control plane's helper does not trust what the manager writes.
\<close>

subsection \<open>Definitions\<close>

subsubsection \<open>manager.go\<close>

record proto_Profile =
  mp_ID :: string
  mp_Name :: string
  mp_Config :: "(string \<times> json) list"

record proto_Manager =
  mg_profiles :: "string \<Rightarrow> proto_Profile option"

definition NewManager :: proto_Manager where
  "NewManager = \<lparr>mg_profiles = Map.empty\<rparr>"

text \<open>The two commands that announce a state; their outcomes are not looked at.\<close>

definition announce :: "'r redis \<Rightarrow> string \<Rightarrow> string \<Rightarrow> time \<Rightarrow> time \<Rightarrow> 'r \<Rightarrow> 'r" where
  "announce srv pid status set_at pub_at r =
     (let r1 = snd (rd_Set srv r set_at (''vpn:status:'' @ pid) status (15 * Second))
      in snd (rd_Publish srv r1 pub_at ''vpn:events''
           (''{'' @ [CHR 0x22] @ ''profile_id'' @ [CHR 0x22] @ '':'' @ [CHR 0x22] @ pid @ [CHR 0x22] @ '',''
            @ [CHR 0x22] @ ''status'' @ [CHR 0x22] @ '':'' @ [CHR 0x22] @ status @ [CHR 0x22] @ ''}'')))"

definition ApplyProfile ::
  "'r redis \<Rightarrow> time \<Rightarrow> time \<Rightarrow> proto_Profile \<Rightarrow> proto_Manager \<Rightarrow> 'r \<Rightarrow> go_error option \<times> proto_Manager \<times> 'r" where
  "ApplyProfile srv set_at pub_at p m r =
     (None, m\<lparr>mg_profiles := (mg_profiles m)(mp_ID p \<mapsto> p)\<rparr>, announce srv (mp_ID p) ''up'' set_at pub_at r)"

definition RemoveProfile ::
  "'r redis \<Rightarrow> time \<Rightarrow> time \<Rightarrow> string \<Rightarrow> proto_Manager \<Rightarrow> 'r \<Rightarrow> go_error option \<times> proto_Manager \<times> 'r" where
  "RemoveProfile srv set_at pub_at pid m r =
     (None, m\<lparr>mg_profiles := (mg_profiles m)(pid := None)\<rparr>, announce srv pid ''down'' set_at pub_at r)"

subsubsection \<open>handler.go\<close>

text \<open>The fields of the rows the handler reads, and the two queries.\<close>

record proto_target =
  pt_VpnProfileID :: "string option"
  pt_PrivateIP :: string
  pt_Port :: int

record 'i proto_db =
  pd_GetRuleByHost :: "string \<Rightarrow> 'i result"
  pd_GetTargetHost :: "'i \<Rightarrow> proto_target result"

text \<open>
  An answer of the handler itself with its status and message, or the address the request is
  proxied to. The error of \<open>url.Parse\<close> is dropped, so an address that is no URL leaves a nil
  pointer behind which the proxy dereferences.
\<close>

datatype proxied = Answer nat string | Forward string | Panic

definition proxy_status :: "'r redis \<Rightarrow> 'r \<Rightarrow> time \<Rightarrow> string \<Rightarrow> string" where
  "proxy_status srv r now pid =
     (case rd_Get srv r now (''vpn:status:'' @ pid) of GetBytes b \<Rightarrow> b | _ \<Rightarrow> [])"

definition remote_url :: "proto_target \<Rightarrow> string" where
  "remote_url t = ''http://'' @ pt_PrivateIP t @ '':'' @ show_int (pt_Port t)"

definition ProxyRequest ::
  "'r redis \<Rightarrow> (string \<Rightarrow> bool) \<Rightarrow> 'i proto_db \<Rightarrow> 'r \<Rightarrow> time \<Rightarrow> string \<Rightarrow> proxied" where
  "ProxyRequest srv url_ok db r now host =
     (case pd_GetRuleByHost db host of
        Inl _ \<Rightarrow> Answer 404 ''no route''
      | Inr rule \<Rightarrow>
          (case pd_GetTargetHost db rule of
             Inl _ \<Rightarrow> Answer 500 ''target not found''
           | Inr target \<Rightarrow>
               if (case pt_VpnProfileID target of None \<Rightarrow> False | Some pid \<Rightarrow> proxy_status srv r now pid \<noteq> ''up'')
               then Answer 503 ''VPN tunnel down''
               else if url_ok (remote_url target) then Forward (remote_url target)
               else Panic))"

subsection \<open>The keys the manager writes\<close>

lemma proto_key: "''vpn:status:'' @ pid = StatusKey pid"
  by (simp add: StatusKey_def statusKeyPrefix_def)

lemma announce_view:
  assumes "redis_server srv view"
  shows "view (announce srv pid status set_at pub_at r) = view r
    \<or> view (announce srv pid status set_at pub_at r) = (view r)(StatusKey pid \<mapsto> entry_for status set_at (15 * Second))"
proof -
  let ?s = "rd_Set srv r set_at (StatusKey pid) status (15 * Second)"
  have "view (announce srv pid status set_at pub_at r) = view (snd ?s)"
    unfolding announce_def Let_def proto_key by (metis redis_server.publish [OF assms] prod.collapse)
  then show ?thesis using redis_server.set_cases [OF assms, of r set_at "StatusKey pid" status "15 * Second" "fst ?s" "snd ?s"] by simp
qed

text \<open>The bare word is no JSON value, so the status bus of the control plane reads it as down.\<close>

lemma proto_status_undecodable: "unmarshal_status ''up'' = None" "unmarshal_status ''down'' = None"
  by code_simp+

subsection \<open>A life of the manager\<close>

datatype manager_op = Apply time time proto_Profile | Remove time time string

fun manager_run :: "'r redis \<Rightarrow> manager_op list \<Rightarrow> proto_Manager \<Rightarrow> 'r \<Rightarrow> proto_Manager \<times> 'r" where
  "manager_run srv [] m r = (m, r)"
| "manager_run srv (Apply s p x # ops) m r = (case ApplyProfile srv s p x m r of (_, m', r') \<Rightarrow> manager_run srv ops m' r')"
| "manager_run srv (Remove s p x # ops) m r = (case RemoveProfile srv s p x m r of (_, m', r') \<Rightarrow> manager_run srv ops m' r')"

definition bare_words :: "(string \<Rightarrow> entry option) \<Rightarrow> bool" where
  "bare_words keys \<longleftrightarrow> (\<forall>p en. keys (StatusKey p) = Some en \<longrightarrow> fst en \<in> {''up'', ''down''})"

lemma bare_words_upd: "bare_words keys \<Longrightarrow> fst en \<in> {''up'', ''down''} \<Longrightarrow> bare_words (keys(k \<mapsto> en))"
  unfolding bare_words_def map_upd_Some_unfold by blast

lemma announce_bare_words:
  assumes "redis_server srv view" and "bare_words (view r)" and "status \<in> {''up'', ''down''}"
  shows "bare_words (view (announce srv pid status set_at pub_at r))"
proof -
  have "fst (entry_for status set_at (15 * Second)) \<in> {''up'', ''down''}" using assms(3) by (simp add: entry_for_def)
  note new = bare_words_upd [OF assms(2) this]
  show ?thesis using announce_view [OF assms(1), of pid status set_at pub_at r] assms(2) new by (elim disjE) simp_all
qed

lemma manager_run_bare_words:
  assumes "redis_server srv view" and "bare_words (view r)"
  shows "bare_words (view (snd (manager_run srv ops m r)))"
  using assms
  by (induction srv ops m r rule: manager_run.induct)
    (simp_all add: ApplyProfile_def RemoveProfile_def announce_bare_words)

subsection \<open>Properties\<close>

text \<open>
  The handler's gate: a request is proxied exactly when its host has a rule, the rule a target
  with a well-formed address, and the target either names no tunnel or one whose status key
  holds the word "up" at that moment. A target without a tunnel is proxied unchecked.
\<close>

theorem ProxyRequest_forwards_iff:
  "ProxyRequest srv url_ok db r now host = Forward url \<longleftrightarrow>
     (\<exists>rule target. pd_GetRuleByHost db host = Inr rule \<and> pd_GetTargetHost db rule = Inr target
        \<and> (\<forall>pid. pt_VpnProfileID target = Some pid \<longrightarrow> rd_Get srv r now (StatusKey pid) = GetBytes ''up'')
        \<and> url_ok url \<and> url = remote_url target)"
  by (auto simp: ProxyRequest_def proxy_status_def StatusKey_def statusKeyPrefix_def split: sum.splits option.splits get_reply.splits)

text \<open>
  C36: the control plane does not take the prototype's word. Whatever profiles the prototype's
  manager applied and removed, in whatever order, on a Redis that held no status: the helper
  allows no request on what it wrote, although the prototype's own handler would proxy it. Both
  use the same keys, but the word the manager writes is not a health snapshot.
\<close>

theorem helper_ignores_prototype:
  assumes "redis_server srv view" and "\<forall>p. view r0 (StatusKey p) = None"
  shows "\<not> fst (Decide (redis_bus srv c r1 t1 (snd (manager_run srv ops NewManager r0)) t2) host)"
proof
  let ?r = "snd (manager_run srv ops NewManager r0)"
  assume "fst (Decide (redis_bus srv c r1 t1 ?r t2) host)"
  then obtain tag where "Decide (redis_bus srv c r1 t1 ?r t2) host = (True, tag)" by (metis prod.collapse)
  from Decide_redis [OF assms(1) this] obtain b snap where b: "live (view ?r (StatusKey tag)) t2 = Some b"
    and u: "unmarshal_status b = Some snap" by blast
  have "bare_words (view r0)" using assms(2) by (simp add: bare_words_def)
  with b have "b \<in> {''up'', ''down''}"
    using manager_run_bare_words [OF assms(1), of r0 ops NewManager]
    by (fastforce simp: bare_words_def live_def split: option.splits if_splits)
  then show False using u proto_status_undecodable by auto
qed

definition proto_eu :: proto_Profile where
  "proto_eu = \<lparr>mp_ID = ''eu'', mp_Name = ''Europe'', mp_Config = []\<rparr>"

definition proto_tables :: "unit proto_db" where
  "proto_tables = \<lparr>pd_GetRuleByHost = (\<lambda>_. Inr ()),
     pd_GetTargetHost = (\<lambda>_. Inr \<lparr>pt_VpnProfileID = Some ''eu'', pt_PrivateIP = ''10.0.0.7'', pt_Port = 80\<rparr>)\<rparr>"

theorem helper_ignores_prototype_witness:
  "\<not> fst (Decide (redis_bus mem_redis \<lparr>maxAge = 0\<rparr> (snd (manager_run mem_redis [Apply 1 1 proto_eu] NewManager mem_empty)) 2
        (snd (manager_run mem_redis [Apply 1 1 proto_eu] NewManager mem_empty)) 2) ''wiki.helix'')
    \<and> ProxyRequest mem_redis (\<lambda>_. True) proto_tables (snd (manager_run mem_redis [Apply 1 1 proto_eu] NewManager mem_empty)) 2
        ''wiki.helix'' = Forward ''http://10.0.0.7:80''"
proof
  show "\<not> fst (Decide (redis_bus mem_redis \<lparr>maxAge = 0\<rparr> (snd (manager_run mem_redis [Apply 1 1 proto_eu] NewManager mem_empty)) 2
        (snd (manager_run mem_redis [Apply 1 1 proto_eu] NewManager mem_empty)) 2) ''wiki.helix'')"
    by (rule helper_ignores_prototype [OF mem.redis_server_axioms]) (simp add: mem_empty_def)
  have port: "show_nat 80 = ''80''" by code_simp
  show "ProxyRequest mem_redis (\<lambda>_. True) proto_tables (snd (manager_run mem_redis [Apply 1 1 proto_eu] NewManager mem_empty)) 2
        ''wiki.helix'' = Forward ''http://10.0.0.7:80''"
    by (simp add: ProxyRequest_def proxy_status_def proto_tables_def ApplyProfile_def announce_def Let_def proto_eu_def
        mem_set_def mem_publish_def mem_get_def mem_empty_def live_def entry_for_def Second_def remote_url_def show_int_def port)
qed

end
