(* ===== verification/Acl_Main.thy ===== *)
theory Acl_Main
  imports Acl_Helper Go_Duration Go_Cmd
begin

text \<open>
  The process side of \<open>control-plane/cmd/acl-helper/main.go\<close>: the command line, the settings
  read from the environment, the PING that must succeed before a line is read, and the loop.
\<close>

subsection \<open>Definitions\<close>

definition envOr :: "(string \<Rightarrow> string) \<Rightarrow> string \<Rightarrow> string \<Rightarrow> string" where
  "envOr os key def = (if os key \<noteq> [] then os key else def)"

definition envDuration :: "(string \<Rightarrow> string) \<Rightarrow> string \<Rightarrow> Duration \<Rightarrow> Duration" where
  "envDuration os key def =
     (if os key \<noteq> [] then (case ParseDuration (os key) of Some d \<Rightarrow> d | None \<Rightarrow> def) else def)"

text \<open>
  \<open>ping\<close> is how the PING to an address ends within a timeout; \<open>turns\<close> is what each turn of the
  loop meets, with the lookups of the client just opened.
\<close>

definition acl_run ::
  "(string \<Rightarrow> string) \<Rightarrow> (string \<Rightarrow> Duration \<Rightarrow> go_error option) \<Rightarrow> (Client \<Rightarrow> nat \<Rightarrow> turn) \<Rightarrow> string
    \<Rightarrow> string list \<times> go_error option" where
  "acl_run os ping turns inp =
     (let addr = envOr os ''REDIS_ADDR'' ''127.0.0.1:6379'';
          age = envDuration os ''REDIS_STATUS_MAX_AGE'' 0;
          dialTimeout = envDuration os ''REDIS_DIAL_TIMEOUT'' (5 * Second);
          reqTimeout = envDuration os ''ACL_REQUEST_TIMEOUT'' (2 * Second)
      in case redis_Open (ping addr dialTimeout) age of
          Inl e \<Rightarrow> ([], Some (Wrap (''connect redis '' @ addr @ '': '') e))
        | Inr bus \<Rightarrow> loop (turns bus) reqTimeout 0 inp)"

definition acl_version :: string where "acl_version = ''0.1.0-p5''"

text \<open>The command: the lines it answered on its standard output, and how it ended.\<close>

definition acl_main ::
  "(nat \<Rightarrow> bool) \<Rightarrow> string \<Rightarrow> (string \<Rightarrow> string) \<Rightarrow> (string \<Rightarrow> Duration \<Rightarrow> go_error option) \<Rightarrow> (Client \<Rightarrow> nat \<Rightarrow> turn)
    \<Rightarrow> string list \<Rightarrow> string \<Rightarrow> string list \<times> process_end" where
  "acl_main wide usage os ping turns args inp =
     (case Parse wide [(''version'', FBool False)] args of
        Inl e \<Rightarrow> ([], exit_flags usage e)
      | Inr (s, _) \<Rightarrow>
          if flag_bool s ''version'' then ([], exit_ok (''acl-helper '' @ acl_version @ [LF]))
          else (case acl_run os ping turns inp of
              (replies, None) \<Rightarrow> (replies, exit_ok (concat replies))
            | (replies, Some e) \<Rightarrow> (replies, (exit_error ''acl-helper'' e)\<lparr>pr_stdout := concat replies\<rparr>)))"

subsection \<open>Replies\<close>

text \<open>
  Turns whose lookups go to a Redis server: turn \<open>i\<close> reads the route and then the status, each
  at a moment of its own.
\<close>

definition on_redis ::
  "'r redis \<Rightarrow> (nat \<Rightarrow> 'r \<times> time) \<Rightarrow> (nat \<Rightarrow> 'r \<times> time) \<Rightarrow> (Client \<Rightarrow> nat \<Rightarrow> turn) \<Rightarrow> bool" where
  "on_redis srv route_at status_at turns \<longleftrightarrow>
     (\<forall>c i T. tn_bus (turns c i) T
        = redis_bus srv c (fst (route_at i)) (snd (route_at i)) (fst (status_at i)) (snd (status_at i)))"

text \<open>At time \<open>t\<close> the key of the tunnel holds an "up" status at most \<open>age\<close> old (0: of any age).\<close>

definition recent_up :: "(string \<Rightarrow> entry option) \<Rightarrow> time \<Rightarrow> Duration \<Rightarrow> string \<Rightarrow> bool" where
  "recent_up keys t age tag \<longleftrightarrow>
     (\<exists>b snap. live (keys (StatusKey tag)) t = Some b \<and> unmarshal_status b = Some snap
        \<and> hs_State snap = StateUp \<and> (age \<le> 0 \<or> Sub t (hs_CheckedAt snap) \<le> age))"

lemma Decide_recent:
  assumes "redis_server srv view" and "Decide (redis_bus srv c r1 t1 r2 t2) host = (True, tag)"
  shows "tag \<noteq> [] \<and> recent_up (view r2) t2 (maxAge c) tag"
proof -
  have "tag \<noteq> []" using assms(2) by (simp add: Decide_True)
  moreover obtain sb snap where "live (view r2 (StatusKey tag)) t2 = Some sb" "unmarshal_status sb = Some snap"
    "hs_State snap = StateUp" "\<not> (0 < maxAge c \<and> maxAge c < Sub t2 (hs_CheckedAt snap))"
    using Decide_redis [OF assms] by blast
  ultimately show ?thesis unfolding recent_up_def by (metis not_less)
qed

lemma reply_for_redis:
  assumes "redis_server srv view" and "tn_bus tn T = redis_bus srv c r1 t1 r2 t2"
  shows "reply_for tn T line = FormatReply (rq_Channel (ParseLine line)) False []
    \<or> (\<exists>tag. reply_for tn T line = FormatReply (rq_Channel (ParseLine line)) True tag
          \<and> tag \<noteq> [] \<and> recent_up (view r2) t2 (maxAge c) tag)"
proof -
  let ?host = "rq_Host (ParseLine line)" and ?bus = "redis_bus srv c r1 t1 r2 t2"
  obtain ok tag where d: "decideWithTimeout (tn_bus tn) ?host T = (ok, tag)" by fastforce
  then have r: "reply_for tn T line = FormatReply (rq_Channel (ParseLine line)) ok tag"
    by (simp add: reply_for_def Let_def)
  show ?thesis
  proof (cases ok)
    case False
    then have "tag = []" using d Decide_False by (auto simp: decideWithTimeout_def split: if_splits)
    then show ?thesis using r False by simp
  next
    case True
    then have "Decide ?bus ?host = (True, tag)" using d assms(2) by (auto simp: decideWithTimeout_def split: if_splits)
    then have "tag \<noteq> [] \<and> recent_up (view r2) t2 (maxAge c) tag" by (rule Decide_recent [OF assms(1)])
    then show ?thesis using r True by auto
  qed
qed

lemma replies_from_nth:
  "j < length lines \<Longrightarrow> replies_from turns T i lines ! j = reply_for (turns (i + j)) T (lines ! j)"
  by (induction lines arbitrary: i j) (auto simp: less_Suc_eq_0_disj)

lemma loop_nth:
  assumes "j < length (fst (loop turns T 0 inp))"
  shows "fst (loop turns T 0 inp) ! j = reply_for (turns j) T (input_lines inp ! j)"
proof -
  from loop_prefix [of turns T 0 inp] obtain zs
    where zs: "replies_from turns T 0 (input_lines inp) = fst (loop turns T 0 inp) @ zs" by (auto elim: prefixE)
  then have "j < length (input_lines inp)" using assms length_replies_from by (metis length_append trans_less_add1)
  then show ?thesis using replies_from_nth [of j "input_lines inp" turns T 0] zs assms by (simp add: nth_append)
qed

lemma acl_main_replies: "fst (acl_main wide usage os ping turns args inp) \<in> {[], fst (acl_run os ping turns inp)}"
  by (auto simp: acl_main_def split: sum.splits prod.splits option.splits)

lemma acl_main_plain:
  "acl_main wide usage os ping turns [] inp = (case acl_run os ping turns inp of
     (replies, None) \<Rightarrow> (replies, exit_ok (concat replies))
   | (replies, Some e) \<Rightarrow> (replies, (exit_error ''acl-helper'' e)\<lparr>pr_stdout := concat replies\<rparr>))"
  by (simp add: acl_main_def flag_bool_def)

lemma acl_main_plain_fst: "fst (acl_main wide usage os ping turns [] inp) = fst (acl_run os ping turns inp)"
  by (simp add: acl_main_plain split: prod.splits option.splits)

subsection \<open>Properties\<close>

text \<open>
  C19: the configured maximum age holds for the whole process: with \<open>REDIS_STATUS_MAX_AGE\<close>
  set to a positive duration, every line the helper writes, however it was started, is either
  a refusal or names a tunnel whose status, at the moment it was read, was present, "up" and no
  older than that duration, however long the TTL of the key is. When the PING fails at start-up
  the helper exits with status 1 and answers nothing.
\<close>

theorem acl_main_max_age:
  assumes "redis_server srv view" and "on_redis srv route_at status_at turns"
    and "ts \<noteq> []" and "list_all (unit_text \<circ> snd) ts"
    and "0 < (\<Sum>t\<leftarrow>ts. term_ns t)" and "(\<Sum>t\<leftarrow>ts. term_ns t) < 2 ^ 63"
    and "os ''REDIS_STATUS_MAX_AGE'' = print_terms ts"
  shows "(\<forall>j < length (fst (acl_main wide usage os ping turns args inp)).
      let channel = rq_Channel (ParseLine (input_lines inp ! j)); reply = fst (acl_main wide usage os ping turns args inp) ! j
      in reply = FormatReply channel False []
       \<or> (\<exists>tag. reply = FormatReply channel True tag \<and> tag \<noteq> []
            \<and> recent_up (view (fst (status_at j))) (snd (status_at j)) (int (\<Sum>t\<leftarrow>ts. term_ns t)) tag))
    \<and> (\<forall>e. ping (envOr os ''REDIS_ADDR'' ''127.0.0.1:6379'') (envDuration os ''REDIS_DIAL_TIMEOUT'' (5 * Second)) = Some e
        \<longrightarrow> fst (acl_main wide usage os ping turns [] inp) = [] \<and> pr_exit (snd (acl_main wide usage os ping turns [] inp)) = 1)"
proof -
  let ?age = "int (\<Sum>t\<leftarrow>ts. term_ns t)"
  let ?p = "ping (envOr os ''REDIS_ADDR'' ''127.0.0.1:6379'') (envDuration os ''REDIS_DIAL_TIMEOUT'' (5 * Second))"
  let ?T = "envDuration os ''ACL_REQUEST_TIMEOUT'' (2 * Second)"
  have age: "envDuration os ''REDIS_STATUS_MAX_AGE'' 0 = ?age"
    using ParseDuration_terms [OF assms(3,4,6)] print_terms_hd [OF assms(3)] assms(7) by (simp add: envDuration_def)
  have up: "acl_run os ping turns inp = loop (turns \<lparr>maxAge = ?age\<rparr>) ?T 0 inp" if "?p = None"
    using that age by (simp add: acl_run_def Let_def redis_Open_def NewClient_def)
  have down: "\<exists>e'. acl_run os ping turns inp = ([], Some e')" if "?p = Some e" for e
    using that by (simp add: acl_run_def Let_def redis_Open_def)
  have bus: "tn_bus (turns c j) ?T = redis_bus srv c (fst (route_at j)) (snd (route_at j)) (fst (status_at j)) (snd (status_at j))" for c j
    using assms(2) by (simp add: on_redis_def)
  have replies: "let channel = rq_Channel (ParseLine (input_lines inp ! j)); reply = fst (acl_run os ping turns inp) ! j
      in reply = FormatReply channel False []
       \<or> (\<exists>tag. reply = FormatReply channel True tag \<and> tag \<noteq> []
            \<and> recent_up (view (fst (status_at j))) (snd (status_at j)) ?age tag)"
    if "j < length (fst (acl_run os ping turns inp))" for j
    using that reply_for_redis [OF assms(1) bus, of \<open>\<lparr>maxAge = ?age\<rparr>\<close>] down up loop_nth [of _ "turns \<lparr>maxAge = ?age\<rparr>" ?T inp]
    by (cases ?p) (auto simp: Let_def)
  have "fst (acl_main wide usage os ping turns [] inp) = [] \<and> pr_exit (snd (acl_main wide usage os ping turns [] inp)) = 1"
    if "?p = Some e" for e
    using down [OF that] by (auto simp: acl_main_plain exit_error_def)
  moreover have "fst (acl_main wide usage os ping turns args inp) = [] \<or> fst (acl_main wide usage os ping turns args inp) = fst (acl_run os ping turns inp)"
    using acl_main_replies by blast
  ultimately show ?thesis using replies by (intro conjI allI impI; elim disjE) simp_all
qed

definition ex_turns :: "Client \<Rightarrow> nat \<Rightarrow> turn" where
  "ex_turns c i = \<lparr>tn_cancelled = False, tn_bus = (\<lambda>T. redis_bus mem_redis c mem_empty 0 mem_empty 0), tn_write = None, tn_flush = None\<rparr>"

definition ex_line :: string where "ex_line = ''7 wiki.helix'' @ [LF]"

theorem acl_main_max_age_witness:
  "fst (acl_main (\<lambda>_. True) [] (\<lambda>k. if k = ''REDIS_STATUS_MAX_AGE'' then ''10s'' else []) (\<lambda>_ _. None) ex_turns [] ex_line) ! 0
    = ''7 ERR'' @ [LF]"
proof -
  let ?os = "\<lambda>k. if k = ''REDIS_STATUS_MAX_AGE'' then ''10s'' else []"
  have p: "print_terms [(10, ''s'')] = ''10s''" by code_simp
  have on: "on_redis mem_redis (\<lambda>_. (mem_empty, 0)) (\<lambda>_. (mem_empty, 0)) ex_turns" by (simp add: on_redis_def ex_turns_def)
  have lines: "input_lines ex_line = [ex_line]" by (simp add: input_lines_def ex_line_def)
  have "length (fst (loop (ex_turns c) T 0 ex_line)) = 1" for c T
    using loop_smooth [of ex_line "ex_turns c" 0 T] lines by (simp add: ex_turns_def smooth_def)
  then have len: "length (fst (acl_main (\<lambda>_. True) [] ?os (\<lambda>_ _. None) ex_turns [] ex_line)) = 1"
    by (simp add: acl_main_plain_fst acl_run_def Let_def redis_Open_def)
  have ch: "rq_Channel (ParseLine ex_line) = ''7''" by code_simp
  have none: "\<not> recent_up (ms_data mem_empty) 0 d tag" for d tag by (simp add: recent_up_def mem_empty_def live_def)
  show ?thesis
    using acl_main_max_age [OF mem.redis_server_axioms on, of "[(10, ''s'')]" ?os "\<lambda>_. True" "[]" "\<lambda>_ _. None" "[]" ex_line]
    by (simp add: p unit_text_def unitMap_def term_ns_def len lines ch none FormatReply_def)
qed

end
