(* ===== verification/Dns_Provider.thy ===== *)
theory Dns_Provider
  imports Go_Json Go_Time
begin

text \<open>
  \<open>deploy/letsencrypt/caddy-challtestsrv-dns/provider.go\<close>: the DNS provider module that
  publishes ACME challenge records on a test server over HTTP. The Caddy and libdns packages
  are parameters (the placeholder replacer, the token dispenser, \<open>AbsoluteName\<close>), as are the
  HTTP transport and the server behind it.
\<close>

subsection \<open>Definitions\<close>

definition defaultMgmtURL :: string where "defaultMgmtURL = ''http://challtestsrv:8055''"

text \<open>The client is its timeout; there is none before \<open>Provision\<close>.\<close>

record Provider =
  dp_ManagementURL :: string
  dp_httpClient :: "Duration option"

text \<open>The fields of a libdns record the module reads.\<close>

record Record =
  lr_Name :: string
  lr_Value :: string

definition Provision :: "(string \<Rightarrow> string) \<Rightarrow> Provider \<Rightarrow> Provider" where
  "Provision replace_all p =
     (let url = TrimRight (replace_all (dp_ManagementURL p)) ''/''
      in \<lparr>dp_ManagementURL = (if url = [] then defaultMgmtURL else url),
          dp_httpClient = (case dp_httpClient p of None \<Rightarrow> Some (10 * Second) | c \<Rightarrow> c)\<rparr>)"

subsubsection \<open>UnmarshalCaddyfile\<close>

text \<open>The operations of a \<open>caddyfile.Dispenser\<close> over its state; an error carries the position.\<close>

record 'd dispenser =
  ds_Next :: "'d \<Rightarrow> bool \<times> 'd"
  ds_NextArg :: "'d \<Rightarrow> bool \<times> 'd"
  ds_NextBlock :: "int \<Rightarrow> 'd \<Rightarrow> bool \<times> 'd"
  ds_Nesting :: "'d \<Rightarrow> int"
  ds_Val :: "'d \<Rightarrow> string"
  ds_ArgErr :: "'d \<Rightarrow> go_error"
  ds_Errf :: "'d \<Rightarrow> string \<Rightarrow> go_error"

text \<open>The loop over the block; \<open>None\<close> is a loop that does not end.\<close>

partial_function (option) block_loop ::
  "(nat \<Rightarrow> bool) \<Rightarrow> 'd dispenser \<Rightarrow> int \<Rightarrow> Provider \<Rightarrow> 'd \<Rightarrow> (go_error option \<times> Provider \<times> 'd) option" where
  "block_loop wide ds nesting p d =
     (let (more, d1) = ds_NextBlock ds nesting d in
      if \<not> more then Some (None, p, d1)
      else if ds_Val ds d1 \<noteq> ''management_url''
        then Some (Some (ds_Errf ds d1 (''unrecognized challtestsrv subdirective '' @ Quote wide (ds_Val ds d1))), p, d1)
      else
        let (arg, d2) = ds_NextArg ds d1 in
        if \<not> arg then Some (Some (ds_ArgErr ds d2), p, d2)
        else block_loop wide ds nesting (p\<lparr>dp_ManagementURL := ds_Val ds d2\<rparr>) d2)"

partial_function (option) UnmarshalCaddyfile ::
  "(nat \<Rightarrow> bool) \<Rightarrow> 'd dispenser \<Rightarrow> Provider \<Rightarrow> 'd \<Rightarrow> (go_error option \<times> Provider) option" where
  "UnmarshalCaddyfile wide ds p d =
     (let (more, d1) = ds_Next ds d in
      if \<not> more then Some (None, p)
      else
        let (arg, d2) = ds_NextArg ds d1;
            p1 = (if arg then p\<lparr>dp_ManagementURL := ds_Val ds d2\<rparr> else p);
            (arg2, d3) = ds_NextArg ds d2
        in if arg2 then Some (Some (ds_ArgErr ds d3), p1)
           else Option.bind (block_loop wide ds (ds_Nesting ds d3) p1 d3)
             (\<lambda>(err, p2, d4). case err of
                Some e \<Rightarrow> Some (Some e, p2)
              | None \<Rightarrow> UnmarshalCaddyfile wide ds p2 d4))"

subsubsection \<open>Records\<close>

record http_post =
  hp_URL :: string
  hp_ContentType :: string
  hp_Body :: string

text \<open>
  Sending a POST with the provider's client: an error, or the status and the body. The world
  behind the transport, \<open>'w\<close>, may change either way.
\<close>

type_synonym 'w transport = "Duration option \<Rightarrow> http_post \<Rightarrow> 'w \<Rightarrow> (int \<times> string) result \<times> 'w"

text \<open>\<open>new_request\<close>: the error of building a request for a URL, if any. The payload's keys are in order.\<close>

definition post ::
  "(string \<Rightarrow> go_error option) \<Rightarrow> 'w transport \<Rightarrow> Provider \<Rightarrow> string \<Rightarrow> (string \<times> string) list \<Rightarrow> 'w
    \<Rightarrow> go_error option \<times> 'w" where
  "post new_request http p path payload w =
     (let body = print_json (JObj (map (\<lambda>(k, v). (k, JStr v)) payload)); url = dp_ManagementURL p @ path in
      case new_request url of
        Some e \<Rightarrow> (Some e, w)
      | None \<Rightarrow>
          (case http (dp_httpClient p) \<lparr>hp_URL = url, hp_ContentType = ''application/json'', hp_Body = body\<rparr> w of
             (Inl e, w') \<Rightarrow> (Some e, w')
           | (Inr (code, resp), w') \<Rightarrow>
               if code < 200 \<or> 300 \<le> code
               then (Some (Msg (''management API '' @ path @ '' returned '' @ show_int code @ '': '' @ TrimSpace (take 512 resp))), w')
               else (None, w')))"

definition fqdn :: "(string \<Rightarrow> string \<Rightarrow> string) \<Rightarrow> string \<Rightarrow> string \<Rightarrow> string" where
  "fqdn absolute_name name zone =
     (let full = absolute_name name zone in if full \<noteq> [] \<and> last full = CHR ''.'' then full else full @ ''.'')"

text \<open>The loop both operations run, over what they send for a host and how they name a failure.\<close>

fun record_loop ::
  "(nat \<Rightarrow> bool) \<Rightarrow> (Record \<Rightarrow> string) \<Rightarrow> string \<Rightarrow> (string \<Rightarrow> Record \<Rightarrow> 'w \<Rightarrow> go_error option \<times> 'w)
    \<Rightarrow> Record list \<Rightarrow> 'w \<Rightarrow> go_error option \<times> 'w" where
  "record_loop wide host_of verb send [] w = (None, w)"
| "record_loop wide host_of verb send (rec # recs) w =
     (case send (host_of rec) rec w of
        (Some e, w') \<Rightarrow> (Some (Wrap (''challtestsrv '' @ verb @ '' '' @ Quote wide (host_of rec) @ '': '') e), w')
      | (None, w') \<Rightarrow> record_loop wide host_of verb send recs w')"

definition AppendRecords ::
  "(nat \<Rightarrow> bool) \<Rightarrow> (string \<Rightarrow> string \<Rightarrow> string) \<Rightarrow> (string \<Rightarrow> go_error option) \<Rightarrow> 'w transport \<Rightarrow> Provider
    \<Rightarrow> string \<Rightarrow> Record list \<Rightarrow> 'w \<Rightarrow> Record list result \<times> 'w" where
  "AppendRecords wide absolute_name new_request http p zone recs w =
     (case record_loop wide (\<lambda>rec. fqdn absolute_name (lr_Name rec) zone) ''set-txt''
             (\<lambda>host rec. post new_request http p ''/set-txt'' [(''host'', host), (''value'', lr_Value rec)]) recs w of
        (Some e, w') \<Rightarrow> (Inl e, w')
      | (None, w') \<Rightarrow> (Inr recs, w'))"

definition DeleteRecords ::
  "(nat \<Rightarrow> bool) \<Rightarrow> (string \<Rightarrow> string \<Rightarrow> string) \<Rightarrow> (string \<Rightarrow> go_error option) \<Rightarrow> 'w transport \<Rightarrow> Provider
    \<Rightarrow> string \<Rightarrow> Record list \<Rightarrow> 'w \<Rightarrow> Record list result \<times> 'w" where
  "DeleteRecords wide absolute_name new_request http p zone recs w =
     (case record_loop wide (\<lambda>rec. fqdn absolute_name (lr_Name rec) zone) ''clear-txt''
             (\<lambda>host rec. post new_request http p ''/clear-txt'' [(''host'', host)]) recs w of
        (Some e, w') \<Rightarrow> (Inl e, w')
      | (None, w') \<Rightarrow> (Inr recs, w'))"

subsection \<open>The directive is read to its end\<close>

text \<open>What a dispenser promises: every token it hands out is consumed.\<close>

locale token_dispenser =
  fixes ds :: "'d dispenser" and left :: "'d \<Rightarrow> nat"
  assumes next_less: "ds_Next ds d = (True, d') \<Longrightarrow> left d' < left d"
    and arg_less: "ds_NextArg ds d = (True, d') \<Longrightarrow> left d' < left d"
    and arg_none: "ds_NextArg ds d = (False, d') \<Longrightarrow> left d' \<le> left d"
    and block_less: "ds_NextBlock ds n d = (True, d') \<Longrightarrow> left d' < left d"
    and block_none: "ds_NextBlock ds n d = (False, d') \<Longrightarrow> left d' \<le> left d"
begin

lemma block_loop_returns: "\<exists>err p' d'. block_loop wide ds n p d = Some (err, p', d') \<and> left d' \<le> left d"
proof (induction "left d" arbitrary: p d rule: less_induct)
  case less
  obtain more d1 where b: "ds_NextBlock ds n d = (more, d1)" by fastforce
  obtain arg d2 where a: "ds_NextArg ds d1 = (arg, d2)" by fastforce
  show ?case
  proof (cases more)
    case False
    then show ?thesis using b block_none by (subst block_loop.simps) simp
  next
    case True
    then have d1: "left d1 < left d" using b block_less by simp
    show ?thesis
    proof (cases "ds_Val ds d1 = ''management_url'' \<and> arg")
      case False
      then show ?thesis using True a b d1 arg_none [of d1 d2] by (subst block_loop.simps) (cases arg; auto)
    next
      case rec: True
      then have d2: "left d2 < left d" using a arg_less d1 by fastforce
      from less [OF d2] obtain err p' d' where
        "block_loop wide ds n (p\<lparr>dp_ManagementURL := ds_Val ds d2\<rparr>) d2 = Some (err, p', d')" "left d' \<le> left d2" by blast
      then show ?thesis using True rec a b d2 by (subst block_loop.simps) simp
    qed
  qed
qed

lemma UnmarshalCaddyfile_returns: "\<exists>r. UnmarshalCaddyfile wide ds p d = Some r"
proof (induction "left d" arbitrary: p d rule: less_induct)
  case less
  obtain more d1 where n: "ds_Next ds d = (more, d1)" by fastforce
  obtain arg d2 where a: "ds_NextArg ds d1 = (arg, d2)" by fastforce
  obtain arg2 d3 where a2: "ds_NextArg ds d2 = (arg2, d3)" by fastforce
  let ?p1 = "if arg then p\<lparr>dp_ManagementURL := ds_Val ds d2\<rparr> else p"
  show ?case
  proof (cases "more \<and> \<not> arg2")
    case False
    then show ?thesis using n a a2 by (subst UnmarshalCaddyfile.simps) (auto simp: Let_def)
  next
    case True
    have "left d1 < left d" using n True next_less by simp
    moreover have "left d2 \<le> left d1" using a arg_less arg_none by (cases arg) (auto intro: less_imp_le)
    moreover have "left d3 \<le> left d2" using a2 True arg_none by auto
    moreover obtain err p2 d4 where b: "block_loop wide ds (ds_Nesting ds d3) ?p1 d3 = Some (err, p2, d4)" "left d4 \<le> left d3"
      using block_loop_returns by blast
    ultimately have "left d4 < left d" by linarith
    from less [OF this] obtain r where "UnmarshalCaddyfile wide ds p2 d4 = Some r" by blast
    then show ?thesis
      using True n a a2 b by (subst UnmarshalCaddyfile.simps) (cases err; auto simp: Let_def)
  qed
qed

end

text \<open>
  A Caddyfile as its lines: the arguments left on this line, the lines left in the block, and
  the occurrences of the directive still to come.
\<close>

record lines_state =
  tk_val :: string
  tk_args :: "string list"
  tk_block :: "string list list"
  tk_rest :: "(string list \<times> string list list) list"

definition lines_Next :: "lines_state \<Rightarrow> bool \<times> lines_state" where
  "lines_Next s =
     (case tk_rest s of
        [] \<Rightarrow> (False, s)
      | (as, ls) # rest \<Rightarrow> (True, s\<lparr>tk_args := as, tk_block := ls, tk_rest := rest\<rparr>))"

definition lines_NextArg :: "lines_state \<Rightarrow> bool \<times> lines_state" where
  "lines_NextArg s = (case tk_args s of [] \<Rightarrow> (False, s) | a # as \<Rightarrow> (True, s\<lparr>tk_val := a, tk_args := as\<rparr>))"

definition lines_NextBlock :: "int \<Rightarrow> lines_state \<Rightarrow> bool \<times> lines_state" where
  "lines_NextBlock n s =
     (case tk_args s of
        a # as \<Rightarrow> (True, s\<lparr>tk_val := a, tk_args := as\<rparr>)
      | [] \<Rightarrow>
          (case tk_block s of
             [] \<Rightarrow> (False, s)
           | l # ls \<Rightarrow> (True, s\<lparr>tk_val := (case l of [] \<Rightarrow> [] | w # _ \<Rightarrow> w), tk_args := tl l, tk_block := ls\<rparr>)))"

definition lines :: "lines_state dispenser" where
  "lines = \<lparr>ds_Next = lines_Next, ds_NextArg = lines_NextArg, ds_NextBlock = lines_NextBlock,
     ds_Nesting = (\<lambda>_. 0), ds_Val = tk_val, ds_ArgErr = (\<lambda>_. Msg ''wrong argument count''), ds_Errf = (\<lambda>_ m. Msg m)\<rparr>"

definition lines_weight :: "string list list \<Rightarrow> nat" where
  "lines_weight ls = (\<Sum>l\<leftarrow>ls. Suc (length l))"

definition file_left :: "lines_state \<Rightarrow> nat" where
  "file_left s = length (tk_args s) + lines_weight (tk_block s)
     + (\<Sum>r\<leftarrow>tk_rest s. Suc (length (fst r) + lines_weight (snd r)))"

text \<open>Where a new occurrence starts, what the old one left over is dropped.\<close>

interpretation caddy: token_dispenser lines file_left
proof unfold_locales
  show "file_left d' < file_left d" if "ds_Next lines d = (True, d')" for d d'
    using that by (auto simp: lines_def lines_Next_def file_left_def split: list.splits)
  show "file_left d' < file_left d" if "ds_NextArg lines d = (True, d')" for d d'
    using that by (auto simp: lines_def lines_NextArg_def file_left_def split: list.splits)
  show "file_left d' \<le> file_left d" if "ds_NextArg lines d = (False, d')" for d d'
    using that by (auto simp: lines_def lines_NextArg_def split: list.splits)
  show "file_left d' < file_left d" if "ds_NextBlock lines n d = (True, d')" for n d d'
    using that by (auto simp: lines_def lines_NextBlock_def file_left_def lines_weight_def split: list.splits)
  show "file_left d' \<le> file_left d" if "ds_NextBlock lines n d = (False, d')" for n d d'
    using that by (auto simp: lines_def lines_NextBlock_def split: list.splits)
qed

text \<open>The subdirective wins over the inline argument.\<close>

lemma inline_and_block:
  "UnmarshalCaddyfile wide lines \<lparr>dp_ManagementURL = [], dp_httpClient = None\<rparr>
     \<lparr>tk_val = [], tk_args = [], tk_block = [], tk_rest = [([''http://a:1''], [[''management_url'', ''http://b:2'']])]\<rparr>
   = Some (None, \<lparr>dp_ManagementURL = ''http://b:2'', dp_httpClient = None\<rparr>)"
  by (simp add: UnmarshalCaddyfile.simps block_loop.simps lines_def lines_Next_def lines_NextArg_def lines_NextBlock_def)

subsection \<open>The test server\<close>

text \<open>
  What the documentation of the server says of the two endpoints: a successful POST of a host
  and a value adds the value to the TXT records of the host, one of a host removes them.
\<close>

definition json_post :: "string \<Rightarrow> (string \<times> string) list \<Rightarrow> http_post" where
  "json_post url payload = \<lparr>hp_URL = url, hp_ContentType = ''application/json'', hp_Body = print_json (JObj (map (\<lambda>(k, v). (k, JStr v)) payload))\<rparr>"

locale challtestsrv =
  fixes http :: "'w transport" and records :: "'w \<Rightarrow> string \<Rightarrow> string list" and base :: string
  assumes set_txt: "http c (json_post (base @ ''/set-txt'') [(''host'', h), (''value'', v)]) w = (Inr (code, b), w') \<Longrightarrow>
      200 \<le> code \<Longrightarrow> code < 300 \<Longrightarrow> valid_utf8 h \<Longrightarrow> valid_utf8 v \<Longrightarrow> records w' = (records w)(h := records w h @ [v])"
    and clear_txt: "http c (json_post (base @ ''/clear-txt'') [(''host'', h)]) w = (Inr (code, b), w') \<Longrightarrow>
      200 \<le> code \<Longrightarrow> code < 300 \<Longrightarrow> valid_utf8 h \<Longrightarrow> records w' = (records w)(h := [])"
begin

lemma post_set:
  assumes "post nr http p ''/set-txt'' [(''host'', h), (''value'', v)] w = (None, w')" and "dp_ManagementURL p = base"
    and "valid_utf8 h" and "valid_utf8 v"
  shows "records w' = (records w)(h := records w h @ [v])"
  using assms set_txt [of "dp_httpClient p" h v w]
  by (auto simp: post_def json_post_def Let_def split: option.splits prod.splits sum.splits if_splits)

lemma post_clear:
  assumes "post nr http p ''/clear-txt'' [(''host'', h)] w = (None, w')" and "dp_ManagementURL p = base" and "valid_utf8 h"
  shows "records w' = (records w)(h := [])"
  using assms clear_txt [of "dp_httpClient p" h w]
  by (auto simp: post_def json_post_def Let_def split: option.splits prod.splits sum.splits if_splits)

lemma loop_sets:
  assumes "record_loop wide hf verb (\<lambda>host rec. post nr http p ''/set-txt'' [(''host'', host), (''value'', lr_Value rec)]) recs w = (None, w')"
    and "dp_ManagementURL p = base" and "\<And>rec. rec \<in> set recs \<Longrightarrow> valid_utf8 (hf rec) \<and> valid_utf8 (lr_Value rec)"
  shows "records w' h = records w h @ map lr_Value (filter (\<lambda>rec. hf rec = h) recs)"
  using assms(1,3)
proof (induction recs arbitrary: w)
  case (Cons rec recs)
  obtain w1 where p: "post nr http p ''/set-txt'' [(''host'', hf rec), (''value'', lr_Value rec)] w = (None, w1)"
    and rest: "record_loop wide hf verb (\<lambda>host rec. post nr http p ''/set-txt'' [(''host'', host), (''value'', lr_Value rec)]) recs w1 = (None, w')"
    using Cons.prems(1) by (auto split: prod.splits option.splits)
  have "records w1 = (records w)(hf rec := records w (hf rec) @ [lr_Value rec])"
    using post_set [OF p assms(2)] Cons.prems(2) by simp
  then show ?case using Cons.IH [OF rest] Cons.prems(2) by simp
qed simp

lemma loop_clears:
  assumes "record_loop wide hf verb (\<lambda>host rec. post nr http p ''/clear-txt'' [(''host'', host)]) recs w = (None, w')"
    and "dp_ManagementURL p = base" and "\<And>rec. rec \<in> set recs \<Longrightarrow> valid_utf8 (hf rec)"
  shows "records w' h = (if h \<in> hf ` set recs then [] else records w h)"
  using assms(1,3)
proof (induction recs arbitrary: w)
  case (Cons rec recs)
  obtain w1 where p: "post nr http p ''/clear-txt'' [(''host'', hf rec)] w = (None, w1)"
    and rest: "record_loop wide hf verb (\<lambda>host rec. post nr http p ''/clear-txt'' [(''host'', host)]) recs w1 = (None, w')"
    using Cons.prems(1) by (auto split: prod.splits option.splits)
  have "records w1 = (records w)(hf rec := [])" using post_clear [OF p assms(2)] Cons.prems(2) by simp
  then show ?case using Cons.IH [OF rest] Cons.prems(2) by auto
qed simp

end

lemma fqdn_dot: "fqdn absolute_name name zone \<noteq> [] \<and> last (fqdn absolute_name name zone) = CHR ''.''"
  by (auto simp: fqdn_def Let_def)

subsection \<open>Properties\<close>

text \<open>
  C40: a challenge is presented and cleaned up: on a server that does what its documentation
  says, after \<open>AppendRecords\<close> reports success every record's value is published under its
  absolute name, which ends with a dot, below what was there before; after \<open>DeleteRecords\<close>
  of the same records reports success those names have no records and every other name has
  what it had before both.
\<close>

theorem present_and_clean_up:
  assumes "challtestsrv http records (dp_ManagementURL p)"
    and "\<forall>rec \<in> set recs. valid_utf8 (fqdn an (lr_Name rec) zone) \<and> valid_utf8 (lr_Value rec)"
    and "AppendRecords wide an nr http p zone recs w = (Inr rs, w1)"
    and "DeleteRecords wide an nr http p zone recs w1 = (Inr rs', w2)"
  shows "rs = recs \<and> rs' = recs
    \<and> (\<forall>h. records w1 h = records w h @ map lr_Value (filter (\<lambda>rec. fqdn an (lr_Name rec) zone = h) recs))
    \<and> (\<forall>h. records w2 h = (if h \<in> (\<lambda>rec. fqdn an (lr_Name rec) zone) ` set recs then [] else records w h))
    \<and> (\<forall>rec \<in> set recs. last (fqdn an (lr_Name rec) zone) = CHR ''.'')"
proof -
  let ?hf = "\<lambda>rec. fqdn an (lr_Name rec) zone"
  have a: "record_loop wide ?hf ''set-txt'' (\<lambda>host rec. post nr http p ''/set-txt'' [(''host'', host), (''value'', lr_Value rec)]) recs w = (None, w1)"
    and rs: "rs = recs" using assms(3) by (auto simp: AppendRecords_def split: prod.splits option.splits)
  have d: "record_loop wide ?hf ''clear-txt'' (\<lambda>host rec. post nr http p ''/clear-txt'' [(''host'', host)]) recs w1 = (None, w2)"
    and rs': "rs' = recs" using assms(4) by (auto simp: DeleteRecords_def split: prod.splits option.splits)
  have set: "records w1 h = records w h @ map lr_Value (filter (\<lambda>rec. ?hf rec = h) recs)" for h
    using challtestsrv.loop_sets [OF assms(1) a refl] assms(2) by blast
  have clear: "records w2 h = (if h \<in> ?hf ` set recs then [] else records w1 h)" for h
    using challtestsrv.loop_clears [OF assms(1) d refl] assms(2) by blast
  have other: "filter (\<lambda>rec. ?hf rec = h) recs = []" if "h \<notin> ?hf ` set recs" for h
    using that by (auto simp: filter_empty_conv)
  show ?thesis using rs rs' set clear other fqdn_dot [of an] by auto
qed

text \<open>An in-memory server: it parses the body and edits its table.\<close>

definition mem_challtestsrv :: "string \<Rightarrow> (string \<Rightarrow> string list) transport" where
  "mem_challtestsrv base c q w =
     (case parse_json (hp_Body q) of
        Some (JObj [(k, JStr h), (k', JStr v)]) \<Rightarrow>
          if hp_URL q = base @ ''/set-txt'' then (Inr (200, []), w(h := w h @ [v])) else (Inr (404, ''not found''), w)
      | Some (JObj [(k, JStr h)]) \<Rightarrow>
          if hp_URL q = base @ ''/clear-txt'' then (Inr (200, []), w(h := [])) else (Inr (404, ''not found''), w)
      | _ \<Rightarrow> (Inr (400, ''bad request''), w))"

interpretation mem_dns: challtestsrv "mem_challtestsrv base" "\<lambda>w. w" base for base
proof unfold_locales
  have utf8: "valid_utf8 ''host''" "valid_utf8 ''value''" by (simp_all add: visible_utf8 visible_def)
  have p2: "parse_json (hp_Body (json_post u [(''host'', h), (''value'', v)])) = Some (JObj [(''host'', JStr h), (''value'', JStr v)])"
    if "valid_utf8 h" "valid_utf8 v" for u h v
    unfolding json_post_def using parse_print [of "JObj [(''host'', JStr h), (''value'', JStr v)]"] that utf8 by simp
  have p1: "parse_json (hp_Body (json_post u [(''host'', h)])) = Some (JObj [(''host'', JStr h)])" if "valid_utf8 h" for u h
    unfolding json_post_def using parse_print [of "JObj [(''host'', JStr h)]"] that utf8 by simp
  show "w' = w(h := w h @ [v])"
    if "mem_challtestsrv base c (json_post (base @ ''/set-txt'') [(''host'', h), (''value'', v)]) w = (Inr (code, b), w')"
      "valid_utf8 h" "valid_utf8 v" for c h v w code b w'
    using that p2 by (simp add: mem_challtestsrv_def) (simp add: json_post_def)
  show "w' = w(h := [])"
    if "mem_challtestsrv base c (json_post (base @ ''/clear-txt'') [(''host'', h)]) w = (Inr (code, b), w')"
      "valid_utf8 h" for c h w code b w'
    using that p1 by (simp add: mem_challtestsrv_def) (simp add: json_post_def)
qed

definition acme :: Record where
  "acme = \<lparr>lr_Name = ''_acme-challenge'', lr_Value = ''token''\<rparr>"

definition acme_provider :: Provider where
  "acme_provider = Provision (\<lambda>s. s) \<lparr>dp_ManagementURL = [], dp_httpClient = None\<rparr>"

lemma acme_served:
  fixes w :: "string \<Rightarrow> string list"
  shows "AppendRecords (\<lambda>_. True) (\<lambda>n z. n @ ''.'' @ z) (\<lambda>_. None) (mem_challtestsrv (dp_ManagementURL acme_provider)) acme_provider ''helix.'' [acme] w
      = (Inr [acme], w(''_acme-challenge.helix.'' := w ''_acme-challenge.helix.'' @ [''token'']))"
    and "DeleteRecords (\<lambda>_. True) (\<lambda>n z. n @ ''.'' @ z) (\<lambda>_. None) (mem_challtestsrv (dp_ManagementURL acme_provider)) acme_provider ''helix.'' [acme] w
      = (Inr [acme], w(''_acme-challenge.helix.'' := []))"
proof -
  let ?h = "''_acme-challenge.helix.''"
  have utf8: "valid_utf8 ?h" "valid_utf8 ''token''" "valid_utf8 ''host''" "valid_utf8 ''value''"
    by (simp_all add: visible_utf8 visible_def)
  have p2: "parse_json (print_json (JObj [(''host'', JStr ?h), (''value'', JStr ''token'')])) = Some (JObj [(''host'', JStr ?h), (''value'', JStr ''token'')])"
    using utf8 by (intro parse_print) simp
  have p1: "parse_json (print_json (JObj [(''host'', JStr ?h)])) = Some (JObj [(''host'', JStr ?h)])"
    using utf8 by (intro parse_print) simp
  have host: "fqdn (\<lambda>n z. n @ ''.'' @ z) (lr_Name acme) ''helix.'' = ?h" by (simp add: fqdn_def acme_def)
  have val: "lr_Value acme = ''token''" by (simp add: acme_def)
  show "AppendRecords (\<lambda>_. True) (\<lambda>n z. n @ ''.'' @ z) (\<lambda>_. None) (mem_challtestsrv (dp_ManagementURL acme_provider)) acme_provider ''helix.'' [acme] w
      = (Inr [acme], w(?h := w ?h @ [''token'']))"
    unfolding AppendRecords_def record_loop.simps host val post_def Let_def list.map prod.case mem_challtestsrv_def http_post.simps p2 by simp
  show "DeleteRecords (\<lambda>_. True) (\<lambda>n z. n @ ''.'' @ z) (\<lambda>_. None) (mem_challtestsrv (dp_ManagementURL acme_provider)) acme_provider ''helix.'' [acme] w
      = (Inr [acme], w(?h := []))"
    unfolding DeleteRecords_def record_loop.simps host val post_def Let_def list.map prod.case mem_challtestsrv_def http_post.simps p1 by simp
qed

theorem present_and_clean_up_witness:
  "snd (DeleteRecords (\<lambda>_. True) (\<lambda>n z. n @ ''.'' @ z) (\<lambda>_. None) (mem_challtestsrv (dp_ManagementURL acme_provider)) acme_provider ''helix.'' [acme]
     (snd (AppendRecords (\<lambda>_. True) (\<lambda>n z. n @ ''.'' @ z) (\<lambda>_. None) (mem_challtestsrv (dp_ManagementURL acme_provider)) acme_provider ''helix.'' [acme]
       (\<lambda>_. [])))) ''_acme-challenge.helix.'' = []"
proof -
  have host: "fqdn (\<lambda>n z. n @ ''.'' @ z) (lr_Name acme) ''helix.'' = ''_acme-challenge.helix.''" by (simp add: fqdn_def acme_def)
  have "valid_utf8 ''_acme-challenge.helix.''" "valid_utf8 (lr_Value acme)"
    by (simp_all add: visible_utf8 visible_def acme_def)
  then have "\<forall>rec \<in> set [acme]. valid_utf8 (fqdn (\<lambda>n z. n @ ''.'' @ z) (lr_Name rec) ''helix.'') \<and> valid_utf8 (lr_Value rec)"
    using host by simp
  from present_and_clean_up [OF mem_dns.challtestsrv_axioms this acme_served(1) acme_served(2), of "\<lambda>_. []"]
  show ?thesis using acme_served host by simp
qed

end
