(* ===== verification/Spec2Isabelle.thy ===== *)
theory Spec2Isabelle
  imports Compile_Race Breaker Event_Stream Squid_Gate Research_Proxy Acl_Main Dns_Provider
begin

text \<open>
  The control plane of Helix Proxy (\<open>src/control-plane\<close>): a forward proxy (Squid, Dante)
  routes requests for private hosts through VPN tunnels, and must never send one into a
  tunnel that carries no traffic. Four Go programs share a Postgres data model and a Redis
  status bus:

  \<^item> \<open>cmd/healthd\<close> polls every tunnel (WireGuard counters, a request through the tunnel's
    proxy), decides up or down and writes \<open>vpn:status:<profile>\<close> with a TTL;
  \<^item> \<open>cmd/compiler\<close> reads the data model, renders the Squid include, the Dante rules and the
    PAC file, and seeds \<open>route:<host>\<close> keys;
  \<^item> \<open>cmd/acl-helper\<close> answers Squid's per-request questions from the two kinds of keys and
    refuses whenever either is missing, unreadable, stale or not "up";
  \<^item> \<open>cmd/api\<close> edits the data model over REST, with an audit row in the transaction of every
    change, and serves the live events, the metrics and the PAC file.

  \<^bold>\<open>Theories and sources.\<close> Each component theory opens with definitions in the order of its
  source file, then an invariant or specification with the lemmas of the component, then
  the properties, each after the sentence that states it. Constants keep the Go names;
  record fields carry a two-letter prefix.

  \<^item> \<open>Go_Prelude\<close>: Go errors with \<open>errors.Is\<close> (a wrapped sentinel), results as sums, 64-bit
    integers with wrap-around; the locale \<open>slice_sort\<close> states what \<open>sort.Slice\<close> promises, which is
    not stability.
  \<^item> \<open>Go_Strings\<close>, \<open>Go_Time\<close>, \<open>Go_Time_Text\<close>, \<open>Go_Json\<close>, \<open>Go_Float\<close>, \<open>Go_Template\<close>: what the
    program uses of the standard library. Strings are byte lists; \<open>time.Time\<close> is a count of
    nanoseconds since year 1 with \<open>Sub\<close> saturating at the ends of \<open>Duration\<close>; JSON text is
    parsed and printed byte for byte (escapes, surrogates, invalid UTF-8 replaced), with a
    print-parse theorem; \<open>float64\<close> is rounding to nearest even of an exact ratio; \<open>%q\<close>
    quoting is proved to delimit its literal.
  \<^item> \<open>Vpn_Wg\<close>, \<open>Vpn_Health\<close> (\<open>internal/vpn\<close>): the two \<open>wg show\<close> table parsers with 64-bit
    sums, the verdict \<open>DecideHealth\<close>, the liveness prober and the gluetun client. The locale
    \<open>health_evaluator\<close> states what an evaluator owes its clients.
  \<^item> \<open>Redis_Bus\<close> (\<open>internal/redis\<close>): keys, value codecs, the fail-closed reading of a status
    and the client's six operations over a server. The locale \<open>redis_server\<close> states the
    documented behaviour of GET, SET with expiry, PUBLISH and SUBSCRIBE, any of which may
    fail; \<open>mem_redis\<close>, an in-memory server, shows the laws can hold.
  \<^item> \<open>Acl_Helper\<close> (\<open>internal/aclhelper\<close>, \<open>cmd/acl-helper\<close>): the verdict, the line codec of both
    Squid framings and the request loop, with its input, cancellations and write errors
    explicit. The locale \<open>fail_closed_bus\<close> is the contract the helper relies on, and
    \<open>redis_bus\<close> interprets it with the Redis client.
  \<^item> \<open>Healthd\<close> (\<open>cmd/healthd\<close>): sampling, one poll, the tick with its SET and PUBLISH, the
    loop over ticks, the naming helpers and the sampler configuration.
  \<^item> \<open>Breaker\<close> (\<open>internal/breaker\<close>): the failover choice and the per-tunnel registry over the
    package \<open>sony/gobreaker\<close>, a parameter whose documented state machine (for one trial
    request, the settings the code uses) is the locale \<open>gobreaker\<close>; the closure its
    documentation gives joins the two.
  \<^item> \<open>Go_Cmd\<close>: the flag package, \<open>filepath.Dir\<close> and how a command ends, for the four programs.
  \<^item> \<open>Pac\<close>, \<open>Routing\<close>, \<open>Cmd_Compiler\<close> (\<open>internal/pac\<close>, \<open>internal/routing\<close>, \<open>cmd/compiler\<close>):
    the renderers byte for byte, the compile pass, the compiler from its arguments to its exit
    status; also \<open>otel.Init\<close> (\<open>internal/otel\<close>), whose result the programs drop.
  \<^item> \<open>Squid_Gate\<close> (\<open>config/squid/squid.dynamic.conf\<close>): the deployed access rules with the
    rendered include in its place. How Squid evaluates them is a parameter with the documented
    laws of \<open>http_access\<close>, the locale \<open>squid_access\<close>; the helper's reply decides the list \<open>tun_up\<close>.
  \<^item> \<open>Store_Types\<close>, \<open>Store_Sql\<close>, \<open>Store_Postgres\<close> (\<open>internal/store\<close>, \<open>sql/schema.sql\<close>): the rows,
    every SQL statement of \<open>postgres.go\<close> over tables with the constraints, defaults, cascades
    and triggers of the schema, and the methods of \<open>Queries\<close> with \<open>WithTx\<close>. How Postgres
    reads text, \<open>uuid\<close>, \<open>inet\<close> and \<open>jsonb\<close> is a parameter with the laws \<open>pg_laws\<close>; any
    statement may fail before or after it took effect, and the reply of a commit may be lost.
    The invariant \<open>db_ok\<close> is the schema, which every statement checks; the locale \<open>transactional\<close> is what \<open>WithTx\<close> owes.
  \<^item> \<open>Store_Directory\<close>, \<open>Store_Compile\<close>, \<open>Store_Gate\<close>: an abstract directory of profiles and
    targets by name, which the store's edits refine; the routing compiler fed by the store;
    and the whole way from a row through compiler, Redis and publisher to the verdict, which
    looks at the first tier of a target only.
  \<^item> \<open>Api\<close>, \<open>Api_Server\<close> (\<open>internal/api\<close>, \<open>cmd/api\<close>): the JSON shapes byte for byte, decoding
    that refuses unknown fields, every handler with its audit row in the transaction of the
    change, the routing table as \<open>http.ServeMux\<close> reads it, the event stream, the metrics, the
    mTLS configuration and the start of the server. \<open>Api_Roundtrip\<close>: the printed shapes decode
    to what was printed, a PUT followed by a GET through router, decoder, transaction and store,
    and the invariant \<open>named\<close>, which the handlers keep and the schema does not (the locale
    \<open>pg_padding\<close> is what it relies on of a text column).
  \<^item> \<open>Go_Duration\<close>, \<open>Healthd_Main\<close>, \<open>Acl_Main\<close>: \<open>time.ParseDuration\<close> and \<open>Duration.Seconds\<close> with
    their float arithmetic and a bound of its rounding error, and on them the configuration
    and the processes of \<open>cmd/healthd\<close> (goroutines as interleaved ticks) and of \<open>cmd/acl-helper\<close>.
  \<^item> \<open>Dns_Provider\<close> (\<open>deploy/letsencrypt/caddy-challtestsrv-dns\<close>): the DNS module of the hermetic
    certificate tests; the locale \<open>token_dispenser\<close> is what reading its directive relies on,
    \<open>challtestsrv\<close> what its server documents.
  \<^item> \<open>System\<close>, \<open>Example_Run\<close>: publisher and compiler as a step relation over one Redis server,
    an invariant of the reachable states by rule induction, and a concrete run.
  \<^item> \<open>Control_Plane\<close>, \<open>Compile_Race\<close>: the four programs as one step relation (API requests,
    compiler runs whose queries may each see another state of the database, polls, restarts),
    which refines \<open>System\<close> seen from Redis, with the invariant that every stored route was drawn
    from states of the database; and a run where a compile pass overlaps two edits. This theory
    joins the control plane with the helper.
  \<^item> \<open>Event_Stream\<close>: the publisher, Redis' channel (the locale \<open>redis_pubsub\<close>) and the event
    stream of the control API composed.
  \<^item> \<open>Research_Proxy\<close> (\<open>docs/research/mvp/proxy-vpn-extension\<close>): the profile manager and the
    proxy handler of the earlier prototype, which share the status keys of the control plane.

  \<^bold>\<open>What is shown.\<close> End to end, in any interleaving of the four programs, a request is allowed
  only on evidence of traffic no older than the TTL and along a route drawn from rows that audited
  requests put into the database (safety), and is allowed once a route and an "up" poll are stored (the other
  direction, so refusing everything would not do). Under it: exact characterisations of the
  verdicts of the helper, of the publisher and of the bus; round trips of every codec; the
  loops answer every line, in order, and end; the events sent to Redis are exactly the changes
  of state, and a client of the event stream sees no others; the deployed Squid rules let a
  client of the local network in exactly when the helper allows its host, never ask for direct
  egress and declare the peers of the enabled profiles, provided no configured peer host
  carries a newline, which would add directives; a compile pass resolves exactly the routes of
  what it reads, but what it reads need not be one state of the database, and a run is exhibited
  whose route no state defines; the PAC file has a line for each entry with a glob and no other,
  and the two renderers of it agree unless an alias is empty; selection returns the first eligible
  tunnel of least tier, moves on when a breaker trips and returns when it recovers. Of the
  data model: after any sequence of requests and failures no name is blank, no change is
  without an audit row naming client and action, a status tells whether the change happened,
  and a target is read back as it was put; the edits refine those
  of a plain directory; what is compiled from the store is what its rows say, and a deleted
  tunnel is routed to no more; the control socket cannot be opened without verifying clients.
  Of the processes: polls of different profiles do not interfere, the default expiry covers a
  poll interval in spite of rounding for intervals of up to 854015 hours, a configured maximum age holds for every reply, and the
  exported gauge agrees with the gate; the compiler exits with 0 exactly when its work is done, and has then
  written the files it was told to and no others; the control API opens no socket on a bad configuration. What the prototype writes never makes
  the helper allow a request.

  \<^bold>\<open>Parameters and bounds.\<close> Outside code is an argument: the Redis server, the processes
  \<open>wg\<close> and the HTTP transports (their answer or failure per call), the clock, the file
  system, gobreaker, the database. A timeout is a failure of the call it cuts. Every law assumed of an
  argument is a hypothesis of the theorem that needs it and holds for a concrete instance
  used by its witness. The JSON parser runs on fuel, one more than the length of the text,
  which the print-parse theorem shows to be enough for every printed value; no other
  definition uses fuel; the request loop and the duration parser end because every turn
  shortens the input, and the directive parser, a partial function, is shown to return.
  The conversion of a large float to \<open>int\<close> follows amd64.

  \<^bold>\<open>Not modelled.\<close> Signals, logging, and the bodies of packages the sources only call
  (net/http, go-redis, pgx, Prometheus, crypto/tls, gin) and Squid: what the program sees of them is an
  argument. Prometheus' text format; the usage text of the flag package; interface
  declarations, which have no behaviour (the locales state what their clients rely on); the
  file \<open>breaker.go\<close>, which holds documentation only; \<open>cmd/proxy/main.go\<close> of the prototype, which
  starts a server without a handler; the registration of the Caddy module. Of Squid's
  configuration only the access rules take part, and which of the declared peers Squid picks for
  a request is not modelled. Isolation between concurrent transactions is
  that of one request at a time: each request's transaction runs on the database the previous
  one left; only the reads of a compile pass, which no transaction encloses, are spread over
  several states.
\<close>

subsection \<open>Properties of the whole\<close>

text \<open>
  C1: the guarantee of the whole control plane. Whatever requests the API served, whatever the
  compilers read and seeded and the publisher polled before, in whatever order and however their
  calls failed: when the helper answers a request with a tunnel (its two lookups at any two
  reachable moments), the answer is accounted for. The publisher has polled that very tunnel and
  met evidence that it carries traffic, the poll was written no longer ago than the status TTL,
  and if the helper has a maximum age, the poll is not older than that. And the route was drawn
  from states of the database that hold an enabled target of that host, its primary tunnel and
  the enabled profile of that name, each of them the first one or one that audited requests led
  to. (Redis is empty at the start; the text fields of polls and routes are UTF-8.)
\<close>

theorem allowed_requests_have_evidence:
  assumes "redis_server srv view" and "pg_laws t" and "db_ok t db0"
    and "\<forall>p. view r0 (StatusKey p) = None" and "\<forall>h. view r0 (RouteKey h) = None"
    and "plane_reach t wide srv smp c \<lparr>Freshness = d\<rparr> db0 r0 s1"
    and "plane_reach t wide srv smp c \<lparr>Freshness = d\<rparr> db0 r0 s2" and "d < maxDuration"
    and "\<forall>k \<in> set (sy_log (pl_sys s2)). snapshot_ok (lg_snap k)"
    and "\<forall>x. drawn_from (pl_dbs s1) x \<longrightarrow> route_ok x"
    and "Decide (redis_bus srv cl (sy_redis (pl_sys s1)) t1 (sy_redis (pl_sys s2)) t2) host = (True, tag)"
  shows "(\<exists>k \<in> set (sy_log (pl_sys s2)). lg_profile k = tag
      \<and> poll_evidence (lg_env k) (smp tag) tag (lg_prev k) (rc_hostIP c) d
      \<and> (status_ttl c \<le> 0 \<or> t2 < pe_set_at (lg_env k) + status_ttl c)
      \<and> (maxAge cl \<le> 0 \<or> Sub t2 (pe_now (lg_env k)) \<le> maxAge cl))
    \<and> (\<exists>x. drawn_from (pl_dbs s1) x \<and> rt_Target x = host \<and> rt_Tunnel x = tag)
    \<and> (\<forall>db \<in> set (pl_dbs s1). \<exists>rows. db_audit db = db_audit db0 @ rows \<and> (rows = [] \<longrightarrow> db = db0))"
proof (intro conjI)
  obtain k where k: "k \<in> set (sy_log (pl_sys s2))" "lg_profile k = tag"
    and poll: "lg_snap k = pollOnce (lg_env k) tag (smp tag) \<lparr>Freshness = d\<rparr> (lg_prev k) (rc_hostIP c)"
    and up: "hs_State (lg_snap k) = StateUp"
    and ttl: "status_ttl c \<le> 0 \<or> t2 < pe_set_at (lg_env k) + status_ttl c"
    and age: "\<not> (0 < maxAge cl \<and> maxAge cl < Sub t2 (hs_CheckedAt (lg_snap k)))"
    by (rule allowed_logged [OF assms(1) _ plane_sys [OF assms(7)] assms(11)]) (use assms(4,9) in auto)
  note ev = pollOnce_up [OF up [unfolded poll] assms(8)]
  show "\<exists>k \<in> set (sy_log (pl_sys s2)). lg_profile k = tag
      \<and> poll_evidence (lg_env k) (smp tag) tag (lg_prev k) (rc_hostIP c) d
      \<and> (status_ttl c \<le> 0 \<or> t2 < pe_set_at (lg_env k) + status_ttl c)
      \<and> (maxAge cl \<le> 0 \<or> Sub t2 (pe_now (lg_env k)) \<le> maxAge cl)"
    using k ev(1) ttl age ev(3) poll by (intro bexI [OF _ k(1)]) auto
  show "\<exists>x. drawn_from (pl_dbs s1) x \<and> rt_Target x = host \<and> rt_Tunnel x = tag"
    by (rule allowed_route [OF assms(1-3) _ assms(6,11)]) (use assms(5,10) in auto)
  show "\<forall>db \<in> set (pl_dbs s1). \<exists>rows. db_audit db = db_audit db0 @ rows \<and> (rows = [] \<longrightarrow> db = db0)"
    using plane_dbs [OF assms(6)] api_reach_audit by blast
qed

theorem allowed_requests_have_evidence_witness:
  "(\<exists>k \<in> set (sy_log ex_sys). lg_profile k = ''eu''
      \<and> poll_evidence (lg_env k) (ex_sampler ''eu'') ''eu'' (lg_prev k) (rc_hostIP ex_cfg) (180 * Second))
    \<and> (\<exists>x. drawn_from [wiki_db] x \<and> rt_Target x = ''wiki.helix'' \<and> rt_Tunnel x = ''eu'')"
proof -
  let ?s = "\<lparr>pl_dbs = [wiki_db], pl_sys = ex_sys\<rparr>"
  have ok: "\<forall>k \<in> set (sy_log (pl_sys ?s)). snapshot_ok (lg_snap k)" using ex_ok(1) by (simp add: ex_sys_def)
  have routes: "\<forall>x. drawn_from (pl_dbs ?s) x \<longrightarrow> route_ok x"
    using drawn_same [OF wiki_db_ok] wiki_db_route ex_ok(2) by (auto simp: drawn_from_def)
  have dec: "Decide (redis_bus mem_redis ex_client (sy_redis (pl_sys ?s)) (ex_t0 + 2 * Second) (sy_redis (pl_sys ?s)) (ex_t0 + 2 * Second))
      ''wiki.helix'' = (True, ''eu'')"
    using ex_allowed by (simp add: ex_sys_def)
  from allowed_requests_have_evidence [OF mem.redis_server_axioms ref_pg.pg_laws_axioms wiki_db_ok _ _ ex_plane ex_plane _ ok routes dec]
  show ?thesis by (auto simp: mem_empty_def Second_def)
qed

text \<open>
  C2: the system lets traffic through: once the compiler has seeded a route and a poll of its
  tunnel says "up" and is stored, every request for the route's host before the status
  expires is answered with the tunnel, as long as Redis answers the helper's two lookups and
  the poll is within the helper's maximum age.
\<close>

theorem fresh_poll_allows_requests:
  assumes "redis_server srv view"
    and "seed srv now routes 0 r0 = (n, None, r1)" and "distinct (map rt_Target routes)"
    and "route \<in> set routes" and "route_ok route" and "rt_Target route \<noteq> []" and "rt_Tunnel route \<noteq> []"
    and "tick srv c (rt_Tunnel route) smp ev env st r1 = (cur, e, st', r2)"
    and "fst (SetStatus srv r1 (pe_set_at env) cur (rc_ttlSeconds c)) = None"
    and "hs_State cur = StateUp" and "snapshot_ok cur"
    and "t1 < pe_set_at env + status_ttl c" and "0 < status_ttl c"
    and "\<forall>e. rd_Get srv r2 t (RouteKey (rt_Target route)) \<noteq> GetErr e"
    and "\<forall>e. rd_Get srv r2 t1 (StatusKey (rt_Tunnel route)) \<noteq> GetErr e"
    and "maxAge cl \<le> 0 \<or> Sub t1 (hs_CheckedAt cur) \<le> maxAge cl"
  shows "Decide (redis_bus srv cl r2 t r2 t1) (rt_Target route) = (True, rt_Tunnel route)"
proof -
  from tick_stored [OF assms(1,8,9)] obtain b where b: "marshal_status cur = Some b"
    and v: "view r2 = (view r1)(StatusKey (rt_Tunnel route) \<mapsto> entry_for b (pe_set_at env) (status_ttl c))" by blast
  have route: "live (view r2 (RouteKey (rt_Target route))) t = Some (marshal_route route)"
    using seed_all [OF assms(1-4)] by (simp add: v live_def)
  have status: "live (view r2 (StatusKey (rt_Tunnel route))) t1 = Some b"
    using assms(12,13) by (simp add: v live_entry_for)
  have "rd_Get srv r2 t (RouteKey (rt_Target route)) = GetBytes (marshal_route route)"
    by (rule get_live [OF assms(1) route assms(14)])
  moreover have "rd_Get srv r2 t1 (StatusKey (rt_Tunnel route)) = GetBytes b"
    by (rule get_live [OF assms(1) status assms(15)])
  ultimately show ?thesis
    using assms(5-7,10,11,16) b by (intro allowed_when_stored) auto
qed

theorem fresh_poll_allows_requests_witness:
  "Decide (redis_bus mem_redis ex_client ex_polled (ex_t0 + 2 * Second) ex_polled (ex_t0 + 2 * Second))
     (rt_Target ex_route) = (True, rt_Tunnel ex_route)"
proof (rule fresh_poll_allows_requests [OF mem.redis_server_axioms ex_seeded_eq(1)])
  show "tick mem_redis ex_cfg (rt_Tunnel ex_route) (ex_sampler ''eu'') ex_eval ex_env prof_init ex_seeded
      = (ex_snap, fst (snd ex_tick), fst (snd (snd ex_tick)), ex_polled)"
    using ex_tick_eq by (simp add: ex_route_def)
  show "fst (SetStatus mem_redis ex_seeded (pe_set_at ex_env) ex_snap (rc_ttlSeconds ex_cfg)) = None"
    by (rule ex_set_ok)
  show "ex_t0 + 2 * Second < pe_set_at ex_env + status_ttl ex_cfg"
    by (simp add: ex_ttl ex_env_def Second_def)
  show "maxAge ex_client \<le> 0 \<or> Sub (ex_t0 + 2 * Second) (hs_CheckedAt ex_snap) \<le> maxAge ex_client"
    by (simp add: ex_client_def ex_snap_def Sub_def Second_def)
  show "\<forall>e. rd_Get mem_redis ex_polled (ex_t0 + 2 * Second) (StatusKey (rt_Tunnel ex_route)) \<noteq> GetErr e"
    "\<forall>e. rd_Get mem_redis ex_polled (ex_t0 + 2 * Second) (RouteKey (rt_Target ex_route)) \<noteq> GetErr e"
    using ex_polled_up by (auto simp: mem_get_def split: option.splits)
qed (use ex_ok in \<open>simp_all add: ex_ttl Second_def ex_route_def ex_snap_def\<close>)



end
